(* ===== verification/Prelude.thy ===== *)
theory Prelude
  imports Main "HOL-Library.List_Lexorder" "HOL-Library.Char_ord" "HOL-Library.Monad_Syntax"
    "HOL-Library.Multiset"
begin

text \<open>
  Shared vocabulary of the development: the theorem collections the components feed, total
  counters for Go maps with integer values, folds that may panic, and the generic facts on
  lists that several components use. Strings are byte lists ordered bytewise, which is the
  order of Go's \<^verbatim>\<open>sort.Strings\<close>.
\<close>

named_theorems frame_simps
named_theorems inv_intros

section \<open>Counters\<close>

text \<open>
  A Go map with integer values whose only reads are index expressions is a total function:
  reading an absent key gives zero, and deleting a key is storing zero.
\<close>

type_synonym counter = "string \<Rightarrow> int"

definition bump :: "string \<Rightarrow> int \<Rightarrow> counter \<Rightarrow> counter" where
  "bump k d c = c(k := c k + d)"

lemma bump_same [simp]: "bump k d c k = c k + d"
  by (simp add: bump_def)

lemma bump_other [simp]: "j \<noteq> k \<Longrightarrow> bump k d c j = c j"
  by (simp add: bump_def)

lemma bump_apply: "bump k d c j = c j + (if j = k then d else 0)"
  by (simp add: bump_def)

section \<open>Steps that may panic\<close>

text \<open>A panic is \<open>None\<close>; a loop over a slice stops at the first one.\<close>

fun fold_opt :: "('a \<Rightarrow> 's \<Rightarrow> 's option) \<Rightarrow> 'a list \<Rightarrow> 's \<Rightarrow> 's option" where
  "fold_opt f [] s = Some s"
| "fold_opt f (x # xs) s = Option.bind (f x s) (fold_opt f xs)"

lemma fold_opt_append:
  "fold_opt f (xs @ ys) s = Option.bind (fold_opt f xs s) (fold_opt f ys)"
  by (induction xs arbitrary: s) (auto split: Option.bind_split)

lemma fold_opt_inv:
  assumes "fold_opt f xs s = Some t" and "P s"
    and "\<And>x s t. x \<in> set xs \<Longrightarrow> P s \<Longrightarrow> f x s = Some t \<Longrightarrow> P t"
  shows "P t"
  using assms
proof (induction xs arbitrary: s)
  case Nil
  then show ?case by simp
next
  case (Cons x xs)
  from Cons.prems(1) obtain u where u: "f x s = Some u" "fold_opt f xs u = Some t"
    by (auto split: Option.bind_splits)
  moreover have "P u" using Cons.prems(2,3) u(1) by auto
  ultimately show ?case using Cons.IH Cons.prems(3) by (metis list.set_intros(2))
qed

section \<open>Lists\<close>

lemma count_list_filter_split:
  "count_list xs a = count_list (filter P xs) a + count_list (filter (Not \<circ> P) xs) a"
  by (induction xs) auto

lemma filter_id: "(\<And>x. x \<in> set xs \<Longrightarrow> P x) \<Longrightarrow> filter P xs = xs"
  by (induction xs) auto

definition take_last :: "nat \<Rightarrow> 'a list \<Rightarrow> 'a list" where
  "take_last n xs = drop (length xs - n) xs"

lemma take_last_all [simp]: "length xs \<le> n \<Longrightarrow> take_last n xs = xs"
  by (simp add: take_last_def)

lemma length_take_last [simp]: "length (take_last n xs) = min n (length xs)"
  by (simp add: take_last_def)

lemma take_last_snoc:
  assumes "0 < n"
  shows "take_last n (take_last n xs @ [x]) = take_last n (xs @ [x])"
  using assms by (cases "length xs \<le> n") (auto simp: take_last_def Suc_diff_le)

section \<open>Sorting with a comparison\<close>

text \<open>
  \<^verbatim>\<open>sort.Slice\<close> with a comparison function. On comparisons that are strict total orders of the
  elements there is only one sorted arrangement; insertion computes it.
\<close>

fun insertBy :: "('a \<Rightarrow> 'a \<Rightarrow> bool) \<Rightarrow> 'a \<Rightarrow> 'a list \<Rightarrow> 'a list" where
  "insertBy lt x [] = [x]"
| "insertBy lt x (y # ys) = (if lt y x then y # insertBy lt x ys else x # y # ys)"

definition sortBy :: "('a \<Rightarrow> 'a \<Rightarrow> bool) \<Rightarrow> 'a list \<Rightarrow> 'a list" where
  "sortBy lt xs = foldr (insertBy lt) xs []"

lemma mset_insertBy [simp]: "mset (insertBy lt x ys) = add_mset x (mset ys)"
  by (induction ys) auto

lemma mset_sortBy [simp]: "mset (sortBy lt xs) = mset xs"
  unfolding sortBy_def by (induction xs) auto

lemma set_sortBy [simp]: "set (sortBy lt xs) = set xs"
  by (rule mset_eq_setD) simp

lemma length_sortBy [simp]: "length (sortBy lt xs) = length xs"
  by (metis mset_sortBy size_mset)

text \<open>The comparison need only be an order of the elements that are sorted.\<close>

lemma sorted_insertBy:
  assumes "\<And>x y z. x \<in> S \<Longrightarrow> y \<in> S \<Longrightarrow> z \<in> S \<Longrightarrow> lt x y \<Longrightarrow> \<not> lt z y \<Longrightarrow> lt x z"
    "\<And>x y. x \<in> S \<Longrightarrow> y \<in> S \<Longrightarrow> lt x y \<Longrightarrow> \<not> lt y x" "x \<in> S"
  shows "set ys \<subseteq> S \<Longrightarrow> sorted_wrt (\<lambda>a b. \<not> lt b a) ys \<Longrightarrow> sorted_wrt (\<lambda>a b. \<not> lt b a) (insertBy lt x ys)"
proof (induction ys)
  case (Cons y ys)
  have set: "set (insertBy lt x ys) = insert x (set ys)"
    by (metis mset_insertBy set_mset_add_mset_insert set_mset_mset)
  show ?case
  proof (cases "lt y x")
    case True
    then show ?thesis using Cons assms(2) [of y x] assms(3) set by auto
  next
    case False
    have "\<not> lt z x" if z: "z \<in> set ys" for z
    proof
      assume "lt z x"
      then have "lt z y" using assms(1) [of z x y] z False Cons.prems(1) assms(3) by auto
      then show False using Cons.prems(2) z by auto
    qed
    then show ?thesis using Cons.prems False by simp
  qed
qed simp

lemma sorted_sortBy:
  assumes "\<And>x y z. x \<in> S \<Longrightarrow> y \<in> S \<Longrightarrow> z \<in> S \<Longrightarrow> lt x y \<Longrightarrow> \<not> lt z y \<Longrightarrow> lt x z"
    "\<And>x y. x \<in> S \<Longrightarrow> y \<in> S \<Longrightarrow> lt x y \<Longrightarrow> \<not> lt y x" "set xs \<subseteq> S"
  shows "sorted_wrt (\<lambda>a b. \<not> lt b a) (sortBy lt xs)"
  using assms(3)
proof (induction xs)
  case (Cons x xs)
  then have "sorted_wrt (\<lambda>a b. \<not> lt b a) (sortBy lt xs)" "set (sortBy lt xs) \<subseteq> S" "x \<in> S" by auto
  then have "sorted_wrt (\<lambda>a b. \<not> lt b a) (insertBy lt x (sortBy lt xs))"
  proof (intro sorted_insertBy [where S = S])
    show "lt a c" if "a \<in> S" "b \<in> S" "c \<in> S" "lt a b" "\<not> lt c b" for a b c
      using that by (rule assms(1))
    show "\<not> lt b a" if "a \<in> S" "b \<in> S" "lt a b" for a b
      using that by (rule assms(2))
  qed
  then show ?case by (simp add: sortBy_def)
qed (simp add: sortBy_def)

end
