(* ===== verification/Ring.thy ===== *)
theory Ring
  imports Prelude
begin

text \<open>
  The bounded history of \<^verbatim>\<open>internal/ring/buffer.go\<close>: a fixed array with a head index and a
  fill count, refined to the list of the most recent entries.
\<close>

section \<open>The buffer\<close>

record 'a Buffer =
  rbuf :: "'a list"
  rhead :: nat
  rsize :: nat

definition NewBuffer :: "'a \<Rightarrow> int \<Rightarrow> 'a Buffer" where
  "NewBuffer zero capacity =
     (let capacity = (if capacity < 1 then 1 else capacity)
      in \<lparr>rbuf = replicate (nat capacity) zero, rhead = 0, rsize = 0\<rparr>)"

definition Push :: "'a \<Rightarrow> 'a Buffer \<Rightarrow> 'a Buffer" where
  "Push v r =
     (let cap = length (rbuf r)
      in if rsize r < cap
         then r\<lparr>rbuf := (rbuf r)[(rhead r + rsize r) mod cap := v], rsize := rsize r + 1\<rparr>
         else r\<lparr>rbuf := (rbuf r)[rhead r := v], rhead := (rhead r + 1) mod cap\<rparr>)"

definition Slice :: "'a Buffer \<Rightarrow> 'a list" where
  "Slice r =
     (if rsize r = 0 then []
      else let cap = length (rbuf r)
           in map (\<lambda>i. rbuf r ! ((rhead r + i) mod cap)) [0..<rsize r])"

section \<open>Representation invariant and refinement\<close>

definition ring_ok :: "'a Buffer \<Rightarrow> bool" where
  "ring_ok r \<longleftrightarrow> rhead r < length (rbuf r) \<and> rsize r \<le> length (rbuf r)"

lemma ring_ok_New [intro, simp]: "ring_ok (NewBuffer z c)"
  by (auto simp: ring_ok_def NewBuffer_def Let_def)

lemma length_rbuf_Push [simp]: "length (rbuf (Push v r)) = length (rbuf r)"
  by (simp add: Push_def Let_def)

lemma ring_ok_Push [intro]: "ring_ok r \<Longrightarrow> ring_ok (Push v r)"
  by (auto simp: ring_ok_def Push_def Let_def intro: mod_less_divisor)

lemma length_Slice: "length (Slice r) = rsize r"
  by (simp add: Slice_def Let_def)

lemma nth_Slice: "i < rsize r \<Longrightarrow> Slice r ! i = rbuf r ! ((rhead r + i) mod length (rbuf r))"
  by (simp add: Slice_def Let_def)

lemma ring_index_inj:
  assumes "i < (n::nat)" "j < n" "(h + i) mod n = (h + j) mod n"
  shows "i = j"
  using assms
proof (induction i j rule: linorder_wlog)
  case (le i j)
  from le have "(h + j - (h + i)) mod n = 0"
    by (intro mod_eq_dvd_iff_nat [THEN iffD1, THEN dvd_imp_mod_0]) auto
  with le show ?case by simp
qed simp

lemma Slice_Push_room:
  assumes "ring_ok r" "rsize r < length (rbuf r)"
  shows "Slice (Push v r) = Slice r @ [v]"
proof (rule nth_equalityI)
  show "length (Slice (Push v r)) = length (Slice r @ [v])"
    using assms by (simp add: length_Slice Push_def)
next
  fix i assume "i < length (Slice (Push v r))"
  then have i: "i < Suc (rsize r)" using assms by (simp add: length_Slice Push_def)
  have pos: "0 < length (rbuf r)" using assms(2) by linarith
  show "Slice (Push v r) ! i = (Slice r @ [v]) ! i"
  proof (cases "i = rsize r")
    case True
    with assms pos show ?thesis
      by (simp add: nth_Slice length_Slice nth_append Push_def)
  next
    case False
    with i have lt: "i < rsize r" by simp
    with assms ring_index_inj [of i "length (rbuf r)" "rsize r" "rhead r"]
    have "(rhead r + i) mod length (rbuf r) \<noteq> (rhead r + rsize r) mod length (rbuf r)" by auto
    with lt assms show ?thesis
      by (simp add: nth_Slice length_Slice nth_append Push_def)
  qed
qed

lemma Slice_Push_full:
  assumes "ring_ok r" "rsize r = length (rbuf r)"
  shows "Slice (Push v r) = tl (Slice r) @ [v]"
proof (rule nth_equalityI)
  have pos: "0 < length (rbuf r)" using assms(1) by (auto simp: ring_ok_def)
  show "length (Slice (Push v r)) = length (tl (Slice r) @ [v])"
    using assms pos by (simp add: length_Slice Push_def)
  fix i assume "i < length (Slice (Push v r))"
  then have i: "i < length (rbuf r)" using assms by (simp add: length_Slice Push_def)
  let ?n = "length (rbuf r)"
  have shift: "((rhead r + 1) mod ?n + i) mod ?n = (rhead r + Suc i) mod ?n"
    by (simp add: mod_add_left_eq)
  show "Slice (Push v r) ! i = (tl (Slice r) @ [v]) ! i"
  proof (cases "Suc i = ?n")
    case True
    then have "(rhead r + Suc i) mod ?n = rhead r"
      using assms(1) by (simp add: ring_ok_def)
    with True assms i shift show ?thesis
      by (auto simp add: nth_Slice length_Slice nth_append Push_def ring_ok_def)
  next
    case False
    with i have lt: "Suc i < ?n" by simp
    with assms(1) ring_index_inj [of "Suc i" ?n 0 "rhead r"]
    have "(rhead r + Suc i) mod ?n \<noteq> rhead r"
      using pos by (auto simp: ring_ok_def)
    moreover from lt have "i < ?n - 1" by simp
    ultimately show ?thesis using lt assms i shift pos
      by (simp add: nth_Slice length_Slice nth_append nth_tl Push_def)
  qed
qed

section \<open>The contract of a bounded history\<close>

text \<open>
  What the users of the buffer rely on: a history of fixed capacity that forgets its oldest
  entry when it is full.
\<close>

locale bounded_history =
  fixes push :: "'a \<Rightarrow> 'b \<Rightarrow> 'b" and contents :: "'b \<Rightarrow> 'a list"
    and capacity :: "'b \<Rightarrow> nat" and ok :: "'b \<Rightarrow> bool"
  assumes ok_push: "ok h \<Longrightarrow> ok (push v h)"
    and capacity_push: "ok h \<Longrightarrow> capacity (push v h) = capacity h"
    and capacity_pos: "ok h \<Longrightarrow> 0 < capacity h"
    and within: "ok h \<Longrightarrow> length (contents h) \<le> capacity h"
    and contents_push: "ok h \<Longrightarrow> contents (push v h) = take_last (capacity h) (contents h @ [v])"
begin

lemma ok_pushes: "ok h \<Longrightarrow> ok (foldl (\<lambda>h v. push v h) h vs)"
  by (induction vs arbitrary: h) (auto simp: ok_push)

lemma contents_pushes:
  "ok h \<Longrightarrow> contents (foldl (\<lambda>h v. push v h) h vs) = take_last (capacity h) (contents h @ vs)"
proof (induction vs rule: rev_induct)
  case Nil
  then show ?case by (simp add: within)
next
  case (snoc v vs)
  let ?h = "foldl (\<lambda>h v. push v h) h vs"
  have ok: "ok ?h" using snoc.prems by (rule ok_pushes)
  have cap: "capacity ?h = capacity h"
    using snoc.prems by (induction vs arbitrary: h) (auto simp: ok_push capacity_push)
  have "contents (push v ?h) = take_last (capacity h) (take_last (capacity h) (contents h @ vs) @ [v])"
    using snoc ok cap by (simp add: contents_push)
  also have "\<dots> = take_last (capacity h) (contents h @ vs @ [v])"
    using take_last_snoc [of "capacity h" "contents h @ vs" v] capacity_pos [OF snoc.prems] by simp
  finally show ?case by simp
qed

end

lemma Slice_Push:
  assumes "ring_ok r"
  shows "Slice (Push v r) = take_last (length (rbuf r)) (Slice r @ [v])"
proof (cases "rsize r < length (rbuf r)")
  case True
  with assms show ?thesis by (simp add: Slice_Push_room length_Slice)
next
  case False
  with assms have full: "rsize r = length (rbuf r)" by (simp add: ring_ok_def)
  have "0 < length (rbuf r)" using assms by (auto simp: ring_ok_def)
  with full have "0 < length (Slice r)" by (simp add: length_Slice)
  then obtain y ys where "Slice r = y # ys" by (cases "Slice r") auto
  moreover have "length (rbuf r) = length (Slice r)" using full by (simp add: length_Slice)
  ultimately show ?thesis using Slice_Push_full [OF assms full] by (simp add: take_last_def)
qed

interpretation ring: bounded_history Push Slice "\<lambda>r. length (rbuf r)" ring_ok
proof
  show "ring_ok r \<Longrightarrow> Slice (Push v r) = take_last (length (rbuf r)) (Slice r @ [v])"
    for r :: "'a Buffer" and v by (rule Slice_Push)
  show "ring_ok r \<Longrightarrow> ring_ok (Push v r)" for r :: "'a Buffer" and v by (rule ring_ok_Push)
qed (auto simp: ring_ok_def length_Slice)

text \<open>C19: A buffer made with any capacity, even a negative one, always reads as the most recent
  entries pushed, oldest first, as many as the capacity allows but at least one.\<close>

theorem ring_keeps_latest:
  "Slice (foldl (\<lambda>r v. Push v r) (NewBuffer zero capacity) vs) = take_last (nat (max 1 capacity)) vs"
proof -
  have "Slice (NewBuffer zero capacity) = []" "length (rbuf (NewBuffer zero capacity)) = nat (max 1 capacity)"
    by (auto simp: Slice_def NewBuffer_def Let_def)
  with ring.contents_pushes [OF ring_ok_New, of zero capacity vs] show ?thesis by simp
qed

end
