(* ===== verification/Cache.thy ===== *)
theory Cache
  imports Prelude "HOL-Library.Word"
begin

text \<open>
  The capture cache of \<^verbatim>\<open>internal/cache/cache.go\<close>: byte slices under integer keys within a
  byte budget, oldest insertion evicted first. The mutex serialises the operations, so each is
  one state transformation.
\<close>

section \<open>State and operations\<close>

datatype cache_error = ErrExceedsMaxSize | ErrNotFound

record Cache =
  items :: "int \<rightharpoonup> 8 word list"
  order :: "int list"
  csize :: int
  maxSize :: int

definition New :: "int \<Rightarrow> Cache" where
  "New maxBytes = \<lparr>items = Map.empty, order = [], csize = 0, maxSize = maxBytes\<rparr>"

definition blen :: "8 word list \<Rightarrow> int" where
  "blen data = int (length data)"

definition removeOrder :: "int \<Rightarrow> Cache \<Rightarrow> Cache" where
  "removeOrder i c = c\<lparr>order := remove1 i (order c)\<rparr>"

definition dropOld :: "int \<Rightarrow> Cache \<Rightarrow> Cache" where
  "dropOld i c =
     (case items c i of
        None \<Rightarrow> c
      | Some old \<Rightarrow> removeOrder i (c\<lparr>csize := csize c - blen old\<rparr>))"

definition evictOldest :: "Cache \<Rightarrow> Cache" where
  "evictOldest c =
     (let oldestID = hd (order c); c' = c\<lparr>order := tl (order c)\<rparr>
      in case items c' oldestID of
           None \<Rightarrow> c'
         | Some evicted \<Rightarrow>
             c'\<lparr>csize := csize c' - blen evicted, items := (items c')(oldestID := None)\<rparr>)"

lemma order_evictOldest [simp]: "order (evictOldest c) = tl (order c)"
  by (simp add: evictOldest_def Let_def split: option.split)

lemma maxSize_evictOldest [simp]: "maxSize (evictOldest c) = maxSize c"
  by (simp add: evictOldest_def Let_def split: option.split)

function evictLoop :: "int \<Rightarrow> Cache \<Rightarrow> Cache" where
  "evictLoop dataSize c =
     (if csize c + dataSize > maxSize c \<and> order c \<noteq> []
      then evictLoop dataSize (evictOldest c) else c)"
  by pat_completeness auto
termination
  by (relation "measure (\<lambda>(d, c). length (order c))") auto

declare evictLoop.simps [simp del]

definition Add :: "int \<Rightarrow> 8 word list \<Rightarrow> Cache \<Rightarrow> cache_error option \<times> Cache" where
  "Add i data c =
     (let dataSize = blen data in
      if dataSize > maxSize c then (Some ErrExceedsMaxSize, c)
      else let c1 = dropOld i c; c2 = evictLoop dataSize c1
           in (None, c2\<lparr>items := (items c2)(i \<mapsto> data), order := order c2 @ [i],
                        csize := csize c2 + dataSize\<rparr>))"

definition Get :: "int \<Rightarrow> Cache \<Rightarrow> cache_error + 8 word list" where
  "Get i c = (case items c i of None \<Rightarrow> Inl ErrNotFound | Some data \<Rightarrow> Inr data)"

definition Has :: "int \<Rightarrow> Cache \<Rightarrow> bool" where
  "Has i c = (case items c i of None \<Rightarrow> False | Some _ \<Rightarrow> True)"

definition Size :: "Cache \<Rightarrow> int" where
  "Size c = csize c"

definition Clear :: "Cache \<Rightarrow> Cache" where
  "Clear c = c\<lparr>items := Map.empty, order := [], csize := 0\<rparr>"

section \<open>Abstraction: the entries, oldest first\<close>

text \<open>
  A well-formed cache is the list of its entries in insertion order; the byte count is the sum
  of their lengths and stays within the budget.
\<close>

type_synonym entries = "(int \<times> 8 word list) list"

definition entries :: "Cache \<Rightarrow> entries" where
  "entries c = map (\<lambda>i. (i, the (items c i))) (order c)"

definition bytes :: "entries \<Rightarrow> int" where
  "bytes es = sum_list (map (blen \<circ> snd) es)"

definition cache_ok :: "Cache \<Rightarrow> bool" where
  "cache_ok c \<longleftrightarrow> distinct (order c) \<and> set (order c) = dom (items c) \<and>
     csize c = bytes (entries c) \<and> csize c \<le> max 0 (maxSize c)"

text \<open>The specification: forget from the oldest end until the new entry fits.\<close>

fun fit :: "int \<Rightarrow> entries \<Rightarrow> entries" where
  "fit room [] = []"
| "fit room (e # es) = (if bytes (e # es) \<le> room then e # es else fit room es)"

lemma bytes_simps [simp]:
  "bytes [] = 0" "bytes (e # es) = blen (snd e) + bytes es" "bytes (es @ fs) = bytes es + bytes fs"
  by (simp_all add: bytes_def)

lemma blen_nonneg [simp]: "0 \<le> blen d"
  by (simp add: blen_def)

lemma bytes_nonneg [simp]: "0 \<le> bytes es"
  by (induction es) auto

lemma bytes_fit: "0 \<le> room \<Longrightarrow> bytes (fit room es) \<le> room"
  by (induction es) auto

lemma suffix_fit: "\<exists>ds. es = ds @ fit room es"
proof (induction es)
  case (Cons e es)
  then obtain ds where "es = ds @ fit room es" by blast
  then have "e # es = (if bytes (e # es) \<le> room then [] else e # ds) @ fit room (e # es)" by simp
  then show ?case by blast
qed simp

text \<open>The parts of the invariant that hold while an insertion is under way.\<close>

definition cache_wf :: "Cache \<Rightarrow> bool" where
  "cache_wf c \<longleftrightarrow> distinct (order c) \<and> set (order c) \<subseteq> dom (items c) \<and> csize c = bytes (entries c)"

lemma entries_nil: "order c = [] \<Longrightarrow> entries c = []"
  by (simp add: entries_def)

lemma entries_cong:
  "order c = order c' \<Longrightarrow> (\<And>j. j \<in> set (order c) \<Longrightarrow> items c j = items c' j) \<Longrightarrow> entries c = entries c'"
  by (simp add: entries_def)

lemma entries_evictOldest:
  assumes "cache_wf c" "order c \<noteq> []"
  shows "cache_wf (evictOldest c)" "entries (evictOldest c) = tl (entries c)"
    "items (evictOldest c) = (items c)(hd (order c) := None)"
proof -
  from assms obtain i ids where ord: "order c = i # ids" by (cases "order c") auto
  with assms obtain d where d: "items c i = Some d" by (auto simp: cache_wf_def)
  show items: "items (evictOldest c) = (items c)(hd (order c) := None)"
    using ord d by (simp add: evictOldest_def)
  show ent: "entries (evictOldest c) = tl (entries c)"
    using assms ord d by (auto simp: evictOldest_def entries_def cache_wf_def)
  have "csize (evictOldest c) = bytes (entries (evictOldest c))"
    unfolding ent using assms ord d by (simp add: cache_wf_def evictOldest_def entries_def)
  then show "cache_wf (evictOldest c)"
    using assms(1) ord items by (auto simp: cache_wf_def)
qed

lemma fit_entries:
  assumes "cache_wf c"
  shows "csize c + d > maxSize c \<Longrightarrow> order c \<noteq> [] \<Longrightarrow>
      fit (maxSize c - d) (entries c) = fit (maxSize c - d) (tl (entries c))"
    and "\<not> (csize c + d > maxSize c \<and> order c \<noteq> []) \<Longrightarrow>
      fit (maxSize c - d) (entries c) = entries c"
  using assms by (cases "entries c"; auto simp: cache_wf_def entries_def)+

lemma evictLoop_spec:
  "cache_wf c \<Longrightarrow> cache_wf (evictLoop d c) \<and>
     entries (evictLoop d c) = fit (maxSize c - d) (entries c) \<and>
     maxSize (evictLoop d c) = maxSize c \<and>
     dom (items (evictLoop d c)) - set (order (evictLoop d c)) = dom (items c) - set (order c)"
proof (induction d c rule: evictLoop.induct)
  case (1 d c)
  show ?case
  proof (cases "csize c + d > maxSize c \<and> order c \<noteq> []")
    case True
    note step = entries_evictOldest [OF "1.prems"]
    have dom: "dom (items (evictOldest c)) - set (order (evictOldest c)) = dom (items c) - set (order c)"
      using True step(3) "1.prems" by (cases "order c") (auto simp: cache_wf_def)
    have "evictLoop d c = evictLoop d (evictOldest c)"
      using True by (simp add: evictLoop.simps [of d c])
    with "1.IH" [OF True step(1)] True step(2) fit_entries(1) [OF "1.prems"] dom show ?thesis
      by (simp del: order_evictOldest)
  next
    case False
    with "1.prems" fit_entries(2) [OF "1.prems", of d] show ?thesis
      by (auto simp: evictLoop.simps [of d c])
  qed
qed

lemma entries_remove1:
  "distinct (order c) \<Longrightarrow>
     map (\<lambda>j. (j, the (items c j))) (remove1 i (order c)) = filter (\<lambda>e. fst e \<noteq> i) (entries c)"
  by (simp add: entries_def distinct_remove1_removeAll filter_map comp_def removeAll_filter_not_eq eq_commute [of i])

lemma bytes_filter_key:
  "distinct (order c) \<Longrightarrow> i \<in> set (order c) \<Longrightarrow>
     bytes (filter (\<lambda>e. fst e \<noteq> i) (entries c)) = bytes (entries c) - blen (the (items c i))"
proof (induction "order c" arbitrary: c)
  case (Cons j js)
  have tl: "entries c = (j, the (items c j)) # entries (c\<lparr>order := js\<rparr>)"
    using Cons(2) [symmetric] by (simp add: entries_def)
  show ?case
  proof (cases "i = j")
    case True
    with Cons.prems(1) Cons(2) [symmetric] have "i \<notin> set js" by auto
    then have "filter (\<lambda>e. fst e \<noteq> i) (entries (c\<lparr>order := js\<rparr>)) = entries (c\<lparr>order := js\<rparr>)"
      by (auto simp: entries_def intro!: filter_id)
    with tl True show ?thesis by simp
  next
    case False
    with Cons.prems Cons(2) [symmetric] Cons(1) [of "c\<lparr>order := js\<rparr>"] tl show ?thesis by auto
  qed
qed simp

lemma dropOld_spec:
  assumes "cache_ok c"
  shows "cache_wf (dropOld i c)" "entries (dropOld i c) = filter (\<lambda>e. fst e \<noteq> i) (entries c)"
    "maxSize (dropOld i c) = maxSize c" "items (dropOld i c) = items c"
    "set (order (dropOld i c)) = dom (items c) - {i}"
proof -
  show ent: "entries (dropOld i c) = filter (\<lambda>e. fst e \<noteq> i) (entries c)"
  proof (cases "items c i")
    case None
    with assms have "i \<notin> set (order c)" by (auto simp: cache_ok_def)
    then have "filter (\<lambda>e. fst e \<noteq> i) (entries c) = entries c"
      by (auto simp: entries_def intro!: filter_id)
    with None show ?thesis by (simp add: dropOld_def)
  next
    case (Some d)
    with assms entries_remove1 [of c i] show ?thesis
      by (simp add: dropOld_def removeOrder_def entries_def cache_ok_def)
  qed
  show "maxSize (dropOld i c) = maxSize c" "items (dropOld i c) = items c"
    by (auto simp: dropOld_def removeOrder_def split: option.split)
  show ord: "set (order (dropOld i c)) = dom (items c) - {i}"
    using assms by (auto simp: dropOld_def removeOrder_def cache_ok_def split: option.split)
  show "cache_wf (dropOld i c)"
  proof (cases "items c i")
    case None
    with assms show ?thesis by (auto simp: dropOld_def cache_wf_def cache_ok_def)
  next
    case (Some d)
    then have "i \<in> set (order c)" using assms by (auto simp: cache_ok_def)
    with assms Some ent ord bytes_filter_key [of c i] show ?thesis
      by (auto simp: cache_wf_def cache_ok_def dropOld_def removeOrder_def)
  qed
qed

section \<open>The operations keep the invariant and implement the specification\<close>

lemma Add_spec:
  assumes "cache_ok c" "blen data \<le> maxSize c"
  shows "cache_ok (snd (Add i data c))"
    "entries (snd (Add i data c)) =
       fit (maxSize c - blen data) (filter (\<lambda>e. fst e \<noteq> i) (entries c)) @ [(i, data)]"
    "fst (Add i data c) = None"
proof -
  let ?c1 = "dropOld i c" and ?c3 = "snd (Add i data c)"
  let ?c2 = "evictLoop (blen data) ?c1"
  note d = dropOld_spec [OF assms(1), of i]
  have e: "cache_wf ?c2" "entries ?c2 = fit (maxSize c - blen data) (filter (\<lambda>e. fst e \<noteq> i) (entries c))"
    "maxSize ?c2 = maxSize c"
    "dom (items ?c2) - set (order ?c2) = dom (items c) - (dom (items c) - {i})"
    using evictLoop_spec [OF d(1), of "blen data"] d by auto
  have c3: "?c3 = ?c2\<lparr>items := (items ?c2)(i \<mapsto> data), order := order ?c2 @ [i],
                        csize := csize ?c2 + blen data\<rparr>"
    using assms(2) by (simp add: Add_def Let_def)
  show "fst (Add i data c) = None" using assms(2) by (simp add: Add_def Let_def)
  obtain ds where "filter (\<lambda>e. fst e \<noteq> i) (entries c) = ds @ entries ?c2"
    using e(2) suffix_fit by metis
  then have "set (entries ?c2) \<subseteq> set (filter (\<lambda>e. fst e \<noteq> i) (entries c))" by simp
  then have new: "i \<notin> set (order ?c2)" by (auto simp: entries_def)
  show ent: "entries ?c3 = fit (maxSize c - blen data) (filter (\<lambda>e. fst e \<noteq> i) (entries c)) @ [(i, data)]"
  proof -
    have "map (\<lambda>j. (j, the (((items ?c2)(i \<mapsto> data)) j))) (order ?c2) = entries ?c2"
      unfolding entries_def using new by (intro map_cong) auto
    moreover have "entries ?c3 =
        map (\<lambda>j. (j, the (((items ?c2)(i \<mapsto> data)) j))) (order ?c2) @ [(i, data)]"
      by (simp add: c3 entries_def)
    ultimately show ?thesis using e(2) by metis
  qed
  have "bytes (entries ?c2) \<le> maxSize c - blen data"
    using assms(2) e(2) bytes_fit by simp
  moreover have "dom (items ?c2) \<subseteq> insert i (set (order ?c2))" using e(4) by auto
  moreover have "csize ?c3 = bytes (entries ?c3)"
    using e(1,2) ent by (simp add: c3 cache_wf_def)
  ultimately show "cache_ok ?c3"
    using new e(1,3) ent by (auto simp: cache_ok_def c3 cache_wf_def e(2))
qed

lemma Add_too_big: "maxSize c < blen data \<Longrightarrow> Add i data c = (Some ErrExceedsMaxSize, c)"
  by (simp add: Add_def)

lemma cache_ok_New [simp]: "cache_ok (New m)"
  by (simp add: cache_ok_def New_def entries_def)

lemma cache_ok_Clear [simp]: "cache_ok (Clear c)"
  by (simp add: cache_ok_def Clear_def entries_def)

lemma cache_ok_Add: "cache_ok c \<Longrightarrow> cache_ok (snd (Add i data c))"
  by (cases "blen data \<le> maxSize c") (auto simp: Add_spec Add_too_big)

text \<open>A cache lookup is a lookup in the entry list.\<close>

lemma Get_entries: "cache_ok c \<Longrightarrow> Get i c = (case map_of (entries c) i of None \<Rightarrow> Inl ErrNotFound | Some d \<Rightarrow> Inr d)"
proof -
  assume ok: "cache_ok c"
  have "map_of (entries c) i = (if i \<in> set (order c) then Some (the (items c i)) else None)"
    unfolding entries_def by (rule map_of_map_restrict [THEN fun_cong, THEN trans]) (simp add: restrict_map_def)
  with ok show ?thesis by (auto simp: Get_def cache_ok_def split: option.split)
qed

datatype cache_op = OpAdd int "8 word list" | OpClear

fun run_op :: "cache_op \<Rightarrow> Cache \<Rightarrow> Cache" where
  "run_op (OpAdd i d) c = snd (Add i d c)"
| "run_op OpClear c = Clear c"

lemma cache_ok_run: "cache_ok c \<Longrightarrow> cache_ok (foldl (\<lambda>c o'. run_op o' c) c ops)"
proof (induction ops arbitrary: c)
  case (Cons a ops)
  then show ?case by (cases a) (auto intro: cache_ok_Add)
qed simp

section \<open>Properties\<close>

definition run :: "int \<Rightarrow> cache_op list \<Rightarrow> Cache" where
  "run maxBytes ops = foldl (\<lambda>c o'. run_op o' c) (New maxBytes) ops"

lemma cache_ok_reach: "cache_ok (run m ops)"
  unfolding run_def by (rule cache_ok_run) simp

lemma maxSize_run: "maxSize (run m ops) = m"
proof -
  have drop: "maxSize (dropOld i c) = maxSize c" for i c
    by (simp add: dropOld_def removeOrder_def split: option.split)
  have loop: "maxSize (evictLoop d c) = maxSize c" for d c
    by (induction d c rule: evictLoop.induct) (subst evictLoop.simps, simp)
  have "maxSize (run_op op c) = maxSize c" for op c
    by (cases op) (auto simp: Add_def Clear_def Let_def drop loop)
  then show ?thesis by (induction ops rule: rev_induct) (simp_all add: run_def New_def)
qed

text \<open>C18: After any sequence of additions and clears the cache holds each key once, its byte count is
  the sum of the stored lengths, and it is within the budget the cache was made with.\<close>

theorem cache_within_budget:
  "let c = run maxBytes ops in
   distinct (order c) \<and> set (order c) = dom (items c) \<and> Size c = bytes (entries c) \<and> Size c \<le> max 0 maxBytes"
  using cache_ok_reach [of maxBytes ops] maxSize_run [of maxBytes ops]
  by (simp add: cache_ok_def Size_def Let_def)

text \<open>Adding an entry that fits replaces an entry of the same key, forgets just enough of the
  oldest entries, and makes the new one the newest; an entry over the budget is refused and
  changes nothing.\<close>

theorem cache_add_refines:
  "let c = run maxBytes ops; (err, c') = Add i data c in
   if blen data \<le> maxBytes
   then err = None \<and> Get i c' = Inr data \<and>
     entries c' = fit (maxBytes - blen data) (filter (\<lambda>e. fst e \<noteq> i) (entries c)) @ [(i, data)]
   else err = Some ErrExceedsMaxSize \<and> c' = c"
proof -
  let ?c = "run maxBytes ops"
  note ok = cache_ok_reach [of maxBytes ops] and mx = maxSize_run [of maxBytes ops]
  show ?thesis
  proof (cases "blen data \<le> maxBytes")
    case True
    then have fits: "blen data \<le> maxSize ?c" using mx by simp
    have "Get i (snd (Add i data ?c)) = Inr data"
      using fits by (simp add: Add_def Get_def Let_def)
    then show ?thesis using True mx Add_spec [OF ok fits, of i]
      by (simp add: Let_def case_prod_beta)
  next
    case False
    then show ?thesis using mx Add_too_big [of ?c data i] by (simp add: Let_def)
  qed
qed

end
