(* ===== verification/Config_Types.thy ===== *)
theory Config_Types
  imports Prelude "HOL-Library.AList"
begin

text \<open>
  The data the components share: the configuration structs of \<^verbatim>\<open>internal/config\<close>, the process
  states of \<^verbatim>\<open>internal/process/process.go\<close> and the errors handed to request callers. A Go map
  that the code iterates over is an association list with distinct keys, its order standing for
  the unspecified iteration order; a map that is only looked up is a partial function.
\<close>

section \<open>Process states and errors\<close>

datatype ProcessState =
  StateStopped | StateStarting | StateReady | StateStopping | StateShutdown

text \<open>
  \<open>ErrText\<close> is the error of a \<^verbatim>\<open>fmt.Errorf\<close> with its rendered text; \<open>ProviderError\<close> is
  \<^verbatim>\<open>provider.Error\<close> with its provider, code, message and status (zero when not set).
\<close>

datatype error =
    ErrNoLocalModelFound
  | ConcurrencyLimitError
  | ProviderError string string string int
  | ErrText string

section \<open>Configuration\<close>

definition ResidencyHardPinned :: string where "ResidencyHardPinned = ''hard-pinned''"
definition ResidencyPreferred :: string where "ResidencyPreferred = ''preferred''"
definition ResidencyTransient :: string where "ResidencyTransient = ''transient''"
definition ResidencyExternal :: string where "ResidencyExternal = ''external''"

lemmas residency_defs =
  ResidencyHardPinned_def ResidencyPreferred_def ResidencyTransient_def ResidencyExternal_def

record ModelCapConfig =
  capIn :: "string list"
  capOut :: "string list"
  Tools :: bool
  Reranker :: bool
  Context :: int

definition noCapabilities :: ModelCapConfig where
  "noCapabilities = \<lparr>capIn = [], capOut = [], Tools = False, Reranker = False, Context = 0\<rparr>"

text \<open>The fields the modelled code reads; of \<^verbatim>\<open>filters.setParamsByID\<close> it reads the keys.\<close>

record ModelConfig =
  Cmd :: string
  CmdStop :: string
  Proxy :: string
  Aliases :: "string list"
  CheckEndpoint :: string
  UnloadAfter :: int
  UnloadTimeout :: int
  UseModelName :: string
  Provider :: string
  ProviderModel :: string
  LifecyclePool :: string
  Residency :: string
  ResidencyPriority :: int
  ConcurrencyLimit :: int
  SetParamsByID :: "string list"
  SendLoadingState :: "bool option"
  Capabilities :: ModelCapConfig
  HealthCheckTimeout :: int

text \<open>The zero value of the struct, which reading an absent map key gives.\<close>

definition zeroModelConfig :: ModelConfig where
  "zeroModelConfig = \<lparr>Cmd = [], CmdStop = [], Proxy = [], Aliases = [], CheckEndpoint = [],
     UnloadAfter = 0, UnloadTimeout = 0, UseModelName = [], Provider = [], ProviderModel = [],
     LifecyclePool = [], Residency = [], ResidencyPriority = 0, ConcurrencyLimit = 0,
     SetParamsByID = [], SendLoadingState = None, Capabilities = noCapabilities, HealthCheckTimeout = 0\<rparr>"

text \<open>Durations are integers in nanoseconds.\<close>

record LifecyclePoolConfig =
  poolProvider :: string
  Capacity :: int
  RestorePreferred :: bool
  TransientIdleTTL :: int
  ResidentFirst :: bool
  MaxResidentBurst :: int
  MaxResidentWait :: int

record GroupConfig =
  Swap :: bool
  Exclusive :: bool
  Persistent :: bool
  Members :: "string list"

section \<open>Decimal rendering\<close>

text \<open>\<^verbatim>\<open>strconv.Itoa\<close>.\<close>

definition digit_char :: "nat \<Rightarrow> char" where
  "digit_char d = char_of (48 + d)"

fun nat_digits :: "nat \<Rightarrow> string" where
  "nat_digits n = (if n < 10 then [digit_char n] else nat_digits (n div 10) @ [digit_char (n mod 10)])"

declare nat_digits.simps [simp del]

definition Itoa :: "int \<Rightarrow> string" where
  "Itoa i = (if i < 0 then CHR ''-'' # nat_digits (nat (- i)) else nat_digits (nat i))"

end
