(* ===== verification/Scheduler.thy ===== *)
theory Scheduler
  imports Config_Types
begin

text \<open>
  The FIFO scheduler of \<^verbatim>\<open>internal/router/scheduler\<close>. Its handlers run one at a time on the
  router's run loop; each is a function from the scheduler state to the next one, with
  \<open>None\<close> for the panic in \<^verbatim>\<open>release\<close>. Everything the scheduler reaches through the
  \<^verbatim>\<open>Effects\<close> and \<^verbatim>\<open>Swapper\<close> interfaces, a caller's channels and the clock is a record of
  functions over a world the scheduler carries along.
\<close>

section \<open>Requests, swaps and the interfaces\<close>

text \<open>
  A request is identified by its respond channel. \<open>hasAdmit\<close> tells whether its admit channel
  is non-nil, \<open>positionCh\<close> names its one-place position channel, and \<open>queuedAt\<close> is
  \<open>None\<close> for Go's zero time.
\<close>

record HandlerReq =
  Model :: string
  hasAdmit :: bool
  Respond :: nat
  positionCh :: nat
  queuedAt :: "int option"

record activeSwap =
  modelID :: string
  evict :: "string list"
  waiters :: "HandlerReq list"

record 'w Effects =
  ModelState :: "'w \<Rightarrow> string \<Rightarrow> ProcessState option"
  RunningModels :: "'w \<Rightarrow> (string \<times> ProcessState) list"
  StartSwap :: "string \<Rightarrow> string list \<Rightarrow> 'w \<Rightarrow> 'w"
  GrantError :: "HandlerReq \<Rightarrow> error \<Rightarrow> 'w \<Rightarrow> 'w"
  GrantServe :: "HandlerReq \<Rightarrow> string \<Rightarrow> 'w \<Rightarrow> bool \<times> 'w"
  StopProcesses :: "int \<Rightarrow> string list \<Rightarrow> 'w \<Rightarrow> 'w"
  QueueDelta :: "string \<Rightarrow> int \<Rightarrow> 'w \<Rightarrow> 'w"
  QueueWait :: "string \<Rightarrow> int \<Rightarrow> 'w \<Rightarrow> 'w"
  ResidentAdmission :: "string \<Rightarrow> 'w \<Rightarrow> 'w"
  FairnessPromotion :: "string \<Rightarrow> 'w \<Rightarrow> 'w"
  EvictionFor :: "'w \<Rightarrow> string \<Rightarrow> string list \<Rightarrow> string list"
  OnSwapStart :: "string \<Rightarrow> string list \<Rightarrow> 'w \<Rightarrow> 'w"
  SendAdmit :: "HandlerReq \<Rightarrow> error option \<Rightarrow> 'w \<Rightarrow> bool \<times> 'w"
  SetReqData :: "HandlerReq \<Rightarrow> string \<Rightarrow> string \<Rightarrow> 'w \<Rightarrow> 'w"
  Now :: "'w \<Rightarrow> int"

section \<open>Scheduler state\<close>

record 'w FIFO =
  name :: string
  priority :: counter
  limits :: "string \<rightharpoonup> int"
  active :: "(string \<times> activeSwap) list"
  reserved :: counter
  inFlight :: counter
  queued :: "HandlerReq list"
  models :: "string \<rightharpoonup> ModelConfig"
  pools :: "(string \<times> LifecyclePoolConfig) list"
  residentBursts :: counter
  positions :: "nat \<Rightarrow> int option"
  world :: 'w

definition defaultConcurrencyLimit :: int where
  "defaultConcurrencyLimit = 10"

definition NewFIFOWithLifecycle ::
  "string \<Rightarrow> counter \<Rightarrow> (string \<rightharpoonup> ModelConfig) \<Rightarrow> (string \<times> LifecyclePoolConfig) list \<Rightarrow> 'w \<Rightarrow> 'w FIFO" where
  "NewFIFOWithLifecycle nm prio mods pls w =
     \<lparr>name = nm, priority = prio,
      limits = (\<lambda>i. case mods i of None \<Rightarrow> None
                | Some mc \<Rightarrow> Some (if ConcurrencyLimit mc > 0 then ConcurrencyLimit mc
                                   else defaultConcurrencyLimit)),
      active = [], reserved = (\<lambda>_. 0), inFlight = (\<lambda>_. 0), queued = [],
      models = mods, pools = pls, residentBursts = (\<lambda>_. 0), positions = (\<lambda>_. None), world = w\<rparr>"

definition NewFIFO :: "string \<Rightarrow> counter \<Rightarrow> (string \<rightharpoonup> ModelConfig) \<Rightarrow> 'w \<Rightarrow> 'w FIFO" where
  "NewFIFO nm prio mods w = NewFIFOWithLifecycle nm prio mods [] w"

text \<open>\<^verbatim>\<open>scheduler.New\<close>: the configured scheduler name selects the implementation.\<close>

definition NewScheduler ::
  "string \<Rightarrow> string \<Rightarrow> counter \<Rightarrow> (string \<rightharpoonup> ModelConfig) \<Rightarrow> (string \<times> LifecyclePoolConfig) list \<Rightarrow> 'w
    \<Rightarrow> error + 'w FIFO" where
  "NewScheduler use0 nm prio mods pls w =
     (let use = (if use0 = '''' then ''fifo'' else use0)
      in if use = ''fifo'' then Inr (NewFIFOWithLifecycle nm prio mods pls w)
         else Inl (ErrText (''unsupported scheduler type: \"'' @ use @ ''\"'')))"

section \<open>Small helpers of the scheduler\<close>

definition limit :: "'w FIFO \<Rightarrow> string \<Rightarrow> int" where
  "limit s m = (case limits s m of Some l \<Rightarrow> l | None \<Rightarrow> defaultConcurrencyLimit)"

definition poolFor :: "'w FIFO \<Rightarrow> string \<Rightarrow> string" where
  "poolFor s m = (case models s m of Some mc \<Rightarrow> LifecyclePool mc | None \<Rightarrow> [])"

definition slicesOverlap :: "string list \<Rightarrow> string list \<Rightarrow> bool" where
  "slicesOverlap xs ys = list_ex (\<lambda>x. List.member ys x) xs"

definition collidesWith :: "string \<Rightarrow> string list \<Rightarrow> (string \<times> activeSwap) list \<Rightarrow> bool" where
  "collidesWith target ev act =
     list_ex (\<lambda>(i, sw). i \<noteq> target \<and>
       (List.member ev i \<or> List.member (evict sw) target \<or> slicesOverlap ev (evict sw))) act"

definition conflictsWithInFlight :: "string list \<Rightarrow> counter \<Rightarrow> bool" where
  "conflictsWithInFlight ev infl = list_ex (\<lambda>m. infl m > 0) ev"

definition activeTargets :: "(string \<times> activeSwap) list \<Rightarrow> string \<Rightarrow> string list" where
  "activeTargets act excl = filter (\<lambda>i. i \<noteq> excl) (map fst act)"

definition runningSet :: "'w Effects \<Rightarrow> string \<Rightarrow> 'w FIFO \<Rightarrow> string list" where
  "runningSet fx excl s =
     sort (remdups (map fst (RunningModels fx (world s)) @ activeTargets (active s) excl))"

text \<open>
  A send on a one-place channel that never blocks: a full channel is emptied first, so the
  newest position is what the caller reads.
\<close>

definition trySend :: "int option \<Rightarrow> int \<Rightarrow> int option \<times> bool" where
  "trySend ch pos = (case ch of None \<Rightarrow> (Some pos, True) | Some x \<Rightarrow> (Some x, False))"

definition sendLatest :: "int option \<Rightarrow> int \<Rightarrow> int option" where
  "sendLatest ch pos =
     (let (ch1, sent) = trySend ch pos
      in if sent then ch1 else (let drained = None in fst (trySend drained pos)))"

fun broadcastFrom :: "nat \<Rightarrow> HandlerReq list \<Rightarrow> (nat \<Rightarrow> int option) \<Rightarrow> (nat \<Rightarrow> int option)" where
  "broadcastFrom i [] ch = ch"
| "broadcastFrom i (req # rest) ch =
     broadcastFrom (Suc i) rest
       (ch(positionCh req := sendLatest (ch (positionCh req)) (int i + 1)))"

definition broadcastQueuePositions :: "'w FIFO \<Rightarrow> 'w FIFO" where
  "broadcastQueuePositions s = s\<lparr>positions := broadcastFrom 0 (queued s) (positions s)\<rparr>"

text \<open>Time arithmetic: the zero time precedes every other, and a difference to it saturates.\<close>

definition before :: "int option \<Rightarrow> int option \<Rightarrow> bool" where
  "before a b = (case (a, b) of
       (None, None) \<Rightarrow> False | (None, Some _) \<Rightarrow> True
     | (Some _, None) \<Rightarrow> False | (Some x, Some y) \<Rightarrow> x < y)"

definition since :: "int \<Rightarrow> int option \<Rightarrow> int" where
  "since t q = (case q of None \<Rightarrow> 2 ^ 63 - 1 | Some x \<Rightarrow> t - x)"

definition onWorld :: "('w \<Rightarrow> 'w) \<Rightarrow> 'w FIFO \<Rightarrow> 'w FIFO" where
  "onWorld f s = s\<lparr>world := f (world s)\<rparr>"

definition queueDone :: "'w Effects \<Rightarrow> HandlerReq \<Rightarrow> 'w FIFO \<Rightarrow> 'w FIFO" where
  "queueDone fx req s =
     (let s1 = onWorld (QueueDelta fx (Model req) (-1)) s
      in case queuedAt req of
           None \<Rightarrow> s1
         | Some _ \<Rightarrow> onWorld (QueueWait fx (Model req) (since (Now fx (world s1)) (queuedAt req))) s1)"

section \<open>Admission, reservation and granting\<close>

definition release :: "string \<Rightarrow> 'w FIFO \<Rightarrow> 'w FIFO option" where
  "release m s = (if reserved s m \<le> 0 then None else Some (s\<lparr>reserved := bump m (-1) (reserved s)\<rparr>))"

definition sendAdmission :: "'w Effects \<Rightarrow> HandlerReq \<Rightarrow> error option \<Rightarrow> 'w FIFO \<Rightarrow> bool \<times> 'w FIFO" where
  "sendAdmission fx req err s =
     (if \<not> hasAdmit req then (True, s)
      else let (ok, w) = SendAdmit fx req err (world s) in (ok, s\<lparr>world := w\<rparr>))"

definition rejectAdmission :: "'w Effects \<Rightarrow> HandlerReq \<Rightarrow> error \<Rightarrow> 'w FIFO \<Rightarrow> 'w FIFO" where
  "rejectAdmission fx req err s = snd (sendAdmission fx req (Some err) s)"

definition admit :: "'w Effects \<Rightarrow> HandlerReq \<Rightarrow> 'w FIFO \<Rightarrow> bool \<times> 'w FIFO" where
  "admit fx req s =
     (if reserved s (Model req) \<ge> limit s (Model req)
      then (False, rejectAdmission fx req ConcurrencyLimitError s)
      else let (sent, s1) = sendAdmission fx req None s
           in if \<not> sent then (False, s1)
              else (True, s1\<lparr>reserved := bump (Model req) 1 (reserved s1)\<rparr>))"

definition grantHandler :: "'w Effects \<Rightarrow> HandlerReq \<Rightarrow> string \<Rightarrow> 'w FIFO \<Rightarrow> 'w FIFO option" where
  "grantHandler fx req m s =
     (let s1 = onWorld (SetReqData fx req ''fifo_priority'' (Itoa (priority s (Model req)))) s;
          (ok, w) = GrantServe fx req m (world s1);
          s2 = s1\<lparr>world := w\<rparr>
      in if ok then Some (s2\<lparr>inFlight := bump m 1 (inFlight s2)\<rparr>) else release m s2)"

definition grantError :: "'w Effects \<Rightarrow> HandlerReq \<Rightarrow> error \<Rightarrow> 'w FIFO \<Rightarrow> 'w FIFO option" where
  "grantError fx req err s =
     Option.bind (release (Model req) s) (\<lambda>s1. Some (onWorld (GrantError fx req err) s1))"

definition startSwap :: "'w Effects \<Rightarrow> HandlerReq \<Rightarrow> string list \<Rightarrow> string list \<Rightarrow> 'w FIFO \<Rightarrow> 'w FIFO" where
  "startSwap fx req ev running s =
     (let m = Model req;
          s1 = s\<lparr>active := AList.update m \<lparr>modelID = m, evict = ev, waiters = [req]\<rparr> (active s)\<rparr>;
          s2 = onWorld (OnSwapStart fx m running) s1;
          pool = poolFor s2 m;
          s3 = (if pool \<noteq> [] then s2\<lparr>residentBursts := (residentBursts s2)(pool := 0)\<rparr> else s2)
      in onWorld (StartSwap fx m ev) s3)"

definition enqueue :: "'w Effects \<Rightarrow> HandlerReq \<Rightarrow> 'w FIFO \<Rightarrow> 'w FIFO" where
  "enqueue fx req0 s =
     (let req = (case queuedAt req0 of
                   None \<Rightarrow> req0\<lparr>queuedAt := Some (Now fx (world s))\<rparr> | Some _ \<Rightarrow> req0);
          p = priority s (Model req);
          ahead = takeWhile (\<lambda>q. \<not> priority s (Model q) < p) (queued s);
          behind = dropWhile (\<lambda>q. \<not> priority s (Model q) < p) (queued s);
          s1 = s\<lparr>queued := ahead @ [req] @ behind\<rparr>;
          s2 = onWorld (QueueDelta fx (Model req) 1) s1
      in broadcastQueuePositions s2)"

section \<open>Lifecycle pools: resident-first scheduling with bounded fairness\<close>

definition isCold :: "'w Effects \<Rightarrow> 'w FIFO \<Rightarrow> string \<Rightarrow> bool" where
  "isCold fx s m =
     (case ModelState fx (world s) m of
        None \<Rightarrow> True
      | Some st \<Rightarrow> if st \<noteq> StateReady then True
                  else EvictionFor fx (world s) m (runningSet fx m s) \<noteq> [])"

fun oldestColdFrom ::
  "'w Effects \<Rightarrow> 'w FIFO \<Rightarrow> string \<Rightarrow> HandlerReq list \<Rightarrow> HandlerReq option \<Rightarrow> HandlerReq option" where
  "oldestColdFrom fx s pool [] oldest = oldest"
| "oldestColdFrom fx s pool (req # rest) oldest =
     (if poolFor s (Model req) \<noteq> pool \<or> \<not> isCold fx s (Model req)
      then oldestColdFrom fx s pool rest oldest
      else oldestColdFrom fx s pool rest
             (case oldest of
                None \<Rightarrow> Some req
              | Some o' \<Rightarrow> if before (queuedAt req) (queuedAt o') then Some req else Some o'))"

definition oldestCold :: "'w Effects \<Rightarrow> 'w FIFO \<Rightarrow> string \<Rightarrow> HandlerReq option" where
  "oldestCold fx s pool = oldestColdFrom fx s pool (queued s) None"

definition promotionDue :: "'w Effects \<Rightarrow> 'w FIFO \<Rightarrow> string \<Rightarrow> LifecyclePoolConfig \<Rightarrow> HandlerReq \<Rightarrow> bool" where
  "promotionDue fx s pool policy oldest \<longleftrightarrow>
     (MaxResidentBurst policy > 0 \<and> residentBursts s pool \<ge> MaxResidentBurst policy) \<or>
     (MaxResidentWait policy > 0 \<and> since (Now fx (world s)) (queuedAt oldest) \<ge> MaxResidentWait policy)"

definition shouldYieldToCold :: "'w Effects \<Rightarrow> 'w FIFO \<Rightarrow> string \<Rightarrow> bool" where
  "shouldYieldToCold fx s m =
     (let pool = poolFor s m in
      case map_of (pools s) pool of
        None \<Rightarrow> False
      | Some policy \<Rightarrow>
          if \<not> ResidentFirst policy then False
          else case oldestCold fx s pool of
                 None \<Rightarrow> False
               | Some oldest \<Rightarrow> promotionDue fx s pool policy oldest)"

definition recordResidentAdmission :: "'w Effects \<Rightarrow> string \<Rightarrow> 'w FIFO \<Rightarrow> 'w FIFO" where
  "recordResidentAdmission fx m s =
     (let pool = poolFor s m in
      if pool = [] then s
      else case oldestCold fx s pool of
             None \<Rightarrow> s
           | Some _ \<Rightarrow> onWorld (ResidentAdmission fx m)
                         (s\<lparr>residentBursts := bump pool 1 (residentBursts s)\<rparr>))"

definition placeAt :: "nat list \<Rightarrow> HandlerReq list \<Rightarrow> HandlerReq list \<Rightarrow> HandlerReq list" where
  "placeAt indexes ordered out = fold (\<lambda>(i, r) xs. xs[i := r]) (zip indexes ordered) out"

definition fairPool ::
  "'w Effects \<Rightarrow> string \<Rightarrow> HandlerReq list \<times> 'w FIFO \<Rightarrow> HandlerReq list \<times> 'w FIFO" where
  "fairPool fx pool acc =
     (let (out, s) = acc; policy = the (map_of (pools s) pool) in
      if \<not> ResidentFirst policy then (out, s)
      else case oldestCold fx s pool of
             None \<Rightarrow> (out, s)
           | Some oldest \<Rightarrow>
               let promote = promotionDue fx s pool policy oldest;
                   indexes = filter (\<lambda>i. poolFor s (Model (out ! i)) = pool) [0..<length out];
                   mine = filter (\<lambda>r. poolFor s (Model r) = pool) out;
                   cold = filter (\<lambda>r. isCold fx s (Model r)) mine;
                   resident = filter (\<lambda>r. \<not> isCold fx s (Model r)) mine;
                   s1 = (if promote \<and> cold \<noteq> []
                         then onWorld (FairnessPromotion fx (Model (hd cold))) s else s);
                   ordered = (if promote \<and> cold \<noteq> []
                              then ([hd cold] @ resident) @ tl cold
                              else resident @ cold)
               in (placeAt indexes ordered out, s1))"

definition fairOrder :: "'w Effects \<Rightarrow> HandlerReq list \<Rightarrow> 'w FIFO \<Rightarrow> HandlerReq list \<times> 'w FIFO" where
  "fairOrder fx pending s =
     (if length pending < 2 then (pending, s)
      else fold (fairPool fx) (sort (map fst (pools s))) (pending, s))"

section \<open>Draining the queue\<close>

definition joinSwap :: "string \<Rightarrow> HandlerReq \<Rightarrow> 'w FIFO \<Rightarrow> 'w FIFO" where
  "joinSwap m req s =
     s\<lparr>active := map (\<lambda>(k, sw). (k, if k = m then sw\<lparr>waiters := waiters sw @ [req]\<rparr> else sw)) (active s)\<rparr>"

fun drainLoop ::
  "'w Effects \<Rightarrow> HandlerReq list \<Rightarrow> HandlerReq list \<Rightarrow> 'w FIFO \<Rightarrow> (HandlerReq list \<times> 'w FIFO) option" where
  "drainLoop fx [] remaining s = Some (remaining, s)"
| "drainLoop fx (req # pending) remaining s =
     (case ModelState fx (world s) (Model req) of
        None \<Rightarrow>
          Option.bind (grantError fx req ErrNoLocalModelFound (queueDone fx req s))
            (drainLoop fx pending remaining)
      | Some st \<Rightarrow>
          (case map_of (active s) (Model req) of
             Some sw \<Rightarrow>
               drainLoop fx pending remaining (joinSwap (Model req) req (queueDone fx req s))
           | None \<Rightarrow>
               (let running = runningSet fx (Model req) s;
                    ev = EvictionFor fx (world s) (Model req) running in
                if st = StateReady \<and> ev = [] \<and> \<not> collidesWith (Model req) ev (active s)
                then Option.bind
                       (grantHandler fx req (Model req)
                          (recordResidentAdmission fx (Model req) (queueDone fx req s)))
                       (drainLoop fx pending remaining)
                else if collidesWith (Model req) ev (active s)
                then drainLoop fx pending (remaining @ [req]) s
                else if conflictsWithInFlight ev (inFlight s)
                then drainLoop fx pending (remaining @ [req]) s
                else drainLoop fx pending remaining
                       (startSwap fx req ev running (queueDone fx req s)))))"

definition drainQueue :: "'w Effects \<Rightarrow> 'w FIFO \<Rightarrow> 'w FIFO option" where
  "drainQueue fx s =
     (if queued s = [] then Some s
      else let (pending, s1) = fairOrder fx (queued s) s
           in Option.bind (drainLoop fx pending [] s1)
                (\<lambda>(remaining, s2). Some (broadcastQueuePositions (s2\<lparr>queued := remaining\<rparr>))))"

section \<open>The event handlers\<close>

definition OnRequest :: "'w Effects \<Rightarrow> HandlerReq \<Rightarrow> 'w FIFO \<Rightarrow> 'w FIFO option" where
  "OnRequest fx req s =
     (case ModelState fx (world s) (Model req) of
        None \<Rightarrow> Some (rejectAdmission fx req ErrNoLocalModelFound s)
      | Some st \<Rightarrow>
          (let (admitted, s1) = admit fx req s in
           if \<not> admitted then Some s1
           else case map_of (active s1) (Model req) of
             Some sw \<Rightarrow> Some (joinSwap (Model req) req s1)
           | None \<Rightarrow>
               (let running = runningSet fx (Model req) s1;
                    ev = EvictionFor fx (world s1) (Model req) running in
                if st = StateReady \<and> ev = [] \<and> \<not> collidesWith (Model req) ev (active s1)
                then if shouldYieldToCold fx s1 (Model req) then Some (enqueue fx req s1)
                     else grantHandler fx req (Model req) (recordResidentAdmission fx (Model req) s1)
                else if collidesWith (Model req) ev (active s1) then Some (enqueue fx req s1)
                else if conflictsWithInFlight ev (inFlight s1) then Some (enqueue fx req s1)
                else Some (startSwap fx req ev running s1))))"

fun pruneQueue ::
  "'w Effects \<Rightarrow> nat \<Rightarrow> HandlerReq list \<Rightarrow> bool \<Rightarrow> 'w FIFO \<Rightarrow> (HandlerReq list \<times> bool \<times> 'w FIFO) option" where
  "pruneQueue fx r [] removed s = Some ([], removed, s)"
| "pruneQueue fx r (q # qs) removed s =
     (if Respond q = r
      then Option.bind (release (Model q) (queueDone fx q s)) (pruneQueue fx r qs True)
      else Option.bind (pruneQueue fx r qs removed s) (\<lambda>(kept, rm, s'). Some (q # kept, rm, s')))"

fun pruneWaiters ::
  "nat \<Rightarrow> HandlerReq list \<Rightarrow> bool \<Rightarrow> 'w FIFO \<Rightarrow> (HandlerReq list \<times> bool \<times> 'w FIFO) option" where
  "pruneWaiters r [] removed s = Some ([], removed, s)"
| "pruneWaiters r (w # ws) removed s =
     (if Respond w = r
      then Option.bind (release (Model w) s) (pruneWaiters r ws True)
      else Option.bind (pruneWaiters r ws removed s) (\<lambda>(kept, rm, s'). Some (w # kept, rm, s')))"

fun pruneSwaps ::
  "nat \<Rightarrow> (string \<times> activeSwap) list \<Rightarrow> bool \<Rightarrow> 'w FIFO
    \<Rightarrow> ((string \<times> activeSwap) list \<times> bool \<times> 'w FIFO) option" where
  "pruneSwaps r [] removed s = Some ([], removed, s)"
| "pruneSwaps r ((k, sw) # rest) removed s =
     Option.bind (pruneWaiters r (waiters sw) removed s) (\<lambda>(ws, rm, s1).
       Option.bind (pruneSwaps r rest rm s1) (\<lambda>(act, rm', s2).
         Some ((k, sw\<lparr>waiters := ws\<rparr>) # act, rm', s2)))"

definition OnCancel :: "'w Effects \<Rightarrow> HandlerReq \<Rightarrow> 'w FIFO \<Rightarrow> 'w FIFO option" where
  "OnCancel fx req s =
     Option.bind (pruneQueue fx (Respond req) (queued s) False s) (\<lambda>(kept, rm, s1).
       Option.bind (pruneSwaps (Respond req) (active s1) rm (s1\<lparr>queued := kept\<rparr>)) (\<lambda>(act, rm', s2).
         let s3 = s2\<lparr>active := act\<rparr>
         in Some (if rm' then broadcastQueuePositions s3 else s3)))"

definition answerWaiter :: "'w Effects \<Rightarrow> string \<Rightarrow> error option \<Rightarrow> HandlerReq \<Rightarrow> 'w FIFO \<Rightarrow> 'w FIFO option" where
  "answerWaiter fx m err w s =
     (case err of Some e \<Rightarrow> grantError fx w e s | None \<Rightarrow> grantHandler fx w m s)"

definition OnSwapDone :: "'w Effects \<Rightarrow> string \<Rightarrow> error option \<Rightarrow> 'w FIFO \<Rightarrow> 'w FIFO option" where
  "OnSwapDone fx m err s =
     (case map_of (active s) m of
        None \<Rightarrow> Some s
      | Some sw \<Rightarrow>
          Option.bind
            (fold_opt (answerWaiter fx m err) (waiters sw) (s\<lparr>active := AList.delete m (active s)\<rparr>))
            (drainQueue fx))"

definition OnServeDone :: "'w Effects \<Rightarrow> string \<Rightarrow> 'w FIFO \<Rightarrow> 'w FIFO option" where
  "OnServeDone fx m s =
     Option.bind (release m (s\<lparr>inFlight := bump m (-1) (inFlight s)\<rparr>)) (\<lambda>s1.
       if inFlight s1 m \<le> 0
       then drainQueue fx (s1\<lparr>inFlight := (inFlight s1)(m := 0)\<rparr>)
       else Some s1)"

definition unloadSwap :: "'w Effects \<Rightarrow> error \<Rightarrow> string \<Rightarrow> 'w FIFO \<Rightarrow> 'w FIFO option" where
  "unloadSwap fx err i s =
     (case map_of (active s) i of
        None \<Rightarrow> Some s
      | Some sw \<Rightarrow>
          Option.bind (fold_opt (\<lambda>w. grantError fx w err) (waiters sw) s)
            (\<lambda>s1. Some (s1\<lparr>active := AList.delete i (active s1)\<rparr>)))"

fun dropQueued ::
  "'w Effects \<Rightarrow> error \<Rightarrow> string list \<Rightarrow> HandlerReq list \<Rightarrow> 'w FIFO \<Rightarrow> (HandlerReq list \<times> 'w FIFO) option" where
  "dropQueued fx err targets [] s = Some ([], s)"
| "dropQueued fx err targets (w # ws) s =
     (if List.member targets (Model w)
      then Option.bind (grantError fx w err (queueDone fx w s)) (dropQueued fx err targets ws)
      else Option.bind (dropQueued fx err targets ws s) (\<lambda>(kept, s'). Some (w # kept, s')))"

definition OnUnload :: "'w Effects \<Rightarrow> string list \<Rightarrow> int \<Rightarrow> 'w FIFO \<Rightarrow> 'w FIFO option" where
  "OnUnload fx targets timeout s =
     (let err = ErrText (name s @ '': model unloaded'') in
      Option.bind (fold_opt (unloadSwap fx err) (remdups targets) s) (\<lambda>s1.
        Option.bind (dropQueued fx err targets (queued s1) s1) (\<lambda>(kept, s2).
          drainQueue fx (onWorld (StopProcesses fx timeout targets) (s2\<lparr>queued := kept\<rparr>)))))"

definition OnShutdown :: "'w Effects \<Rightarrow> error \<Rightarrow> 'w FIFO \<Rightarrow> 'w FIFO option" where
  "OnShutdown fx err s =
     Option.bind (fold_opt (\<lambda>(k, sw). fold_opt (\<lambda>w. grantError fx w err) (waiters sw)) (active s) s)
       (\<lambda>s1. fold_opt (\<lambda>w s. grantError fx w err (queueDone fx w s)) (queued s1) s1)"

end
