(* ===== verification/Scheduler_Inv.thy ===== *)
theory Scheduler_Inv
  imports Scheduler
begin

text \<open>
  What the scheduler keeps true between events: every reservation is accounted for by a
  request being served, queued or waiting on a swap; concurrency limits hold; active swaps do
  not interfere; nothing being served is being evicted; and a queued request always has an
  active swap or a busy model whose completion retries the queue.
\<close>

section \<open>The part of the state the invariants speak about\<close>

definition core where
  "core s = (name s, priority s, limits s, active s, reserved s, inFlight s, queued s, models s, pools s)"

lemma core_onWorld [simp]: "core (onWorld f s) = core s"
  by (simp add: core_def onWorld_def)

lemma core_world [simp]: "core (s\<lparr>world := w\<rparr>) = core s"
  by (simp add: core_def)

lemma core_bursts [simp]: "core (s\<lparr>residentBursts := b\<rparr>) = core s"
  by (simp add: core_def)

lemma core_broadcast [simp]: "core (broadcastQueuePositions s) = core s"
  by (simp add: core_def broadcastQueuePositions_def)

lemma core_queueDone [simp]: "core (queueDone fx r s) = core s"
  by (simp add: queueDone_def Let_def split: option.split)

lemma core_recordResidentAdmission [simp]: "core (recordResidentAdmission fx m s) = core s"
  by (simp add: recordResidentAdmission_def Let_def split: option.split)

lemma core_sendAdmission [simp]: "core (snd (sendAdmission fx r e s)) = core s"
  by (simp add: sendAdmission_def split: prod.split)

lemma core_rejectAdmission [simp]: "core (rejectAdmission fx r e s) = core s"
  by (simp add: rejectAdmission_def)

lemma core_fairPool: "core (snd (fairPool fx p (out, s))) = core s"
  by (simp add: fairPool_def Let_def split: option.split)

lemma core_fairOrder [simp]: "core (snd (fairOrder fx pending s)) = core s"
proof -
  have "core (snd (fold (fairPool fx) ps (out, s))) = core s" for ps out
  proof (induction ps arbitrary: out s)
    case (Cons p ps)
    then show ?case using core_fairPool [of fx p out s] by (cases "fairPool fx p (out, s)") auto
  qed simp
  then show ?thesis by (simp add: fairOrder_def)
qed

lemma core_fields:
  assumes "core s = core s'"
  shows "name s = name s'" "priority s = priority s'" "limits s = limits s'"
    "active s = active s'" "reserved s = reserved s'" "inFlight s = inFlight s'"
    "queued s = queued s'" "models s = models s'" "pools s = pools s'" "limit s = limit s'"
  using assms by (auto simp: core_def limit_def fun_eq_iff)

lemmas core_simps [simp] =
  core_fields [OF core_onWorld] core_fields [OF core_queueDone]
  core_fields [OF core_recordResidentAdmission] core_fields [OF core_broadcast]
  core_fields [OF core_rejectAdmission] core_fields [OF core_sendAdmission]
  core_fields [OF core_fairOrder]

section \<open>Counting requests\<close>

definition cnt :: "string \<Rightarrow> HandlerReq list \<Rightarrow> int" where
  "cnt m rs = int (length (filter (\<lambda>r. Model r = m) rs))"

lemma cnt_simps [simp]:
  "cnt m [] = 0" "cnt m (r # rs) = (if Model r = m then 1 else 0) + cnt m rs"
  "cnt m (rs @ ss) = cnt m rs + cnt m ss"
  by (simp_all add: cnt_def)

lemma cnt_nonneg [simp]: "0 \<le> cnt m rs"
  by (simp add: cnt_def)

lemma cnt_mset: "mset rs = mset ss \<Longrightarrow> cnt m rs = cnt m ss"
  unfolding cnt_def by (metis mset_filter size_mset)

definition allWaiters :: "(string \<times> activeSwap) list \<Rightarrow> HandlerReq list" where
  "allWaiters act = concat (map (waiters \<circ> snd) act)"

lemma allWaiters_simps [simp]:
  "allWaiters [] = []" "allWaiters ((k, sw) # act) = waiters sw @ allWaiters act"
  by (simp_all add: allWaiters_def)

section \<open>The invariant\<close>

definition acct :: "HandlerReq list \<Rightarrow> 'w FIFO \<Rightarrow> bool" where
  "acct pend s \<longleftrightarrow>
     (\<forall>m. reserved s m = inFlight s m + cnt m pend + cnt m (allWaiters (active s)))"

definition swaps_ok :: "(string \<times> activeSwap) list \<Rightarrow> bool" where
  "swaps_ok act \<longleftrightarrow> distinct (map fst act) \<and>
     (\<forall>(k, sw) \<in> set act. modelID sw = k \<and> (\<forall>w \<in> set (waiters sw). Model w = k))"

definition compatible :: "(string \<times> activeSwap) list \<Rightarrow> bool" where
  "compatible act \<longleftrightarrow> (\<forall>(k, sw) \<in> set act. \<forall>(k', sw') \<in> set act.
     k \<noteq> k' \<longrightarrow> k \<notin> set (evict sw') \<and> set (evict sw) \<inter> set (evict sw') = {})"

definition evicts_idle :: "(string \<times> activeSwap) list \<Rightarrow> counter \<Rightarrow> bool" where
  "evicts_idle act infl \<longleftrightarrow> (\<forall>(k, sw) \<in> set act. \<forall>m \<in> set (evict sw). infl m = 0)"

definition sched_inv :: "HandlerReq list \<Rightarrow> 'w FIFO \<Rightarrow> bool" where
  "sched_inv pend s \<longleftrightarrow> acct pend s \<and> (\<forall>m. 0 \<le> inFlight s m) \<and> (\<forall>m. reserved s m \<le> limit s m) \<and>
     swaps_ok (active s) \<and> compatible (active s) \<and> evicts_idle (active s) (inFlight s)"

definition busy :: "'w FIFO \<Rightarrow> bool" where
  "busy s \<longleftrightarrow> active s \<noteq> [] \<or> (\<exists>m. inFlight s m > 0)"

definition fifo_ok :: "'w FIFO \<Rightarrow> bool" where
  "fifo_ok s \<longleftrightarrow> sched_inv (queued s) s \<and> (queued s \<noteq> [] \<longrightarrow> busy s)"

lemma sched_inv_core: "core s = core s' \<Longrightarrow> sched_inv pend s = sched_inv pend s'"
  by (simp add: sched_inv_def acct_def core_fields [of s s'])

lemma compatibleD:
  "compatible act \<Longrightarrow> (k, sw) \<in> set act \<Longrightarrow> (k', sw') \<in> set act \<Longrightarrow> k \<noteq> k' \<Longrightarrow>
   k \<notin> set (evict sw') \<and> set (evict sw) \<inter> set (evict sw') = {}"
  unfolding compatible_def by blast

lemma compatible_subset: "compatible act \<Longrightarrow> set act' \<subseteq> set act \<Longrightarrow> compatible act'"
  unfolding compatible_def by blast

lemma evicts_idle_subset: "evicts_idle act c \<Longrightarrow> set act' \<subseteq> set act \<Longrightarrow> evicts_idle act' c"
  unfolding evicts_idle_def by blast

lemmas sched_inv_cores [simp] =
  sched_inv_core [OF core_onWorld] sched_inv_core [OF core_queueDone]
  sched_inv_core [OF core_recordResidentAdmission] sched_inv_core [OF core_broadcast]
  sched_inv_core [OF core_world] sched_inv_core [OF core_bursts]
  sched_inv_core [OF core_fairOrder] sched_inv_core [OF core_sendAdmission]

lemma sched_inv_mset: "mset pend = mset pend' \<Longrightarrow> sched_inv pend s = sched_inv pend' s"
  using cnt_mset [of pend pend'] by (simp add: sched_inv_def acct_def)

lemma sched_inv_queued [simp]: "sched_inv pend (s\<lparr>queued := q\<rparr>) = sched_inv pend s"
  by (simp add: sched_inv_def acct_def limit_def)

text \<open>What one step inside a handler may change: it never undoes busy work.\<close>

definition keeps :: "'w FIFO \<Rightarrow> 'w FIFO \<Rightarrow> bool" where
  "keeps s s' \<longleftrightarrow> queued s' = queued s \<and> limits s' = limits s \<and> models s' = models s \<and>
     pools s' = pools s \<and> priority s' = priority s \<and> name s' = name s \<and>
     (active s \<noteq> [] \<longrightarrow> active s' \<noteq> []) \<and> (\<forall>m. inFlight s m \<le> inFlight s' m)"

lemma keeps_refl [simp, intro]: "keeps s s"
  by (simp add: keeps_def)

lemma keeps_trans [trans]: "keeps s t \<Longrightarrow> keeps t u \<Longrightarrow> keeps s u"
  by (force simp: keeps_def intro: order_trans)

lemma keeps_core: "core s = core t \<Longrightarrow> keeps s t"
  by (simp add: keeps_def core_fields [of s t])

lemma keeps_busy: "keeps s s' \<Longrightarrow> busy s \<Longrightarrow> busy s'"
  by (auto simp: keeps_def busy_def intro: order_less_le_trans)

lemma keeps_onWorld [simp]: "keeps s (onWorld f t) = keeps s t" "keeps (onWorld f s) t = keeps s t"
  by (simp_all add: keeps_def onWorld_def)

lemma limit_upd [simp]: "limit (s\<lparr>reserved := x\<rparr>) = limit s" "limit (s\<lparr>inFlight := y\<rparr>) = limit s"
  "limit (s\<lparr>active := z\<rparr>) = limit s"
  by (simp_all add: limit_def fun_eq_iff)

lemma sched_invD:
  assumes "sched_inv pend s"
  shows "reserved s m = inFlight s m + cnt m pend + cnt m (allWaiters (active s))"
    "0 \<le> inFlight s m" "reserved s m \<le> limit s m" "swaps_ok (active s)" "compatible (active s)"
    "evicts_idle (active s) (inFlight s)"
  using assms by (auto simp: sched_inv_def acct_def)

lemma sched_invI:
  assumes "\<And>m. reserved s m = inFlight s m + cnt m pend + cnt m (allWaiters (active s))"
    "\<And>m. 0 \<le> inFlight s m" "\<And>m. reserved s m \<le> limit s m" "swaps_ok (active s)"
    "compatible (active s)" "evicts_idle (active s) (inFlight s)"
  shows "sched_inv pend s"
  using assms by (auto simp: sched_inv_def acct_def)

section \<open>Granting and releasing\<close>

lemma release_ok:
  assumes "sched_inv (r # pend) s" "Model r = m"
  shows "\<exists>s'. release m s = Some s' \<and> sched_inv pend s' \<and> keeps s s' \<and> active s' = active s \<and>
    inFlight s' = inFlight s"
proof -
  have "reserved s m = inFlight s m + (1 + cnt m pend) + cnt m (allWaiters (active s))" "0 \<le> inFlight s m"
    using assms by (auto simp: sched_inv_def acct_def)
  then have "0 < reserved s m" by (smt (verit) cnt_nonneg)
  then have rel: "release m s = Some (s\<lparr>reserved := bump m (-1) (reserved s)\<rparr>)"
    by (simp add: release_def)
  note D = sched_invD [OF assms(1)]
  have "sched_inv pend (s\<lparr>reserved := bump m (-1) (reserved s)\<rparr>)"
  proof (rule sched_invI)
    fix m'
    show "reserved (s\<lparr>reserved := bump m (-1) (reserved s)\<rparr>) m' =
        inFlight (s\<lparr>reserved := bump m (-1) (reserved s)\<rparr>) m' + cnt m' pend +
        cnt m' (allWaiters (active (s\<lparr>reserved := bump m (-1) (reserved s)\<rparr>)))"
      using D(1) [of m'] assms(2) by (simp add: bump_apply)
    show "reserved (s\<lparr>reserved := bump m (-1) (reserved s)\<rparr>) m' \<le>
        limit (s\<lparr>reserved := bump m (-1) (reserved s)\<rparr>) m'"
      using D(3) [of m'] by (cases "m' = m") auto
  qed (use D in simp_all)
  with rel show ?thesis by (auto simp: keeps_def)
qed

lemma grantError_ok:
  assumes "sched_inv (r # pend) s"
  shows "\<exists>s'. grantError fx r e s = Some s' \<and> sched_inv pend s' \<and> keeps s s' \<and> active s' = active s \<and>
    inFlight s' = inFlight s"
proof -
  from release_ok [OF assms refl] obtain t where
    "release (Model r) s = Some t" "sched_inv pend t" "keeps s t" "active t = active s" "inFlight t = inFlight s"
    by blast
  then show ?thesis
    by (auto simp: grantError_def)
qed

lemma grantHandler_ok:
  assumes inv: "sched_inv (r # pend) s" and m: "Model r = m"
    and idle: "\<forall>(k, sw) \<in> set (active s). m \<notin> set (evict sw)"
  shows "\<exists>s'. grantHandler fx r m s = Some s' \<and> sched_inv pend s' \<and> keeps s s' \<and> active s' = active s"
proof -
  define s1 where "s1 = onWorld (SetReqData fx r ''fifo_priority'' (Itoa (priority s (Model r)))) s"
  obtain ok w where g: "GrantServe fx r m (world s1) = (ok, w)" by force
  define s2 where "s2 = s1\<lparr>world := w\<rparr>"
  have c: "core s2 = core s" by (simp add: s2_def s1_def)
  have inv2: "sched_inv (r # pend) s2" using inv sched_inv_core [OF c] by simp
  have eq: "grantHandler fx r m s = (if ok then Some (s2\<lparr>inFlight := bump m 1 (inFlight s2)\<rparr>) else release m s2)"
    by (simp add: grantHandler_def Let_def g s2_def flip: s1_def)
  show ?thesis
  proof (cases ok)
    case True
    note D = sched_invD [OF inv2]
    have "sched_inv pend (s2\<lparr>inFlight := bump m 1 (inFlight s2)\<rparr>)"
    proof (rule sched_invI)
      fix m'
      show "reserved (s2\<lparr>inFlight := bump m 1 (inFlight s2)\<rparr>) m' =
          inFlight (s2\<lparr>inFlight := bump m 1 (inFlight s2)\<rparr>) m' + cnt m' pend +
          cnt m' (allWaiters (active (s2\<lparr>inFlight := bump m 1 (inFlight s2)\<rparr>)))"
        using D(1) [of m'] m by (simp add: bump_apply)
      show "0 \<le> inFlight (s2\<lparr>inFlight := bump m 1 (inFlight s2)\<rparr>) m'"
        using D(2) [of m'] by (simp add: bump_apply)
      have "m \<notin> set (evict sw)" if "(k, sw) \<in> set (active s2)" for k sw
        using that idle core_fields [OF c] by auto
      then show "evicts_idle (active (s2\<lparr>inFlight := bump m 1 (inFlight s2)\<rparr>))
          (inFlight (s2\<lparr>inFlight := bump m 1 (inFlight s2)\<rparr>))"
        using D(6) by (fastforce simp: evicts_idle_def bump_apply)
    qed (use D in simp_all)
    moreover have "keeps s (s2\<lparr>inFlight := bump m 1 (inFlight s2)\<rparr>)"
      using core_fields [OF c] by (simp add: keeps_def bump_apply)
    ultimately show ?thesis using True eq core_fields [OF c] by simp
  next
    case False
    from release_ok [OF inv2 m] obtain t where "release m s2 = Some t" "sched_inv pend t" "keeps s2 t"
      "active t = active s2" by blast
    then show ?thesis using False eq core_fields [OF c] keeps_trans [OF keeps_core [OF c [symmetric]]] by auto
  qed
qed

section \<open>Joining and starting a swap\<close>

lemma cnt_joined:
  "distinct (map fst act) \<Longrightarrow> map_of act m = Some sw \<Longrightarrow>
   cnt m' (allWaiters (map (\<lambda>(k, sw). (k, if k = m then sw\<lparr>waiters := waiters sw @ [r]\<rparr> else sw)) act)) =
   (if Model r = m' then 1 else 0) + cnt m' (allWaiters act)"
proof (induction act)
  case (Cons e act)
  obtain k v where e: "e = (k, v)" by force
  show ?case
  proof (cases "k = m")
    case True
    with Cons.prems e have "m \<notin> fst ` set act" by auto
    then have "map (\<lambda>(k, sw). (k, if k = m then sw\<lparr>waiters := waiters sw @ [r]\<rparr> else sw)) act = act"
      by (intro map_idI) force
    then show ?thesis using True e by simp
  next
    case False
    with Cons e show ?thesis by simp
  qed
qed simp

lemma joinSwap_fields [simp]:
  "queued (joinSwap m r s) = queued s" "inFlight (joinSwap m r s) = inFlight s"
  "limits (joinSwap m r s) = limits s" "limit (joinSwap m r s) = limit s"
  "reserved (joinSwap m r s) = reserved s" "map fst (active (joinSwap m r s)) = map fst (active s)"
  "active (joinSwap m r s) = [] \<longleftrightarrow> active s = []"
  by (auto simp: joinSwap_def limit_def fun_eq_iff)

lemma joinSwap_keeps [simp]: "keeps s (joinSwap m r s)"
  by (simp add: keeps_def) (simp add: joinSwap_def)

lemma in_joinSwap:
  "(k, sw) \<in> set (active (joinSwap m r s)) \<Longrightarrow>
   \<exists>sw0. (k, sw0) \<in> set (active s) \<and> evict sw = evict sw0 \<and> modelID sw = modelID sw0 \<and>
     (set (waiters sw) = set (waiters sw0) \<or> (k = m \<and> set (waiters sw) = insert r (set (waiters sw0))))"
  by (force simp: joinSwap_def split: if_splits)

lemma joinSwap_ok:
  assumes inv: "sched_inv (r # pend) s" and sw: "map_of (active s) (Model r) = Some sw"
  shows "sched_inv pend (joinSwap (Model r) r s)"
proof (rule sched_invI)
  note D = sched_invD [OF inv]
  let ?t = "joinSwap (Model r) r s"
  fix m
  show "reserved ?t m = inFlight ?t m + cnt m pend + cnt m (allWaiters (active ?t))"
    using D(1) [of m] cnt_joined [of "active s" "Model r" sw m r] sw D(4)
    by (cases "Model r = m") (auto simp: swaps_ok_def joinSwap_def)
  show "0 \<le> inFlight ?t m" "reserved ?t m \<le> limit ?t m" using D by simp_all
  show "swaps_ok (active ?t)" using D(4) in_joinSwap [of _ _ "Model r" r s]
    by (fastforce simp: swaps_ok_def)
  show "compatible (active ?t)"
    unfolding compatible_def
  proof (clarify, rule conjI)
    fix k sw1 k' sw2
    assume a: "(k, sw1) \<in> set (active ?t)" "(k', sw2) \<in> set (active ?t)" "k \<noteq> k'"
    from in_joinSwap [OF a(1)] in_joinSwap [OF a(2)] obtain u1 u2 where
      "(k, u1) \<in> set (active s)" "(k', u2) \<in> set (active s)" "evict sw1 = evict u1" "evict sw2 = evict u2"
      by blast
    then show "k \<notin> set (evict sw2)" "set (evict sw1) \<inter> set (evict sw2) = {}"
      using compatibleD [OF D(5)] a(3) by metis+
  qed
  show "evicts_idle (active ?t) (inFlight ?t)"
    using D(6) in_joinSwap [of _ _ "Model r" r s] by (fastforce simp: evicts_idle_def)
qed

lemma update_fresh: "map_of al k = None \<Longrightarrow> AList.update k v al = al @ [(k, v)]"
  by (induction al) auto

lemma not_collides:
  assumes "\<not> collidesWith t ev act" "(i, sw) \<in> set act" "i \<noteq> t"
  shows "i \<notin> set ev" "t \<notin> set (evict sw)" "set ev \<inter> set (evict sw) = {}"
  using assms by (fastforce simp: collidesWith_def list_ex_iff slicesOverlap_def)+

lemma startSwap_fields [simp]:
  "queued (startSwap fx r ev run s) = queued s" "inFlight (startSwap fx r ev run s) = inFlight s"
  "limits (startSwap fx r ev run s) = limits s" "reserved (startSwap fx r ev run s) = reserved s"
  "limit (startSwap fx r ev run s) = limit s"
  by (simp_all add: startSwap_def Let_def onWorld_def limit_def fun_eq_iff)

lemma active_startSwap:
  "map_of (active s) (Model r) = None \<Longrightarrow>
   active (startSwap fx r ev run s) =
     active s @ [(Model r, \<lparr>modelID = Model r, evict = ev, waiters = [r]\<rparr>)]"
  by (simp add: startSwap_def Let_def onWorld_def update_fresh)

lemma startSwap_keeps:
  "map_of (active s) (Model r) = None \<Longrightarrow> keeps s (startSwap fx r ev run s)"
  by (simp add: keeps_def active_startSwap) (simp add: startSwap_def Let_def onWorld_def)

lemma startSwap_ok:
  assumes inv: "sched_inv (r # pend) s" and fresh: "map_of (active s) (Model r) = None"
    and coll: "\<not> collidesWith (Model r) ev (active s)"
    and conf: "\<not> conflictsWithInFlight ev (inFlight s)"
  shows "sched_inv pend (startSwap fx r ev run s)"
proof (rule sched_invI)
  note D = sched_invD [OF inv]
  let ?t = "startSwap fx r ev run s" and ?sw = "\<lparr>modelID = Model r, evict = ev, waiters = [r]\<rparr>"
  have act: "active ?t = active s @ [(Model r, ?sw)]" using fresh by (rule active_startSwap)
  have new: "Model r \<notin> fst ` set (active s)" using fresh by (simp add: map_of_eq_None_iff)
  then have ne: "(i, sw) \<in> set (active s) \<Longrightarrow> i \<noteq> Model r" for i sw by force
  fix m
  show "reserved ?t m = inFlight ?t m + cnt m pend + cnt m (allWaiters (active ?t))"
    using D(1) [of m] by (simp add: act) (simp add: allWaiters_def)
  show "0 \<le> inFlight ?t m" "reserved ?t m \<le> limit ?t m" using D by simp_all
  show "swaps_ok (active ?t)" using D(4) new by (auto simp: swaps_ok_def act)
  show "compatible (active ?t)"
    unfolding compatible_def act
  proof (clarify, rule conjI)
    fix k sw1 k' sw2
    assume a: "(k, sw1) \<in> set (active s @ [(Model r, ?sw)])"
      "(k', sw2) \<in> set (active s @ [(Model r, ?sw)])" "k \<noteq> k'"
    then consider (old) "(k, sw1) \<in> set (active s)" "(k', sw2) \<in> set (active s)"
      | (left) "k = Model r" "sw1 = ?sw" "(k', sw2) \<in> set (active s)"
      | (right) "(k, sw1) \<in> set (active s)" "k' = Model r" "sw2 = ?sw" by auto
    then have "k \<notin> set (evict sw2) \<and> set (evict sw1) \<inter> set (evict sw2) = {}"
    proof cases
      case old
      with compatibleD [OF D(5)] a(3) show ?thesis by blast
    next
      case left
      with not_collides [OF coll left(3) ne [OF left(3)]] show ?thesis by simp
    next
      case right
      with not_collides [OF coll right(1) ne [OF right(1)]] show ?thesis by auto
    qed
    then show "k \<notin> set (evict sw2)" "set (evict sw1) \<inter> set (evict sw2) = {}" by auto
  qed
  have "inFlight s m' = 0" if "m' \<in> set ev" for m'
    using conf D(2) [of m'] that by (force simp: conflictsWithInFlight_def list_ex_iff)
  then show "evicts_idle (active ?t) (inFlight ?t)"
    using D(6) by (auto simp: evicts_idle_def act)
qed

section \<open>Queueing\<close>

lemma core_enqueue_fields [simp]:
  "active (enqueue fx r s) = active s" "inFlight (enqueue fx r s) = inFlight s"
  "reserved (enqueue fx r s) = reserved s" "limits (enqueue fx r s) = limits s"
  "limit (enqueue fx r s) = limit s"
  by (simp_all add: enqueue_def Let_def broadcastQueuePositions_def onWorld_def limit_def fun_eq_iff)

definition stamped :: "'w Effects \<Rightarrow> 'w FIFO \<Rightarrow> HandlerReq \<Rightarrow> HandlerReq" where
  "stamped fx s r = (case queuedAt r of
     None \<Rightarrow> r\<lparr>queuedAt := Some (Now fx (world s))\<rparr> | Some _ \<Rightarrow> r)"

lemma stamped_fields [simp]: "Model (stamped fx s r) = Model r" "Respond (stamped fx s r) = Respond r"
  by (simp_all add: stamped_def split: option.split)

lemma queued_enqueue:
  "queued (enqueue fx r s) =
     takeWhile (\<lambda>q. \<not> priority s (Model q) < priority s (Model r)) (queued s) @ [stamped fx s r] @
     dropWhile (\<lambda>q. \<not> priority s (Model q) < priority s (Model r)) (queued s)"
  by (simp add: enqueue_def Let_def broadcastQueuePositions_def onWorld_def flip: stamped_def)

lemma mset_queued_enqueue: "mset (queued (enqueue fx r s)) = add_mset (stamped fx s r) (mset (queued s))"
proof -
  let ?P = "\<lambda>q. \<not> priority s (Model q) < priority s (Model r)"
  have "mset (takeWhile ?P (queued s)) + mset (dropWhile ?P (queued s)) = mset (queued s)"
    by (simp flip: mset_append)
  then show ?thesis by (simp add: queued_enqueue)
qed

lemma sched_inv_enqueue:
  "sched_inv (queued (enqueue fx r s)) (enqueue fx r s) = sched_inv (r # queued s) s"
proof -
  have "cnt m (queued (enqueue fx r s)) = cnt m (r # queued s)" for m
    using cnt_mset [of "queued (enqueue fx r s)" "stamped fx s r # queued s" m]
    by (simp add: mset_queued_enqueue)
  then show ?thesis by (simp add: sched_inv_def acct_def)
qed

end
