(* ===== verification/Scheduler_Fair.thy ===== *)
theory Scheduler_Fair
  imports Scheduler_Inv
begin

text \<open>
  The fair order of a lifecycle pool permutes the queue: each pool's requests are rearranged
  among the positions they held, resident work first, at most one cold request promoted.
\<close>

section \<open>Writing a rearrangement back into its positions\<close>

fun refill :: "('a \<Rightarrow> bool) \<Rightarrow> 'a list \<Rightarrow> 'a list \<Rightarrow> 'a list" where
  "refill P [] os = []"
| "refill P (x # xs) os = (if P x then (case os of [] \<Rightarrow> x # refill P xs [] | y # ys \<Rightarrow> y # refill P xs ys)
                           else x # refill P xs os)"

lemma fold_place_Suc:
  "fold (\<lambda>(i, r) xs. xs[i := r]) (zip (map Suc idx) os) (x # xs) =
   x # fold (\<lambda>(i, r) xs. xs[i := r]) (zip idx os) xs"
proof (induction idx arbitrary: os xs)
  case (Cons i idx)
  then show ?case by (cases os) auto
qed simp

lemma indexes_Cons:
  "filter (\<lambda>i. P ((x # xs) ! i)) [0..<Suc n] =
   (if P x then [0] else []) @ map Suc (filter (\<lambda>i. P (xs ! i)) [0..<n])"
  by (simp add: upt_rec [of 0] map_Suc_upt [symmetric] filter_map comp_def del: upt_Suc)

lemma placeAt_refill:
  "length os = length (filter P out) \<Longrightarrow>
   placeAt (filter (\<lambda>i. P (out ! i)) [0..<length out]) os out = refill P out os"
proof (induction out arbitrary: os)
  case Nil
  then show ?case by (simp add: placeAt_def)
next
  case (Cons x xs)
  show ?case
  proof (cases "P x")
    case True
    with Cons.prems obtain y ys where os: "os = y # ys" by (cases os) auto
    with True Cons show ?thesis
      by (simp add: placeAt_def indexes_Cons fold_place_Suc del: upt_Suc)
  next
    case False
    with Cons show ?thesis by (simp add: placeAt_def indexes_Cons fold_place_Suc del: upt_Suc)
  qed
qed

lemma length_refill [simp]: "length (refill P xs os) = length xs"
  by (induction xs arbitrary: os) (auto split: list.split)

lemma mset_refill:
  "length os = length (filter P xs) \<Longrightarrow>
   mset (refill P xs os) = mset os + mset (filter (Not \<circ> P) xs)"
proof (induction xs arbitrary: os)
  case (Cons x xs)
  then show ?case by (cases os) auto
qed simp

lemma filter_refill:
  "length os = length (filter P xs) \<Longrightarrow> \<forall>y \<in> set os. P y \<Longrightarrow>
   filter P (refill P xs os) = os \<and> filter (Not \<circ> P) (refill P xs os) = filter (Not \<circ> P) xs"
proof (induction xs arbitrary: os)
  case (Cons x xs)
  show ?case
  proof (cases "P x")
    case True
    with Cons.prems obtain y ys where "os = y # ys" by (cases os) auto
    with True Cons show ?thesis by auto
  next
    case False
    with Cons.prems Cons.IH [of os] show ?thesis by auto
  qed
qed simp

lemma refill_nth:
  assumes "length os = length (filter P xs)" "i < length xs" "\<not> P (xs ! i)"
  shows "refill P xs os ! i = xs ! i"
  using assms
proof (induction xs arbitrary: os i)
  case (Cons x xs)
  then show ?case by (cases i; cases os) (auto split: if_splits)
qed simp

section \<open>One pool\<close>

definition poolReqs :: "'w FIFO \<Rightarrow> string \<Rightarrow> HandlerReq list \<Rightarrow> HandlerReq list" where
  "poolReqs s pool out = filter (\<lambda>r. poolFor s (Model r) = pool) out"

text \<open>The order the pool's own requests get.\<close>

definition poolOrder :: "'w Effects \<Rightarrow> 'w FIFO \<Rightarrow> bool \<Rightarrow> HandlerReq list \<Rightarrow> HandlerReq list" where
  "poolOrder fx s promote mine =
     (let cold = filter (\<lambda>r. isCold fx s (Model r)) mine;
          resident = filter (\<lambda>r. \<not> isCold fx s (Model r)) mine
      in if promote \<and> cold \<noteq> [] then hd cold # resident @ tl cold else resident @ cold)"

lemma mset_poolOrder: "mset (poolOrder fx s promote mine) = mset mine"
proof -
  have split: "mset (filter (\<lambda>r. \<not> isCold fx s (Model r)) mine) + mset (filter (\<lambda>r. isCold fx s (Model r)) mine)
      = mset mine"
    by (metis mset_filter multiset_partition union_commute)
  show ?thesis
  proof (cases "filter (\<lambda>r. isCold fx s (Model r)) mine")
    case Nil
    with split show ?thesis by (simp add: poolOrder_def)
  next
    case (Cons c cs)
    with split show ?thesis by (auto simp: poolOrder_def Let_def)
  qed
qed

lemma length_poolOrder: "length (poolOrder fx s promote mine) = length mine"
  using mset_poolOrder [of fx s promote mine] by (metis size_mset)

lemma fairPool_cases:
  "fst (fairPool fx pool (out, s)) =
     (if \<not> ResidentFirst (the (map_of (pools s) pool)) then out
      else case oldestCold fx s pool of
             None \<Rightarrow> out
           | Some oldest \<Rightarrow>
               refill (\<lambda>r. poolFor s (Model r) = pool) out
                 (poolOrder fx s (promotionDue fx s pool (the (map_of (pools s) pool)) oldest)
                    (poolReqs s pool out)))"
proof (cases "ResidentFirst (the (map_of (pools s) pool)) \<and> oldestCold fx s pool \<noteq> None")
  case True
  then obtain oldest where old: "oldestCold fx s pool = Some oldest" by auto
  let ?P = "\<lambda>r. poolFor s (Model r) = pool"
  let ?ord = "poolOrder fx s (promotionDue fx s pool (the (map_of (pools s) pool)) oldest) (poolReqs s pool out)"
  have "fst (fairPool fx pool (out, s)) = placeAt (filter (\<lambda>i. ?P (out ! i)) [0..<length out]) ?ord out"
    using True old by (simp add: fairPool_def Let_def poolOrder_def poolReqs_def)
  also have "\<dots> = refill ?P out ?ord"
    by (rule placeAt_refill) (simp add: length_poolOrder poolReqs_def)
  finally show ?thesis using True old by simp
next
  case False
  then show ?thesis by (auto simp: fairPool_def Let_def)
qed

lemma mset_fairPool: "mset (fst (fairPool fx pool (out, s))) = mset out"
proof -
  have "mset (refill (\<lambda>r. poolFor s (Model r) = pool) out (poolOrder fx s p (poolReqs s pool out))) = mset out" for p
    by (subst mset_refill)
      (simp_all add: length_poolOrder mset_poolOrder poolReqs_def comp_def flip: multiset_partition)
  then show ?thesis by (simp add: fairPool_cases split: option.split)
qed

lemma mset_fairOrder: "mset (fst (fairOrder fx pending s)) = mset pending"
proof -
  have "mset (fst (fold (fairPool fx) ps (out, s))) = mset out" for ps out
  proof (induction ps arbitrary: out s)
    case (Cons p ps)
    then show ?case using mset_fairPool [of fx p out s] by (cases "fairPool fx p (out, s)") auto
  qed simp
  then show ?thesis by (simp add: fairOrder_def)
qed

end
