(* ===== verification/Scheduler_Handlers.thy ===== *)
theory Scheduler_Handlers
  imports Scheduler_Fair
begin

text \<open>
  Every handler of the scheduler succeeds from a consistent state and leaves a consistent one.
\<close>

section \<open>Draining\<close>

lemma drainLoop_ok:
  "sched_inv (pend @ rem) s \<Longrightarrow> (rem \<noteq> [] \<longrightarrow> busy s) \<Longrightarrow>
   \<exists>rem' s'. drainLoop fx pend rem s = Some (rem', s') \<and> sched_inv rem' s' \<and> keeps s s' \<and>
     (rem' \<noteq> [] \<longrightarrow> busy s')"
proof (induction pend arbitrary: rem s)
  case Nil
  then show ?case by auto
next
  case (Cons r pend)
  have inv: "sched_inv (r # (pend @ rem)) s" using Cons.prems(1) by simp
  have invq: "sched_inv (r # (pend @ rem)) (queueDone fx r s)" using inv by simp
  have continue: "\<exists>rem' s'. drainLoop fx pend rem t = Some (rem', s') \<and> sched_inv rem' s' \<and> keeps s s' \<and>
      (rem' \<noteq> [] \<longrightarrow> busy s')" if "sched_inv (pend @ rem) t" "keeps s t" for t
    using Cons.IH [OF that(1)] Cons.prems(2) keeps_busy [OF that(2)] keeps_trans [OF that(2)] by blast
  have kq: "keeps s t" if "keeps (queueDone fx r s) t" for t
    using that keeps_core [OF core_queueDone [symmetric]] by (rule keeps_trans [rotated])
  have wait: "\<exists>rem' s'. drainLoop fx pend (rem @ [r]) s = Some (rem', s') \<and> sched_inv rem' s' \<and> keeps s s' \<and>
      (rem' \<noteq> [] \<longrightarrow> busy s')" if "busy s"
    using Cons.IH [of "rem @ [r]" s] that Cons.prems(1)
      sched_inv_mset [of "pend @ rem @ [r]" "(r # pend) @ rem" s] by auto
  let ?run = "runningSet fx (Model r) s"
  let ?ev = "EvictionFor fx (world s) (Model r) ?run"
  consider (unknown) "ModelState fx (world s) (Model r) = None"
    | (join) st sw where "ModelState fx (world s) (Model r) = Some st" "map_of (active s) (Model r) = Some sw"
    | (fast) st where "ModelState fx (world s) (Model r) = Some st" "map_of (active s) (Model r) = None"
        "st = StateReady \<and> ?ev = [] \<and> \<not> collidesWith (Model r) ?ev (active s)"
    | (coll) st where "ModelState fx (world s) (Model r) = Some st" "map_of (active s) (Model r) = None"
        "\<not> (st = StateReady \<and> ?ev = [] \<and> \<not> collidesWith (Model r) ?ev (active s))"
        "collidesWith (Model r) ?ev (active s)"
    | (conf) st where "ModelState fx (world s) (Model r) = Some st" "map_of (active s) (Model r) = None"
        "\<not> (st = StateReady \<and> ?ev = [] \<and> \<not> collidesWith (Model r) ?ev (active s))"
        "\<not> collidesWith (Model r) ?ev (active s)" "conflictsWithInFlight ?ev (inFlight s)"
    | (swap) st where "ModelState fx (world s) (Model r) = Some st" "map_of (active s) (Model r) = None"
        "\<not> (st = StateReady \<and> ?ev = [] \<and> \<not> collidesWith (Model r) ?ev (active s))"
        "\<not> collidesWith (Model r) ?ev (active s)" "\<not> conflictsWithInFlight ?ev (inFlight s)"
    by (cases "ModelState fx (world s) (Model r)"; cases "map_of (active s) (Model r)") blast+
  then show ?case
  proof cases
    case unknown
    from grantError_ok [OF invq, of fx ErrNoLocalModelFound] obtain t where
      "grantError fx r ErrNoLocalModelFound (queueDone fx r s) = Some t" "sched_inv (pend @ rem) t"
      "keeps (queueDone fx r s) t" by blast
    with unknown continue kq show ?thesis by simp
  next
    case join
    have "sched_inv (pend @ rem) (joinSwap (Model r) r (queueDone fx r s))"
      by (rule joinSwap_ok [OF invq]) (simp add: join)
    with join continue kq show ?thesis by simp
  next
    case fast
    let ?u = "recordResidentAdmission fx (Model r) (queueDone fx r s)"
    have "\<forall>(k, sw) \<in> set (active ?u). Model r \<notin> set (evict sw)"
    proof clarify
      fix k sw assume a: "(k, sw) \<in> set (active ?u)" "Model r \<in> set (evict sw)"
      with fast(2) have "k \<noteq> Model r" by (auto simp: map_of_eq_None_iff) force
      with a have "collidesWith (Model r) ?ev (active s)"
        by (force simp: collidesWith_def list_ex_iff)
      with fast(3) show False by simp
    qed
    with grantHandler_ok [of r "pend @ rem" ?u "Model r" fx] invq obtain t where
      "grantHandler fx r (Model r) ?u = Some t" "sched_inv (pend @ rem) t" "keeps ?u t" by auto
    moreover have "keeps (queueDone fx r s) t"
      using keeps_core [OF core_recordResidentAdmission [symmetric]] \<open>keeps ?u t\<close> by (rule keeps_trans)
    moreover from fast(3) have e: "?ev = []" by simp
    moreover from fast(3) have "\<not> collidesWith (Model r) [] (active s)" unfolding e by simp
    ultimately show ?thesis using fast(1,2) fast(3) continue kq by simp
  next
    case coll
    then have "busy s" by (auto simp: busy_def collidesWith_def)
    with coll wait show ?thesis by (auto simp: Let_def)
  next
    case conf
    then have "busy s" by (auto simp: busy_def conflictsWithInFlight_def list_ex_iff)
    with conf wait show ?thesis by (auto simp: Let_def)
  next
    case swap
    let ?t = "startSwap fx r ?ev ?run (queueDone fx r s)"
    have "sched_inv (pend @ rem) ?t"
      using startSwap_ok [OF invq, of ?ev fx ?run] swap by simp
    moreover have "keeps (queueDone fx r s) ?t" using swap by (intro startSwap_keeps) simp
    ultimately show ?thesis using swap continue kq by (auto simp: Let_def)
  qed
qed

lemma drainQueue_ok:
  assumes "sched_inv (queued s) s"
  shows "\<exists>s'. drainQueue fx s = Some s' \<and> fifo_ok s'"
proof (cases "queued s = []")
  case True
  with assms show ?thesis by (simp add: drainQueue_def fifo_ok_def)
next
  case False
  obtain pend s1 where fo: "fairOrder fx (queued s) s = (pend, s1)" by force
  then have ms: "mset pend = mset (queued s)" and s1: "core s1 = core s"
    using mset_fairOrder [of fx "queued s" s] core_fairOrder [of fx "queued s" s] by auto
  have "sched_inv pend s1"
    using assms sched_inv_core [OF s1] sched_inv_mset [OF ms] by blast
  with drainLoop_ok [of pend "[]" s1 fx] obtain rem s2 where
    "drainLoop fx pend [] s1 = Some (rem, s2)" "sched_inv rem s2" "rem \<noteq> [] \<longrightarrow> busy s2" by auto
  with False fo show ?thesis by (simp add: drainQueue_def fifo_ok_def busy_def)
qed

section \<open>Releasing requests that are taken out of the scheduler\<close>

text \<open>
  The reservation count against one list of every held request, whatever structure holds them,
  and the fields such a step leaves alone.
\<close>

definition racct :: "HandlerReq list \<Rightarrow> 'w FIFO \<Rightarrow> bool" where
  "racct held s \<longleftrightarrow> (\<forall>m. reserved s m = inFlight s m + cnt m held) \<and> (\<forall>m. 0 \<le> inFlight s m) \<and>
     (\<forall>m. reserved s m \<le> limit s m)"

definition frame where
  "frame s = (name s, priority s, limits s, active s, inFlight s, queued s, models s, pools s)"

definition shape :: "'w FIFO \<Rightarrow> bool" where
  "shape s \<longleftrightarrow> swaps_ok (active s) \<and> compatible (active s) \<and> evicts_idle (active s) (inFlight s)"

lemma sched_inv_racct: "sched_inv pend s \<longleftrightarrow> racct (pend @ allWaiters (active s)) s \<and> shape s"
  by (auto simp: sched_inv_def racct_def acct_def shape_def)

lemma frame_fields:
  assumes "frame s = frame s'"
  shows "name s = name s'" "priority s = priority s'" "limits s = limits s'" "active s = active s'"
    "inFlight s = inFlight s'" "queued s = queued s'" "models s = models s'" "pools s = pools s'"
    "limit s = limit s'" "shape s = shape s'"
  using assms by (auto simp: frame_def limit_def shape_def intro!: ext)

lemma frame_simps [simp]:
  "frame (onWorld f s) = frame s" "frame (queueDone fx r s) = frame s"
  "frame (s\<lparr>reserved := x\<rparr>) = frame s"
  by (simp_all add: frame_def)

lemma racct_simps [simp]:
  "racct held (onWorld f s) = racct held s" "racct held (queueDone fx r s) = racct held s"
  by (simp_all add: racct_def)

lemma racct_mset: "mset xs = mset ys \<Longrightarrow> racct xs s = racct ys s"
  using cnt_mset [of xs ys] by (simp add: racct_def)

lemma release_racct:
  assumes "racct (r # held) s" "Model r = m"
  shows "\<exists>s'. release m s = Some s' \<and> racct held s' \<and> frame s' = frame s"
proof -
  have "reserved s m = inFlight s m + (1 + cnt m held)" "0 \<le> inFlight s m"
    using assms by (auto simp: racct_def)
  then have "0 < reserved s m" by (smt (verit) cnt_nonneg)
  moreover have "racct held (s\<lparr>reserved := bump m (-1) (reserved s)\<rparr>)"
    unfolding racct_def
  proof (intro conjI allI)
    fix m'
    have *: "reserved s m' = inFlight s m' + cnt m' (r # held)" "reserved s m' \<le> limit s m'" "0 \<le> inFlight s m'"
      using assms(1) unfolding racct_def by blast+
    show "reserved (s\<lparr>reserved := bump m (-1) (reserved s)\<rparr>) m' =
        inFlight (s\<lparr>reserved := bump m (-1) (reserved s)\<rparr>) m' + cnt m' held"
      using * assms(2) by (cases "m' = m") auto
    show "reserved (s\<lparr>reserved := bump m (-1) (reserved s)\<rparr>) m' \<le>
        limit (s\<lparr>reserved := bump m (-1) (reserved s)\<rparr>) m'"
      using * by (cases "m' = m") auto
    show "0 \<le> inFlight (s\<lparr>reserved := bump m (-1) (reserved s)\<rparr>) m'" using * by simp
  qed
  ultimately show ?thesis by (simp add: release_def)
qed

lemma grantError_racct:
  assumes "racct (r # held) s"
  shows "\<exists>s'. grantError fx r e s = Some s' \<and> racct held s' \<and> frame s' = frame s"
  using release_racct [OF assms refl] by (auto simp: grantError_def)

lemma fold_grantError_racct:
  assumes "\<And>w t tot. racct tot (g w t) = racct tot t" "\<And>w t. frame (g w t) = frame t"
  shows "racct (rs @ held) s \<Longrightarrow>
    \<exists>s'. fold_opt (\<lambda>w t. grantError fx w e (g w t)) rs s = Some s' \<and> racct held s' \<and> frame s' = frame s"
proof (induction rs arbitrary: s)
  case (Cons r rs)
  then have "racct (r # (rs @ held)) (g r s)" using assms by simp
  from grantError_racct [OF this, of fx e] obtain t where
    "grantError fx r e (g r s) = Some t" "racct (rs @ held) t" "frame t = frame s" using assms by auto
  with Cons.IH [of t] show ?case by auto
qed simp

section \<open>Cancellation\<close>

lemma pruneQueue_ok:
  "racct (qs @ rest) s \<Longrightarrow>
   \<exists>rm' s'. pruneQueue fx r qs rm s = Some (filter (\<lambda>q. Respond q \<noteq> r) qs, rm', s') \<and>
     racct (filter (\<lambda>q. Respond q \<noteq> r) qs @ rest) s' \<and> frame s' = frame s \<and>
     (rm' \<longleftrightarrow> rm \<or> (\<exists>q \<in> set qs. Respond q = r))"
proof (induction qs arbitrary: rest rm s)
  case (Cons q qs)
  show ?case
  proof (cases "Respond q = r")
    case True
    have "racct (q # (qs @ rest)) (queueDone fx q s)" using Cons.prems by simp
    from release_racct [OF this refl] obtain t where
      "release (Model q) (queueDone fx q s) = Some t" "racct (qs @ rest) t" "frame t = frame s" by auto
    with Cons.IH [of rest t True] True show ?thesis by auto
  next
    case False
    have "racct (qs @ (q # rest)) s" using Cons.prems racct_mset [of "qs @ (q # rest)" "(q # qs) @ rest" s] by simp
    from Cons.IH [OF this, of rm] False obtain rm' s' where
      "pruneQueue fx r qs rm s = Some (filter (\<lambda>q. Respond q \<noteq> r) qs, rm', s')"
      "racct (filter (\<lambda>q. Respond q \<noteq> r) qs @ (q # rest)) s'" "frame s' = frame s"
      "rm' \<longleftrightarrow> rm \<or> (\<exists>q \<in> set qs. Respond q = r)" by auto
    with False racct_mset [of "filter (\<lambda>q. Respond q \<noteq> r) qs @ (q # rest)"
        "filter (\<lambda>q. Respond q \<noteq> r) (q # qs) @ rest" s'] show ?thesis by auto
  qed
qed simp

lemma pruneWaiters_ok:
  "racct (ws @ rest) s \<Longrightarrow>
   \<exists>rm' s'. pruneWaiters r ws rm s = Some (filter (\<lambda>q. Respond q \<noteq> r) ws, rm', s') \<and>
     racct (filter (\<lambda>q. Respond q \<noteq> r) ws @ rest) s' \<and> frame s' = frame s"
proof (induction ws arbitrary: rest rm s)
  case (Cons q qs)
  show ?case
  proof (cases "Respond q = r")
    case True
    have "racct (q # (qs @ rest)) s" using Cons.prems by simp
    from release_racct [OF this refl] obtain t where
      "release (Model q) s = Some t" "racct (qs @ rest) t" "frame t = frame s" by auto
    with Cons.IH [of rest t True] True show ?thesis by auto
  next
    case False
    have "racct (qs @ (q # rest)) s" using Cons.prems racct_mset [of "qs @ (q # rest)" "(q # qs) @ rest" s] by simp
    from Cons.IH [OF this, of rm] False obtain rm' s' where
      "pruneWaiters r qs rm s = Some (filter (\<lambda>q. Respond q \<noteq> r) qs, rm', s')"
      "racct (filter (\<lambda>q. Respond q \<noteq> r) qs @ (q # rest)) s'" "frame s' = frame s" by auto
    with False racct_mset [of "filter (\<lambda>q. Respond q \<noteq> r) qs @ (q # rest)"
        "filter (\<lambda>q. Respond q \<noteq> r) (q # qs) @ rest" s'] show ?thesis by auto
  qed
qed simp

definition withoutReq :: "nat \<Rightarrow> (string \<times> activeSwap) list \<Rightarrow> (string \<times> activeSwap) list" where
  "withoutReq r act = map (\<lambda>(k, sw). (k, sw\<lparr>waiters := filter (\<lambda>q. Respond q \<noteq> r) (waiters sw)\<rparr>)) act"

lemma allWaiters_without: "allWaiters (withoutReq r act) = filter (\<lambda>q. Respond q \<noteq> r) (allWaiters act)"
  by (induction act) (auto simp: withoutReq_def)

lemma pruneSwaps_ok:
  "racct (allWaiters act @ rest) s \<Longrightarrow>
   \<exists>rm' s'. pruneSwaps r act rm s = Some (withoutReq r act, rm', s') \<and>
     racct (allWaiters (withoutReq r act) @ rest) s' \<and> frame s' = frame s"
proof (induction act arbitrary: rest rm s)
  case Nil
  then show ?case by (simp add: withoutReq_def)
next
  case (Cons e act)
  obtain k sw where e: "e = (k, sw)" by force
  have "racct (waiters sw @ (allWaiters act @ rest)) s" using Cons.prems e by simp
  from pruneWaiters_ok [OF this, of r rm] obtain rm1 s1 where
    1: "pruneWaiters r (waiters sw) rm s = Some (filter (\<lambda>q. Respond q \<noteq> r) (waiters sw), rm1, s1)"
    "racct (filter (\<lambda>q. Respond q \<noteq> r) (waiters sw) @ (allWaiters act @ rest)) s1" "frame s1 = frame s" by auto
  let ?ws = "filter (\<lambda>q. Respond q \<noteq> r) (waiters sw)"
  have "racct (allWaiters act @ (?ws @ rest)) s1"
    using 1(2) racct_mset [of "allWaiters act @ (?ws @ rest)" "?ws @ (allWaiters act @ rest)" s1] by (simp add: ac_simps)
  from Cons.IH [OF this, of rm1] obtain rm2 s2 where
    2: "pruneSwaps r act rm1 s1 = Some (withoutReq r act, rm2, s2)"
    "racct (allWaiters (withoutReq r act) @ (?ws @ rest)) s2" "frame s2 = frame s1" by auto
  have "racct (allWaiters (withoutReq r (e # act)) @ rest) s2"
    using 2(2) racct_mset [of "allWaiters (withoutReq r act) @ (?ws @ rest)"
        "(?ws @ allWaiters (withoutReq r act)) @ rest" s2] e by (simp add: withoutReq_def ac_simps)
  with 1 2 e show ?case by (simp add: withoutReq_def)
qed

section \<open>Every handler keeps the scheduler consistent\<close>

lemma fifo_okD:
  assumes "fifo_ok s"
  shows "sched_inv (queued s) s" "queued s \<noteq> [] \<Longrightarrow> busy s"
  using assms by (auto simp: fifo_ok_def)

lemma fifo_ok_core: "core s = core s' \<Longrightarrow> fifo_ok s = fifo_ok s'"
  by (simp add: fifo_ok_def busy_def sched_inv_core [of s s'] core_fields [of s s'])

lemma fifo_ok_New [simp]: "fifo_ok (NewFIFOWithLifecycle nm prio mods pls w)"
  by (auto simp: fifo_ok_def sched_inv_def acct_def NewFIFOWithLifecycle_def swaps_ok_def
      compatible_def evicts_idle_def limit_def defaultConcurrencyLimit_def split: option.split)

lemma enqueue_ok:
  assumes "sched_inv (r # queued s) s" "busy s"
  shows "fifo_ok (enqueue fx r s)"
  using assms by (simp add: fifo_ok_def sched_inv_enqueue busy_def)

lemma sched_inv_busy_enough: "sched_inv (queued s) s \<Longrightarrow> busy s \<Longrightarrow> fifo_ok s"
  by (simp add: fifo_ok_def)

lemma keeps_fifo_ok:
  "fifo_ok s \<Longrightarrow> keeps s t \<Longrightarrow> sched_inv (queued s) t \<Longrightarrow> fifo_ok t"
  using keeps_busy [of s t] by (auto simp: fifo_ok_def keeps_def)

lemma admit_ok:
  assumes "fifo_ok s" "admit fx r s = (ok, s1)"
  shows "ok \<Longrightarrow> sched_inv (r # queued s1) s1 \<and> keeps s s1 \<and> active s1 = active s \<and> inFlight s1 = inFlight s"
    and "\<not> ok \<Longrightarrow> core s1 = core s"
proof -
  note D = sched_invD [OF fifo_okD(1) [OF assms(1)]]
  show "\<not> ok \<Longrightarrow> core s1 = core s"
    using assms(2) core_sendAdmission [of fx r None s]
    by (cases "sendAdmission fx r None s") (auto simp: admit_def Let_def split: if_splits)
  assume ok
  then obtain s0 where s0: "sendAdmission fx r None s = (True, s0)" "reserved s (Model r) < limit s (Model r)"
    "s1 = s0\<lparr>reserved := bump (Model r) 1 (reserved s0)\<rparr>"
    using assms(2) by (auto simp: admit_def not_le split: if_splits prod.splits)
  with core_sendAdmission [of fx r None s] have c: "core s0 = core s" by simp
  note F = core_fields [OF c]
  have "sched_inv (r # queued s1) s1"
  proof (rule sched_invI)
    fix m
    show "reserved s1 m = inFlight s1 m + cnt m (r # queued s1) + cnt m (allWaiters (active s1))"
      using D(1) [of m] F s0(3) by (simp add: bump_apply)
    show "reserved s1 m \<le> limit s1 m"
      using D(3) [of m] F s0(2,3) by (cases "m = Model r") auto
  qed (use D F s0(3) in simp_all)
  moreover have "keeps s s1" using F s0(3) by (simp add: keeps_def)
  ultimately show "sched_inv (r # queued s1) s1 \<and> keeps s s1 \<and> active s1 = active s \<and> inFlight s1 = inFlight s"
    using F s0(3) by simp
qed

lemma keeps_queued: "keeps s t \<Longrightarrow> queued t = queued s"
  by (simp add: keeps_def)

lemma oldestCold_in_queue:
  "oldestColdFrom fx s p q None = Some r \<Longrightarrow> q \<noteq> []"
  by (cases q) auto

lemma OnRequest_ok:
  assumes ok: "fifo_ok s"
  shows "\<exists>s'. OnRequest fx r s = Some s' \<and> fifo_ok s'"
proof (cases "ModelState fx (world s) (Model r)")
  case None
  with ok show ?thesis by (simp add: OnRequest_def fifo_ok_core [OF core_rejectAdmission])
next
  case (Some st)
  obtain adm s1 where adm: "admit fx r s = (adm, s1)" by force
  show ?thesis
  proof (cases adm)
    case False
    with Some adm ok fifo_ok_core [OF admit_ok(2) [OF ok adm]] show ?thesis by (simp add: OnRequest_def)
  next
    case True
    with admit_ok(1) [OF ok adm] have inv: "sched_inv (r # queued s1) s1" and k: "keeps s s1" by auto
    have waiting: "queued s1 \<noteq> [] \<Longrightarrow> busy s1"
      using keeps_busy [OF k] keeps_queued [OF k] fifo_okD(2) [OF ok] by simp
    have later: "fifo_ok t" if "sched_inv (queued s1) t" "keeps s1 t" for t
      using that keeps_busy [OF that(2)] keeps_queued [OF that(2)] waiting by (auto simp: fifo_ok_def)
    let ?run = "runningSet fx (Model r) s1"
    let ?ev = "EvictionFor fx (world s1) (Model r) ?run"
    consider (join) sw where "map_of (active s1) (Model r) = Some sw"
      | (yield) "map_of (active s1) (Model r) = None" "st = StateReady" "?ev = []"
          "\<not> collidesWith (Model r) [] (active s1)" "shouldYieldToCold fx s1 (Model r)"
      | (fast) "map_of (active s1) (Model r) = None" "st = StateReady" "?ev = []"
          "\<not> collidesWith (Model r) [] (active s1)" "\<not> shouldYieldToCold fx s1 (Model r)"
      | (blocked) "map_of (active s1) (Model r) = None" "\<not> (st = StateReady \<and> ?ev = [] \<and> \<not> collidesWith (Model r) ?ev (active s1))"
          "collidesWith (Model r) ?ev (active s1) \<or> conflictsWithInFlight ?ev (inFlight s1)"
      | (swap) "map_of (active s1) (Model r) = None" "\<not> (st = StateReady \<and> ?ev = [] \<and> \<not> collidesWith (Model r) ?ev (active s1))"
          "\<not> collidesWith (Model r) ?ev (active s1)" "\<not> conflictsWithInFlight ?ev (inFlight s1)"
      by (cases "map_of (active s1) (Model r)"; cases "st = StateReady"; cases "?ev = []") auto
    then show ?thesis
    proof cases
      case join
      with Some adm True joinSwap_ok [OF inv] later [OF _ joinSwap_keeps] show ?thesis
        by (simp add: OnRequest_def)
    next
      case yield
      then have "queued s1 \<noteq> []"
        by (auto simp: shouldYieldToCold_def Let_def oldestCold_def
            dest: oldestCold_in_queue split: option.splits if_splits)
      with yield Some adm True enqueue_ok [OF inv waiting] show ?thesis by (simp add: OnRequest_def)
    next
      case fast
      let ?u = "recordResidentAdmission fx (Model r) s1"
      have "\<forall>(k, sw) \<in> set (active ?u). Model r \<notin> set (evict sw)"
        using fast(1,4) by (force simp: collidesWith_def list_ex_iff map_of_eq_None_iff)
      with grantHandler_ok [of r "queued s1" ?u "Model r" fx] inv obtain t where
        "grantHandler fx r (Model r) ?u = Some t" "sched_inv (queued s1) t" "keeps ?u t" by auto
      moreover have "keeps s1 t"
        using keeps_core [OF core_recordResidentAdmission [symmetric]] \<open>keeps ?u t\<close> by (rule keeps_trans)
      ultimately show ?thesis using fast Some adm True later by (simp add: OnRequest_def)
    next
      case blocked
      then have "busy s1"
        by (auto simp: busy_def collidesWith_def conflictsWithInFlight_def list_ex_iff)
      with blocked Some adm True enqueue_ok [OF inv] show ?thesis
        by (auto simp: OnRequest_def Let_def)
    next
      case swap
      with Some adm True startSwap_ok [OF inv swap(1,3,4)] later [OF _ startSwap_keeps [OF swap(1)]]
      show ?thesis by (auto simp: OnRequest_def Let_def)
    qed
  qed
qed

lemma fold_answer_ok:
  "sched_inv (ws @ q) s \<Longrightarrow> \<forall>w \<in> set ws. Model w = m \<Longrightarrow>
   \<forall>(k, sw) \<in> set (active s). m \<notin> set (evict sw) \<Longrightarrow>
   \<exists>s'. fold_opt (answerWaiter fx m err) ws s = Some s' \<and> sched_inv q s' \<and> keeps s s'"
proof (induction ws arbitrary: s)
  case (Cons w ws)
  have inv: "sched_inv (w # (ws @ q)) s" and w: "Model w = m" using Cons.prems by auto
  obtain t where t: "answerWaiter fx m err w s = Some t" "sched_inv (ws @ q) t" "keeps s t" "active t = active s"
  proof (cases err)
    case None
    with grantHandler_ok [OF inv w Cons.prems(3), of fx] that show ?thesis by (auto simp: answerWaiter_def)
  next
    case (Some e)
    with grantError_ok [OF inv, of fx e] that show ?thesis by (auto simp: answerWaiter_def)
  qed
  with Cons.IH [of t] Cons.prems keeps_trans [OF t(3)] show ?case by auto
qed auto

lemma delete_ok:
  assumes inv: "sched_inv q s" and sw: "map_of (active s) m = Some sw"
  shows "sched_inv (waiters sw @ q) (s\<lparr>active := AList.delete m (active s)\<rparr>)"
    and "\<forall>(k, sw') \<in> set (AList.delete m (active s)). m \<notin> set (evict sw')"
    and "\<forall>w \<in> set (waiters sw). Model w = m"
proof -
  note D = sched_invD [OF inv]
  have mem: "(m, sw) \<in> set (active s)" using sw by (rule map_of_SomeD)
  have dist: "distinct (map fst (active s))" using D(4) by (simp add: swaps_ok_def)
  have sub: "x \<in> set (AList.delete m (active s)) \<longleftrightarrow> x \<in> set (active s) \<and> fst x \<noteq> m" for x
    by (auto simp: AList.delete_eq)
  show "\<forall>w \<in> set (waiters sw). Model w = m" using D(4) mem by (auto simp: swaps_ok_def)
  show "\<forall>(k, sw') \<in> set (AList.delete m (active s)). m \<notin> set (evict sw')"
  proof clarify
    fix k sw' assume "(k, sw') \<in> set (AList.delete m (active s))" "m \<in> set (evict sw')"
    with sub [of "(k, sw')"] have "(k, sw') \<in> set (active s)" "k \<noteq> m" by auto
    with compatibleD [OF D(5) mem] \<open>m \<in> set (evict sw')\<close> show False by blast
  qed
  have cnts: "cnt x (allWaiters (active s)) = cnt x (waiters sw) + cnt x (allWaiters (AList.delete m (active s)))" for x
    using dist sw
  proof (induction "active s" arbitrary: s)
    case (Cons e act)
    obtain k v where e: "e = (k, v)" by force
    note act = Cons.hyps(2) [symmetric]
    show ?case
    proof (cases "k = m")
      case True
      with Cons.prems act e have "m \<notin> fst ` set act" by auto
      then have "AList.delete m act = act" by (simp add: AList.delete_eq filter_id) (force intro: filter_id)
      with True Cons.prems act e show ?thesis by simp
    next
      case False
      with Cons.prems act e Cons.hyps(1) [of "s\<lparr>active := act\<rparr>"] show ?thesis by simp
    qed
  qed simp
  show "sched_inv (waiters sw @ q) (s\<lparr>active := AList.delete m (active s)\<rparr>)"
  proof (rule sched_invI)
    show "swaps_ok (active (s\<lparr>active := AList.delete m (active s)\<rparr>))"
      using D(4) sub by (auto simp: swaps_ok_def AList.distinct_delete)
    show "compatible (active (s\<lparr>active := AList.delete m (active s)\<rparr>))"
      using compatible_subset [OF D(5)] sub by (simp add: subset_iff)
    show "evicts_idle (active (s\<lparr>active := AList.delete m (active s)\<rparr>))
        (inFlight (s\<lparr>active := AList.delete m (active s)\<rparr>))"
      using evicts_idle_subset [OF D(6)] sub by (simp add: subset_iff)
  qed (use D cnts in simp_all)
qed

lemma OnSwapDone_ok:
  assumes ok: "fifo_ok s"
  shows "\<exists>s'. OnSwapDone fx m err s = Some s' \<and> fifo_ok s'"
proof (cases "map_of (active s) m")
  case None
  with ok show ?thesis by (simp add: OnSwapDone_def)
next
  case (Some sw)
  let ?d = "s\<lparr>active := AList.delete m (active s)\<rparr>"
  note d = delete_ok [OF fifo_okD(1) [OF ok] Some]
  from fold_answer_ok [OF d(1) d(3), of fx err] d(2) obtain t where
    t: "fold_opt (answerWaiter fx m err) (waiters sw) ?d = Some t" "sched_inv (queued s) t" "keeps ?d t" by auto
  from t(3) have "queued t = queued s" by (simp add: keeps_def)
  with t(2) drainQueue_ok [of t fx] t(1) Some show ?thesis by (simp add: OnSwapDone_def)
qed

lemma racct_upd [simp]:
  "racct held (s\<lparr>active := a\<rparr>) = racct held s" "racct held (s\<lparr>queued := q\<rparr>) = racct held s"
  by (simp_all add: racct_def) (simp add: limit_def)

lemma shape_queued [simp]: "shape (s\<lparr>queued := q\<rparr>) = shape s" "shape (onWorld f s) = shape s"
  by (simp_all add: shape_def)

lemma OnServeDone_ok:
  assumes ok: "fifo_ok s" and serving: "0 < inFlight s m"
  shows "\<exists>s'. OnServeDone fx m s = Some s' \<and> fifo_ok s'"
proof -
  let ?s0 = "s\<lparr>inFlight := bump m (-1) (inFlight s)\<rparr>"
  let ?held = "queued s @ allWaiters (active s)"
  define r where "r = \<lparr>Model = m, hasAdmit = False, Respond = 0, positionCh = 0, queuedAt = None\<rparr>"
  have acc: "racct ?held s" and shp: "shape s"
    using fifo_okD(1) [OF ok] by (simp_all add: sched_inv_racct)
  have "racct (r # ?held) ?s0"
    using acc serving by (auto simp: racct_def bump_apply r_def)
  from release_racct [OF this, of m] obtain t where
    t: "release m ?s0 = Some t" "racct ?held t" "frame t = frame ?s0" by (auto simp: r_def)
  note F = frame_fields [OF t(3)]
  have "m \<notin> set (evict sw)" if "(k, sw) \<in> set (active s)" for k sw
    using shp serving that by (force simp: shape_def evicts_idle_def)
  then have "evicts_idle (active s) (bump m (-1) (inFlight s))"
    using shp by (fastforce simp: shape_def evicts_idle_def bump_apply)
  then have inv: "sched_inv (queued t) t"
    using t(2) F shp by (simp add: sched_inv_racct shape_def)
  show ?thesis
  proof (cases "inFlight t m \<le> 0")
    case True
    with sched_invD(2) [OF inv, of m] have "(inFlight t)(m := 0) = inFlight t"
      by (intro fun_upd_idem) simp
    then have "t\<lparr>inFlight := (inFlight t)(m := 0)\<rparr> = t" by simp
    with True t(1) drainQueue_ok [OF inv, of fx] show ?thesis by (simp add: OnServeDone_def)
  next
    case False
    then have "busy t" by (auto simp: busy_def not_le)
    with False t(1) inv show ?thesis by (simp add: OnServeDone_def fifo_ok_def)
  qed
qed

lemma withoutReq_shape:
  assumes "shape s"
  shows "shape (s\<lparr>active := withoutReq r (active s)\<rparr>)"
proof -
  have old: "\<exists>sw0. (k, sw0) \<in> set (active s) \<and> evict sw = evict sw0 \<and> modelID sw = modelID sw0 \<and>
      set (waiters sw) \<subseteq> set (waiters sw0)" if "(k, sw) \<in> set (withoutReq r (active s))" for k sw
    using that by (force simp: withoutReq_def)
  have keys: "map fst (withoutReq r (active s)) = map fst (active s)"
    by (simp add: withoutReq_def comp_def case_prod_beta)
  have "swaps_ok (withoutReq r (active s))"
    using assms keys old by (fastforce simp: shape_def swaps_ok_def)
  moreover have "compatible (withoutReq r (active s))"
    unfolding compatible_def
  proof clarify
    fix k sw1 k' sw2
    assume "(k, sw1) \<in> set (withoutReq r (active s))" "(k', sw2) \<in> set (withoutReq r (active s))" "k \<noteq> k'"
    moreover from this old obtain u1 u2 where "(k, u1) \<in> set (active s)" "evict sw1 = evict u1"
      "(k', u2) \<in> set (active s)" "evict sw2 = evict u2" by metis
    ultimately show "k \<notin> set (evict sw2) \<and> set (evict sw1) \<inter> set (evict sw2) = {}"
      using compatibleD [of "active s" k u1 k' u2] assms by (simp add: shape_def)
  qed
  moreover have "evicts_idle (withoutReq r (active s)) (inFlight s)"
    using assms old by (fastforce simp: shape_def evicts_idle_def)
  ultimately show ?thesis by (simp add: shape_def)
qed

lemma OnCancel_state:
  assumes inv: "sched_inv (queued s) s"
  shows "\<exists>s'. OnCancel fx req s = Some s' \<and> sched_inv (queued s') s' \<and>
     queued s' = filter (\<lambda>q. Respond q \<noteq> Respond req) (queued s) \<and>
     active s' = withoutReq (Respond req) (active s) \<and> inFlight s' = inFlight s"
proof -
  let ?r = "Respond req" and ?W = "allWaiters (active s)"
  let ?kept = "filter (\<lambda>q. Respond q \<noteq> ?r) (queued s)"
  have "racct (queued s @ ?W) s" and shp: "shape s" using inv by (simp_all add: sched_inv_racct)
  from pruneQueue_ok [OF this(1), of fx ?r False] obtain rm1 s1 where
    1: "pruneQueue fx ?r (queued s) False s = Some (?kept, rm1, s1)" "racct (?kept @ ?W) s1" "frame s1 = frame s"
    by auto
  note F1 = frame_fields [OF 1(3)]
  have "racct (allWaiters (active s1) @ ?kept) (s1\<lparr>queued := ?kept\<rparr>)"
    using 1(2) F1 racct_mset [of "?kept @ ?W" "?W @ ?kept" s1] by simp
  from pruneSwaps_ok [OF this, of ?r rm1] obtain rm2 s2 where
    2: "pruneSwaps ?r (active s1) rm1 (s1\<lparr>queued := ?kept\<rparr>) = Some (withoutReq ?r (active s1), rm2, s2)"
    "racct (allWaiters (withoutReq ?r (active s1)) @ ?kept) s2" "frame s2 = frame (s1\<lparr>queued := ?kept\<rparr>)"
    by auto
  note F2 = frame_fields [OF 2(3)]
  let ?s3 = "s2\<lparr>active := withoutReq ?r (active s1)\<rparr>"
  have "racct (?kept @ allWaiters (withoutReq ?r (active s1))) ?s3"
    using 2(2) racct_mset [of "allWaiters (withoutReq ?r (active s1)) @ ?kept"
        "?kept @ allWaiters (withoutReq ?r (active s1))" s2] by simp
  moreover have "shape ?s3"
    using withoutReq_shape [OF shp, of ?r] F1 F2 by (simp add: shape_def)
  ultimately have "sched_inv ?kept ?s3" using F2 by (simp add: sched_inv_racct)
  with 1 2 F1 F2 show ?thesis by (auto simp: OnCancel_def Let_def)
qed

lemma OnCancel_ok:
  assumes ok: "fifo_ok s"
  shows "\<exists>s'. OnCancel fx req s = Some s' \<and> fifo_ok s'"
proof -
  from OnCancel_state [OF fifo_okD(1) [OF ok], of fx req] obtain s' where
    s': "OnCancel fx req s = Some s'" "sched_inv (queued s') s'"
    "queued s' = filter (\<lambda>q. Respond q \<noteq> Respond req) (queued s)"
    "active s' = withoutReq (Respond req) (active s)" "inFlight s' = inFlight s" by blast
  have "busy s' = busy s" using s'(4,5) by (simp add: busy_def withoutReq_def)
  moreover have "queued s' \<noteq> [] \<longrightarrow> busy s" using s'(3) fifo_okD(2) [OF ok] by (cases "queued s") auto
  ultimately show ?thesis using s'(1,2) by (simp add: fifo_ok_def)
qed

section \<open>Unloading and shutting down\<close>

lemma unloadSwap_ok:
  assumes inv: "sched_inv q s"
  shows "\<exists>s'. unloadSwap fx err i s = Some s' \<and> sched_inv q s' \<and> queued s' = queued s \<and>
    active s' = AList.delete i (active s) \<and> inFlight s' = inFlight s"
proof (cases "map_of (active s) i")
  case None
  then have "AList.delete i (active s) = active s"
    unfolding AList.delete_eq map_of_eq_None_iff by (intro filter_id) force
  with None inv show ?thesis by (simp add: unloadSwap_def)
next
  case (Some sw)
  let ?d = "AList.delete i (active s)"
  from delete_ok(1) [OF inv Some] have
    d: "racct ((waiters sw @ q) @ allWaiters ?d) s" "shape (s\<lparr>active := ?d\<rparr>)"
    by (simp_all add: sched_inv_racct)
  from fold_grantError_racct [of "\<lambda>w t. t" "waiters sw" "q @ allWaiters ?d" s fx err] d(1) obtain t where
    t: "fold_opt (\<lambda>w. grantError fx w err) (waiters sw) s = Some t" "racct (q @ allWaiters ?d) t"
    "frame t = frame s" by auto
  note F = frame_fields [OF t(3)]
  have "sched_inv q (t\<lparr>active := ?d\<rparr>)" using t(2) d(2) F by (simp add: sched_inv_racct shape_def)
  with Some t(1) F show ?thesis by (simp add: unloadSwap_def)
qed

lemma unloadSwaps_ok:
  "sched_inv q s \<Longrightarrow>
   \<exists>s'. fold_opt (unloadSwap fx err) is s = Some s' \<and> sched_inv q s' \<and> queued s' = queued s \<and>
     inFlight s' = inFlight s \<and> (\<forall>i \<in> set is. map_of (active s') i = None) \<and>
     set (active s') \<subseteq> set (active s)"
proof (induction "is" arbitrary: s)
  case (Cons i ids)
  from unloadSwap_ok [OF Cons.prems, of fx err i] obtain t where
    t: "unloadSwap fx err i s = Some t" "sched_inv q t" "queued t = queued s"
    "active t = AList.delete i (active s)" "inFlight t = inFlight s" by blast
  from Cons.IH [OF t(2)] obtain u where
    u: "fold_opt (unloadSwap fx err) ids t = Some u" "sched_inv q u" "queued u = queued t"
    "inFlight u = inFlight t" "\<forall>i \<in> set ids. map_of (active u) i = None" "set (active u) \<subseteq> set (active t)" by blast
  have "map_of (active u) i = None"
    using u(6) t(4) by (fastforce simp: map_of_eq_None_iff AList.delete_eq)
  moreover have "set (active u) \<subseteq> set (active s)" using u(6) t(4) by (auto simp: AList.delete_eq)
  ultimately show ?case using t u by auto
qed simp

lemma dropQueued_ok:
  "racct (ws @ rest) s \<Longrightarrow>
   \<exists>s'. dropQueued fx err targets ws s = Some (filter (\<lambda>w. Model w \<notin> set targets) ws, s') \<and>
     racct (filter (\<lambda>w. Model w \<notin> set targets) ws @ rest) s' \<and> frame s' = frame s"
proof (induction ws arbitrary: rest s)
  case (Cons w ws)
  show ?case
  proof (cases "Model w \<in> set targets")
    case True
    have "racct (w # (ws @ rest)) (queueDone fx w s)" using Cons.prems by simp
    from grantError_racct [OF this, of fx err] obtain t where
      "grantError fx w err (queueDone fx w s) = Some t" "racct (ws @ rest) t" "frame t = frame s" by auto
    with Cons.IH [of rest t] True show ?thesis by auto
  next
    case False
    have "racct (ws @ (w # rest)) s" using Cons.prems racct_mset [of "ws @ (w # rest)" "(w # ws) @ rest" s] by simp
    from Cons.IH [OF this] False obtain s' where
      "dropQueued fx err targets ws s = Some (filter (\<lambda>w. Model w \<notin> set targets) ws, s')"
      "racct (filter (\<lambda>w. Model w \<notin> set targets) ws @ (w # rest)) s'" "frame s' = frame s" by auto
    with False racct_mset [of "filter (\<lambda>w. Model w \<notin> set targets) ws @ (w # rest)"
        "filter (\<lambda>w. Model w \<notin> set targets) (w # ws) @ rest" s'] show ?thesis by auto
  qed
qed simp

lemma OnUnload_ok:
  assumes ok: "fifo_ok s"
  shows "\<exists>s'. OnUnload fx targets timeout s = Some s' \<and> fifo_ok s'"
proof -
  let ?err = "ErrText (name s @ '': model unloaded'')"
  let ?kept = "filter (\<lambda>w. Model w \<notin> set targets) (queued s)"
  from unloadSwaps_ok [OF fifo_okD(1) [OF ok], of fx ?err "remdups targets"] obtain t where
    t: "fold_opt (unloadSwap fx ?err) (remdups targets) s = Some t" "sched_inv (queued s) t"
    "queued t = queued s" by blast
  from t(2) have "racct (queued s @ allWaiters (active t)) t" and shp: "shape t"
    by (simp_all add: sched_inv_racct)
  from dropQueued_ok [OF this(1), of fx ?err targets] obtain u where
    u: "dropQueued fx ?err targets (queued s) t = Some (?kept, u)"
    "racct (?kept @ allWaiters (active t)) u" "frame u = frame t" by blast
  note F = frame_fields [OF u(3)]
  let ?v = "onWorld (StopProcesses fx timeout targets) (u\<lparr>queued := ?kept\<rparr>)"
  have "sched_inv (queued ?v) ?v" using u(2) F shp by (simp add: sched_inv_racct)
  from drainQueue_ok [OF this, of fx] t(1,3) u(1) show ?thesis by (simp add: OnUnload_def)
qed

lemma OnShutdown_ok:
  assumes ok: "fifo_ok s"
  shows "\<exists>s'. OnShutdown fx err s = Some s' \<and> reserved s' = inFlight s' \<and> inFlight s' = inFlight s"
proof -
  have fold: "\<exists>t. fold_opt (\<lambda>(k, sw). fold_opt (\<lambda>w. grantError fx w err) (waiters sw)) act s = Some t \<and>
      racct q t \<and> frame t = frame s" if "racct (allWaiters act @ q) s" for act q s
    using that
  proof (induction act arbitrary: s)
    case (Cons e act)
    obtain k sw where e: "e = (k, sw)" by force
    from fold_grantError_racct [of "\<lambda>w t. t" "waiters sw" "allWaiters act @ q" s fx err] Cons.prems e
    obtain t where "fold_opt (\<lambda>w. grantError fx w err) (waiters sw) s = Some t"
      "racct (allWaiters act @ q) t" "frame t = frame s" by auto
    with Cons.IH [of t] e show ?case by auto
  qed simp
  have "racct (allWaiters (active s) @ queued s) s"
    using fifo_okD(1) [OF ok] racct_mset [of "allWaiters (active s) @ queued s" "queued s @ allWaiters (active s)" s]
    by (simp add: sched_inv_racct)
  from fold [OF this] obtain t where
    t: "fold_opt (\<lambda>(k, sw). fold_opt (\<lambda>w. grantError fx w err) (waiters sw)) (active s) s = Some t"
    "racct (queued s) t" "frame t = frame s" by blast
  note F = frame_fields [OF t(3)]
  from fold_grantError_racct [of "queueDone fx" "queued s" "[]" t fx err] t(2) obtain u where
    u: "fold_opt (\<lambda>w t. grantError fx w err (queueDone fx w t)) (queued s) t = Some u" "racct [] u"
    "frame u = frame t" by auto
  have "reserved u = inFlight u" using u(2) by (auto simp: racct_def)
  with t u F frame_fields [OF u(3)] show ?thesis by (simp add: OnShutdown_def)
qed

end
