(* ===== verification/Scheduler_Props.thy ===== *)
theory Scheduler_Props
  imports Scheduler_Handlers
begin

text \<open>
  Runs of the scheduler and what holds in every state of a run. Between two events the world
  (process states, callers) may change in any way, and callers may read their position channel.
\<close>

section \<open>Events and reachable states\<close>

datatype sched_event =
    EvRequest HandlerReq
  | EvCancel HandlerReq
  | EvSwapDone string "error option"
  | EvServeDone string
  | EvUnload "string list" int

fun handle :: "'w Effects \<Rightarrow> sched_event \<Rightarrow> 'w FIFO \<Rightarrow> 'w FIFO option" where
  "handle fx (EvRequest r) s = OnRequest fx r s"
| "handle fx (EvCancel r) s = OnCancel fx r s"
| "handle fx (EvSwapDone m e) s = OnSwapDone fx m e s"
| "handle fx (EvServeDone m) s = OnServeDone fx m s"
| "handle fx (EvUnload ts t) s = OnUnload fx ts t s"

text \<open>A handler reports the end of a request only for a request that was being served.\<close>

fun enabled :: "sched_event \<Rightarrow> 'w FIFO \<Rightarrow> bool" where
  "enabled (EvServeDone m) s \<longleftrightarrow> 0 < inFlight s m"
| "enabled _ s \<longleftrightarrow> True"

inductive sched_reach :: "'w Effects \<Rightarrow> 'w FIFO \<Rightarrow> bool" for fx :: "'w Effects" where
  start: "sched_reach fx (NewFIFOWithLifecycle nm prio mods pls w)"
| event: "sched_reach fx s \<Longrightarrow> enabled ev s \<Longrightarrow> handle fx ev s = Some s' \<Longrightarrow> sched_reach fx s'"
| environment: "sched_reach fx s \<Longrightarrow> sched_reach fx (s\<lparr>world := w, positions := p\<rparr>)"

lemma handle_ok: "fifo_ok s \<Longrightarrow> enabled ev s \<Longrightarrow> \<exists>s'. handle fx ev s = Some s' \<and> fifo_ok s'"
  by (cases ev) (simp_all add: OnRequest_ok OnCancel_ok OnSwapDone_ok OnServeDone_ok OnUnload_ok)

lemma fifo_ok_environment [simp]: "fifo_ok (s\<lparr>world := w, positions := p\<rparr>) = fifo_ok s"
  by (rule fifo_ok_core) (simp add: core_def)

lemma sched_reach_ok: "sched_reach fx s \<Longrightarrow> fifo_ok s"
proof (induction rule: sched_reach.induct)
  case (event s ev s')
  then show ?case using handle_ok [of s ev fx] by auto
qed simp_all

lemma sched_reach_run:
  "sched_reach fx s \<Longrightarrow> enabled ev s \<Longrightarrow> sched_reach fx (the (handle fx ev s))"
  using sched_reach.event [of fx s ev] handle_ok [OF sched_reach_ok] by fastforce

section \<open>A recording environment\<close>

text \<open>
  Effects that record what the scheduler asks for, over fixed process states. It instantiates
  the interface for the closed examples.
\<close>

datatype trace_event =
    Started string "string list" | Failed nat error | Served nat string | Stopped "string list"
  | Admitted nat "error option"

record recorder =
  procStates :: "(string \<times> ProcessState) list"
  evictions :: "(string \<times> string list) list"
  gone :: "nat list"
  trace :: "trace_event list"

definition record_event :: "trace_event \<Rightarrow> recorder \<Rightarrow> recorder" where
  "record_event e w = w\<lparr>trace := trace w @ [e]\<rparr>"

definition recFx :: "recorder Effects" where
  "recFx = \<lparr>
     ModelState = (\<lambda>w m. map_of (procStates w) m),
     RunningModels = (\<lambda>w. filter (\<lambda>(m, st). st \<noteq> StateStopped \<and> st \<noteq> StateShutdown) (procStates w)),
     StartSwap = (\<lambda>m ev. record_event (Started m ev)),
     GrantError = (\<lambda>r e. record_event (Failed (Respond r) e)),
     GrantServe = (\<lambda>r m w. if List.member (gone w) (Respond r) then (False, w)
                           else (True, record_event (Served (Respond r) m) w)),
     StopProcesses = (\<lambda>t ids. record_event (Stopped ids)),
     QueueDelta = (\<lambda>m d w. w), QueueWait = (\<lambda>m d w. w), ResidentAdmission = (\<lambda>m w. w),
     FairnessPromotion = (\<lambda>m w. w),
     EvictionFor = (\<lambda>w m running. filter (\<lambda>x. List.member (case map_of (evictions w) m of None \<Rightarrow> [] | Some e \<Rightarrow> e) x) running),
     OnSwapStart = (\<lambda>m running w. w),
     SendAdmit = (\<lambda>r e w. (True, record_event (Admitted (Respond r) e) w)),
     SetReqData = (\<lambda>r k v w. w), Now = (\<lambda>w. 0)\<rparr>"

definition mkReq :: "string \<Rightarrow> nat \<Rightarrow> HandlerReq" where
  "mkReq m r = \<lparr>Model = m, hasAdmit = False, Respond = r, positionCh = r, queuedAt = None\<rparr>"

definition twoModels :: recorder where
  "twoModels = \<lparr>procStates = [(''a'', StateReady), (''b'', StateStopped)],
     evictions = [(''a'', [''b'']), (''b'', [''a''])], gone = [], trace = []\<rparr>"

definition fresh :: "recorder FIFO" where
  "fresh = NewFIFOWithLifecycle ''r'' (\<lambda>_. 0) (\<lambda>_. None) [] twoModels"

lemma fresh_reach: "sched_reach recFx fresh"
  by (simp add: fresh_def sched_reach.start)

text \<open>One request on the ready model: it is served at once.\<close>

definition served1 :: "recorder FIFO" where
  "served1 = the (handle recFx (EvRequest (mkReq ''a'' 1)) fresh)"

lemma served1_reach: "sched_reach recFx served1"
  unfolding served1_def by (rule sched_reach_run [OF fresh_reach]) simp

text \<open>Then one for the other model, which must wait for the first to finish.\<close>

definition waiting2 :: "recorder FIFO" where
  "waiting2 = the (handle recFx (EvRequest (mkReq ''b'' 2)) served1)"

lemma waiting2_reach: "sched_reach recFx waiting2"
  unfolding waiting2_def by (rule sched_reach_run [OF served1_reach]) simp

lemma served1_inFlight: "inFlight served1 ''a'' = 1"
  by code_simp

lemma waiting2_queued: "map Respond (queued waiting2) = [2]"
  by code_simp

section \<open>Safety of the run\<close>

text \<open>C1: From every reachable state every enabled event is handled: the panic that releasing a
  missing reservation raises never happens.\<close>

theorem scheduler_never_panics:
  assumes "sched_reach fx s" "enabled ev s"
  shows "\<exists>s'. handle fx ev s = Some s'"
  using handle_ok [OF sched_reach_ok [OF assms(1)] assms(2)] by blast

theorem scheduler_never_panics_witness:
  "\<exists>s'. handle recFx (EvServeDone ''a'') served1 = Some s'"
  by (rule scheduler_never_panics [OF served1_reach]) (simp add: served1_inFlight)

text \<open>C4: Every reservation belongs to exactly one request that is being served, queued or
  waiting on a swap, and the reservations of a model never exceed its concurrency limit.\<close>

theorem reservations_are_exact:
  assumes "sched_reach fx s"
  shows "reserved s m = inFlight s m + cnt m (queued s) + cnt m (allWaiters (active s)) \<and>
    0 \<le> inFlight s m \<and> inFlight s m \<le> limit s m \<and> reserved s m \<le> limit s m"
proof -
  note D = sched_invD [OF fifo_okD(1) [OF sched_reach_ok [OF assms]]]
  have "inFlight s m \<le> reserved s m"
    using D(1) [of m] cnt_nonneg [of m "queued s"] cnt_nonneg [of m "allWaiters (active s)"] by linarith
  with D(1,2,3) [of m] show ?thesis by linarith
qed

theorem reservations_are_exact_witness:
  "reserved waiting2 ''b'' = inFlight waiting2 ''b'' + cnt ''b'' (queued waiting2) +
     cnt ''b'' (allWaiters (active waiting2)) \<and> 0 \<le> inFlight waiting2 ''b'' \<and>
     inFlight waiting2 ''b'' \<le> limit waiting2 ''b'' \<and> reserved waiting2 ''b'' \<le> limit waiting2 ''b''"
  by (rule reservations_are_exact [OF waiting2_reach])

text \<open>C12: No wakeup is lost: while a request is queued, some swap is active or some model is
  serving, so an event that retries the queue is still to come.\<close>

theorem queued_requests_have_a_wakeup:
  assumes "sched_reach fx s" "queued s \<noteq> []"
  shows "active s \<noteq> [] \<or> (\<exists>m. 0 < inFlight s m)"
  using fifo_okD(2) [OF sched_reach_ok [OF assms(1)] assms(2)] by (simp add: busy_def)

theorem queued_requests_have_a_wakeup_witness:
  "0 < length (active waiting2) \<or> (\<exists>m. 0 < inFlight waiting2 m)"
proof -
  have "queued waiting2 \<noteq> []" using waiting2_queued by auto
  from queued_requests_have_a_wakeup [OF waiting2_reach this] show ?thesis by blast
qed

text \<open>C2: Active swaps never interfere: no model an active swap evicts is serving a request, is
  the target of another active swap or is evicted by another one.\<close>

theorem active_swaps_are_safe:
  assumes "sched_reach fx s" "(k, sw) \<in> set (active s)" "m \<in> set (evict sw)"
  shows "inFlight s m = 0 \<and>
    (\<forall>(k', sw') \<in> set (active s). k' \<noteq> k \<longrightarrow> m \<noteq> k' \<and> m \<notin> set (evict sw'))"
proof -
  note D = sched_invD [OF fifo_okD(1) [OF sched_reach_ok [OF assms(1)]]]
  have "m \<noteq> k' \<and> m \<notin> set (evict sw')" if "(k', sw') \<in> set (active s)" "k' \<noteq> k" for k' sw'
    using compatibleD [OF D(5) that(1) assms(2) that(2)] compatibleD [OF D(5) assms(2) that(1)] that(2) assms(3)
    by auto
  moreover have "inFlight s m = 0" using D(6) assms(2,3) by (fastforce simp: evicts_idle_def)
  ultimately show ?thesis by auto
qed

text \<open>The first request is for the stopped model, so a swap evicts the idle ready one.\<close>

definition swapping :: "recorder FIFO" where
  "swapping = the (handle recFx (EvRequest (mkReq ''b'' 1)) fresh)"

lemma swapping_reach: "sched_reach recFx swapping"
  unfolding swapping_def by (rule sched_reach_run [OF fresh_reach]) simp

lemma swapping_active:
  "active swapping = [(''b'', \<lparr>modelID = ''b'', evict = [''a''], waiters = [mkReq ''b'' 1]\<rparr>)]"
  by code_simp

theorem active_swaps_are_safe_witness: "inFlight swapping ''a'' = 0"
  using active_swaps_are_safe [OF swapping_reach, of _ "\<lparr>modelID = ''b'', evict = [''a''], waiters = [mkReq ''b'' 1]\<rparr>" "''a''"]
  by (simp add: swapping_active)

section \<open>Queue order\<close>

text \<open>Queueing keeps the queue sorted by falling priority and puts the request behind every
  queued request of its own or a higher priority.\<close>

theorem enqueue_by_priority:
  assumes "sorted_wrt (\<lambda>a b. priority s (Model b) \<le> priority s (Model a)) (queued s)"
  shows "sorted_wrt (\<lambda>a b. priority s (Model b) \<le> priority s (Model a)) (queued (enqueue fx r s)) \<and>
    queued (enqueue fx r s) =
      filter (\<lambda>q. priority s (Model r) \<le> priority s (Model q)) (queued s) @ [stamped fx s r] @
      filter (\<lambda>q. priority s (Model q) < priority s (Model r)) (queued s)"
proof -
  let ?p = "\<lambda>q. priority s (Model q)" and ?r = "priority s (Model r)"
  have split: "takeWhile (\<lambda>q. \<not> ?p q < ?r) qs = filter (\<lambda>q. ?r \<le> ?p q) qs \<and>
      dropWhile (\<lambda>q. \<not> ?p q < ?r) qs = filter (\<lambda>q. ?p q < ?r) qs"
    if "sorted_wrt (\<lambda>a b. ?p b \<le> ?p a) qs" for qs
    using that
  proof (induction qs)
    case (Cons q qs)
    show ?case
    proof (cases "?p q < ?r")
      case True
      with Cons.prems have "\<forall>x \<in> set qs. ?p x < ?r" by auto
      with True show ?thesis by (auto simp: empty_filter_conv intro!: filter_id [symmetric])
    next
      case False
      with Cons show ?thesis by auto
    qed
  qed simp
  show ?thesis
    using assms split [OF assms]
    by (auto simp: queued_enqueue sorted_wrt_append sorted_wrt_filter)
qed

theorem enqueue_by_priority_witness:
  "queued (enqueue recFx (mkReq ''a'' 3) waiting2) =
     filter (\<lambda>q. priority waiting2 ''a'' \<le> priority waiting2 (Model q)) (queued waiting2) @
     [stamped recFx waiting2 (mkReq ''a'' 3)] @
     filter (\<lambda>q. priority waiting2 (Model q) < priority waiting2 ''a'') (queued waiting2)"
proof -
  have "length (queued waiting2) = 1" using waiting2_queued by (metis length_map list.size(3,4) One_nat_def plus_1_eq_Suc add.commute)
  then have "sorted_wrt (\<lambda>a b. priority waiting2 (Model b) \<le> priority waiting2 (Model a)) (queued waiting2)"
    by (cases "queued waiting2") auto
  from enqueue_by_priority [OF this, of recFx "mkReq ''a'' 3"] show ?thesis by (simp add: mkReq_def)
qed

section \<open>The fair order of a lifecycle pool\<close>

text \<open>One pool's turn of the fair order leaves every request of other pools in its position
  and puts the pool's own requests, each class in queue order, resident before cold, with the
  first cold one moved to the front exactly when a fairness bound is reached.\<close>

theorem fair_order_of_a_pool:
  assumes "ResidentFirst (the (map_of (pools s) pool))" "oldestCold fx s pool = Some oldest"
  shows "mset (fst (fairPool fx pool (out, s))) = mset out \<and>
    filter (\<lambda>r. poolFor s (Model r) = pool) (fst (fairPool fx pool (out, s))) =
      poolOrder fx s (promotionDue fx s pool (the (map_of (pools s) pool)) oldest)
        (filter (\<lambda>r. poolFor s (Model r) = pool) out) \<and>
    (\<forall>i < length out. poolFor s (Model (out ! i)) = pool \<or> fst (fairPool fx pool (out, s)) ! i = out ! i)"
proof -
  let ?P = "\<lambda>r. poolFor s (Model r) = pool"
  let ?ord = "poolOrder fx s (promotionDue fx s pool (the (map_of (pools s) pool)) oldest) (filter ?P out)"
  have eq: "fst (fairPool fx pool (out, s)) = refill ?P out ?ord"
    using assms by (simp add: fairPool_cases poolReqs_def)
  have len: "length ?ord = length (filter ?P out)" by (simp add: length_poolOrder)
  have "set ?ord = set (filter ?P out)" using mset_poolOrder by (metis set_mset_mset)
  then have "\<forall>y \<in> set ?ord. ?P y" by auto
  with filter_refill [OF len] have "filter ?P (refill ?P out ?ord) = ?ord" by blast
  moreover have "?P (out ! i) \<or> refill ?P out ?ord ! i = out ! i" if "i < length out" for i
    using refill_nth [OF len that] by blast
  ultimately show ?thesis using mset_fairPool [of fx pool out s] by (simp add: eq)
qed

text \<open>A pool with two resident models and a cold one that must displace both.\<close>

definition pooled :: "string \<Rightarrow> ModelConfig" where
  "pooled pool = zeroModelConfig\<lparr>Provider := ''prov'', LifecyclePool := pool\<rparr>"

definition burstPool :: "int \<Rightarrow> LifecyclePoolConfig" where
  "burstPool n = \<lparr>poolProvider = ''prov'', Capacity = 2, RestorePreferred = True, TransientIdleTTL = 0,
     ResidentFirst = True, MaxResidentBurst = n, MaxResidentWait = 0\<rparr>"

definition threeModels :: recorder where
  "threeModels = \<lparr>procStates = [(''a'', StateReady), (''b'', StateReady), (''c'', StateStopped)],
     evictions = [(''c'', [''a'', ''b''])], gone = [], trace = []\<rparr>"

definition poolSched :: "int \<Rightarrow> counter \<Rightarrow> recorder FIFO" where
  "poolSched n prio = NewFIFOWithLifecycle ''r'' prio
     (map_of [(''a'', pooled ''p''), (''b'', pooled ''p''), (''c'', pooled ''p''), (''d'', pooled ''p'')])
     [(''p'', burstPool n)] threeModels"

fun runs :: "'w Effects \<Rightarrow> sched_event list \<Rightarrow> 'w FIFO \<Rightarrow> 'w FIFO option" where
  "runs fx [] s = Some s"
| "runs fx (ev # evs) s = Option.bind (handle fx ev s) (runs fx evs)"

text \<open>Both residents serve, the cold request queues behind them, and residents keep coming.\<close>

definition burstEvents :: "sched_event list" where
  "burstEvents = map EvRequest
     [mkReq ''a'' 1, mkReq ''b'' 2, mkReq ''c'' 3, mkReq ''a'' 4, mkReq ''a'' 5, mkReq ''b'' 6]"

definition burstState :: "recorder FIFO" where
  "burstState = the (runs recFx burstEvents (poolSched 1 (\<lambda>_. 0)))"

lemma burstState_facts:
  "map Respond (queued burstState) = [3, 5, 6]" "residentBursts burstState ''p'' = 1"
  "map_option Respond (oldestCold recFx burstState ''p'') = Some 3"
  "ResidentFirst (the (map_of (pools burstState) ''p''))"
  by code_simp+

theorem fair_order_of_a_pool_witness:
  "mset (fst (fairPool recFx ''p'' (queued burstState, burstState))) = mset (queued burstState)"
proof -
  obtain oldest where "oldestCold recFx burstState ''p'' = Some oldest"
    using burstState_facts(3) by auto
  from fair_order_of_a_pool [OF burstState_facts(4) this, of "queued burstState"] show ?thesis by blast
qed

text \<open>The fairness bound does not limit what a drain admits: with a burst bound of one
  resident admission, a cold request that was promoted but is still blocked by one busy resident
  is overtaken by both queued residents when the other resident becomes idle.\<close>

theorem drain_overtakes_promoted_cold_request:
  "map_option (\<lambda>s. (map Respond (queued s), residentBursts s ''p'', trace (world s)))
     (runs recFx (burstEvents @ [EvServeDone ''a'', EvServeDone ''a'']) (poolSched 1 (\<lambda>_. 0))) =
   Some ([3], 3, [Served 1 ''a'', Served 2 ''b'', Served 4 ''a'', Served 5 ''a'', Served 6 ''b''])"
  by code_simp

text \<open>The promoted request is the first cold one in queue order, which priorities can make
  different from the oldest one the fairness bounds are computed from.\<close>

theorem promotion_follows_queue_order:
  "(let s = the (runs recFx (map EvRequest [mkReq ''a'' 1, mkReq ''b'' 2, (mkReq ''c'' 3)\<lparr>queuedAt := Some 5\<rparr>,
                 (mkReq ''d'' 4)\<lparr>queuedAt := Some 9\<rparr>])
              ((poolSched 1 (\<lambda>m. if m = ''d'' then 1 else 0))
                 \<lparr>world := threeModels\<lparr>procStates := procStates threeModels @ [(''d'', StateStopped)],
                     evictions := (''d'', [''a'', ''b'']) # evictions threeModels\<rparr>,
                  residentBursts := (\<lambda>_. 1)\<rparr>))
    in (map_option Respond (oldestCold recFx s ''p''), map Respond (fst (fairOrder recFx (queued s) s)))) =
   (Some 3, [4, 3])"
  by code_simp

end
