(* ===== verification/Scheduler_Exit.thy ===== *)
theory Scheduler_Exit
  imports Scheduler_Props
begin

text \<open>
  How requests leave the scheduler other than by being served: cancellation, unloading,
  shutdown, and the report of a swap.
\<close>

section \<open>What a drain may touch\<close>

lemma release_active: "release m s = Some t \<Longrightarrow> active t = active s"
  by (auto simp: release_def split: if_splits)

lemma grantError_active: "grantError fx r e s = Some t \<Longrightarrow> active t = active s"
  by (auto simp: grantError_def dest: release_active split: Option.bind_splits)

lemma grantHandler_active: "grantHandler fx r m s = Some t \<Longrightarrow> active t = active s"
  by (auto simp: grantHandler_def Let_def onWorld_def dest!: release_active split: if_splits prod.splits)

definition swapKeys :: "'w FIFO \<Rightarrow> string set" where
  "swapKeys s = fst ` set (active s)"

lemma swapKeys_joinSwap: "swapKeys (joinSwap m r s) = swapKeys s"
  unfolding swapKeys_def by (metis joinSwap_fields(6) set_map)

lemma swapKeys_startSwap: "swapKeys (startSwap fx r ev run s) = insert (Model r) (swapKeys s)"
  by (simp add: swapKeys_def startSwap_def Let_def onWorld_def AList.dom_update)

lemma swapKeys_grants:
  "grantError fx r e s = Some t \<Longrightarrow> swapKeys t = swapKeys s"
  "grantHandler fx r m s = Some t \<Longrightarrow> swapKeys t = swapKeys s"
  by (simp_all add: swapKeys_def grantError_active grantHandler_active)

lemma swapKeys_core [simp]:
  "swapKeys (queueDone fx r s) = swapKeys s" "swapKeys (recordResidentAdmission fx m s) = swapKeys s"
  "swapKeys (broadcastQueuePositions s) = swapKeys s" "swapKeys (s\<lparr>queued := q\<rparr>) = swapKeys s"
  "swapKeys (onWorld f s) = swapKeys s"
  by (simp_all add: swapKeys_def)

lemma drainLoop_touches:
  "drainLoop fx pend rem s = Some (rem', s') \<Longrightarrow>
   set rem' \<subseteq> set rem \<union> set pend \<and> swapKeys s' \<subseteq> swapKeys s \<union> Model ` set pend"
proof (induction pend arbitrary: rem s)
  case (Cons r pend)
  have *: "set rem' \<subseteq> insert r (set rem \<union> set pend) \<and> swapKeys s' \<subseteq> insert (Model r) (swapKeys s \<union> Model ` set pend)"
    if "drainLoop fx pend rem1 t = Some (rem', s')" "set rem1 \<subseteq> insert r (set rem)"
      "swapKeys t \<subseteq> insert (Model r) (swapKeys s)" for rem1 t
    using Cons.IH [OF that(1)] that(2,3) by blast
  have "\<exists>rem1 t. drainLoop fx pend rem1 t = Some (rem', s') \<and> set rem1 \<subseteq> insert r (set rem) \<and>
      swapKeys t \<subseteq> insert (Model r) (swapKeys s)"
    using Cons.prems swapKeys_grants
    by (fastforce simp: Let_def swapKeys_startSwap swapKeys_joinSwap
        split: option.splits if_splits Option.bind_splits)
  with * show ?case by auto
qed simp

lemma drainQueue_touches:
  assumes "drainQueue fx s = Some s'"
  shows "set (queued s') \<subseteq> set (queued s) \<and>
    swapKeys s' \<subseteq> swapKeys s \<union> Model ` set (queued s)"
proof (cases "queued s = []")
  case True
  with assms show ?thesis by (auto simp: drainQueue_def)
next
  case False
  obtain pend s1 where fo: "fairOrder fx (queued s) s = (pend, s1)" by force
  have "mset pend = mset (queued s)" "core s1 = core s"
    using fo mset_fairOrder [of fx "queued s" s] core_fairOrder [of fx "queued s" s] by auto
  then have set: "set pend = set (queued s)" and act: "active s1 = active s"
    by (metis set_mset_mset) (rule core_fields, fact)
  from assms False fo obtain rem s2 where
    "drainLoop fx pend [] s1 = Some (rem, s2)" "s' = broadcastQueuePositions (s2\<lparr>queued := rem\<rparr>)"
    by (auto simp: drainQueue_def split: Option.bind_splits)
  with drainLoop_touches [of fx pend "[]" s1 rem s2] set act show ?thesis
    by (auto simp: swapKeys_def)
qed

section \<open>Cancellation\<close>

lemma allWaiters_filter_cnt:
  "cnt m (filter P rs) = cnt m rs - cnt m (filter (Not \<circ> P) rs)"
  by (induction rs) auto

text \<open>A cancelled request leaves no trace: it is in no queue and no swap, its reservations and
  only those are returned, and no swap is started, stopped or retargeted for it.\<close>

theorem cancel_forgets_the_request:
  assumes "sched_reach fx s" "OnCancel fx req s = Some s'"
  shows "Respond req \<notin> Respond ` set (queued s' @ allWaiters (active s')) \<and>
    map fst (active s') = map fst (active s) \<and>
    map (evict \<circ> snd) (active s') = map (evict \<circ> snd) (active s) \<and>
    inFlight s' = inFlight s \<and>
    reserved s' m = reserved s m -
      cnt m (filter (\<lambda>q. Respond q = Respond req) (queued s @ allWaiters (active s)))"
proof -
  have inv: "sched_inv (queued s) s" using fifo_okD(1) [OF sched_reach_ok [OF assms(1)]] .
  from OnCancel_state [OF inv, of fx req] assms(2) have s':
    "sched_inv (queued s') s'" "queued s' = filter (\<lambda>q. Respond q \<noteq> Respond req) (queued s)"
    "active s' = withoutReq (Respond req) (active s)" "inFlight s' = inFlight s" by auto
  have W: "allWaiters (active s') = filter (\<lambda>q. Respond q \<noteq> Respond req) (allWaiters (active s))"
    using s'(3) by (simp add: allWaiters_without)
  have "reserved s' m = inFlight s m + cnt m (queued s') + cnt m (allWaiters (active s'))"
    using sched_invD(1) [OF s'(1), of m] s'(4) by simp
  then have "reserved s' m = reserved s m -
      cnt m (filter (\<lambda>q. Respond q = Respond req) (queued s @ allWaiters (active s)))"
    using sched_invD(1) [OF inv, of m]
      allWaiters_filter_cnt [of m "\<lambda>q. Respond q \<noteq> Respond req" "queued s"]
      allWaiters_filter_cnt [of m "\<lambda>q. Respond q \<noteq> Respond req" "allWaiters (active s)"]
    by (simp add: s'(2) W comp_def)
  then show ?thesis using s' W by (auto simp: withoutReq_def comp_def case_prod_beta)
qed

theorem cancel_forgets_the_request_witness:
  "\<exists>s'. OnCancel recFx (mkReq ''b'' 2) waiting2 = Some s' \<and>
     2 \<notin> Respond ` set (queued s' @ allWaiters (active s'))"
proof -
  from OnCancel_ok [OF sched_reach_ok [OF waiting2_reach], of recFx "mkReq ''b'' 2"] obtain s' where
    "OnCancel recFx (mkReq ''b'' 2) waiting2 = Some s'" by blast
  with cancel_forgets_the_request [OF waiting2_reach this] show ?thesis by (auto simp: mkReq_def)
qed

section \<open>Unloading\<close>

text \<open>After an unload the scheduler holds no request for an unloaded model and runs no swap
  towards one, even though the drain at its end may have started other swaps.\<close>

theorem unload_releases_the_targets:
  assumes "sched_reach fx s" "OnUnload fx targets timeout s = Some s'"
  shows "(\<forall>r \<in> set (queued s'). Model r \<notin> set targets) \<and>
    (\<forall>m \<in> set targets. map_of (active s') m = None)"
proof -
  have ok: "fifo_ok s" using sched_reach_ok [OF assms(1)] .
  let ?err = "ErrText (name s @ '': model unloaded'')"
  let ?kept = "filter (\<lambda>w. Model w \<notin> set targets) (queued s)"
  from unloadSwaps_ok [OF fifo_okD(1) [OF ok], of fx ?err "remdups targets"] obtain t where
    t: "fold_opt (unloadSwap fx ?err) (remdups targets) s = Some t" "sched_inv (queued s) t"
    "queued t = queued s" "\<forall>i \<in> set targets. map_of (active t) i = None" by auto
  from t(2) have "racct (queued s @ allWaiters (active t)) t" by (simp add: sched_inv_racct)
  from dropQueued_ok [OF this, of fx ?err targets] obtain u where
    u: "dropQueued fx ?err targets (queued s) t = Some (?kept, u)" "frame u = frame t" by blast
  let ?v = "onWorld (StopProcesses fx timeout targets) (u\<lparr>queued := ?kept\<rparr>)"
  have "drainQueue fx ?v = Some s'" using assms(2) t(1,3) u(1) by (simp add: OnUnload_def)
  from drainQueue_touches [OF this] frame_fields [OF u(2)]
  have q: "set (queued s') \<subseteq> set ?kept" "swapKeys s' \<subseteq> swapKeys t \<union> Model ` set ?kept"
    by (auto simp: swapKeys_def)
  have "m \<notin> swapKeys s'" if "m \<in> set targets" for m
  proof -
    have "m \<notin> swapKeys t" using t(4) that by (simp add: swapKeys_def map_of_eq_None_iff)
    moreover have "m \<notin> Model ` set ?kept" using that by auto
    ultimately show ?thesis using q(2) by blast
  qed
  with q(1) show ?thesis by (auto simp: swapKeys_def map_of_eq_None_iff)
qed

theorem unload_releases_the_targets_witness:
  "\<exists>s'. OnUnload recFx [''b''] 0 waiting2 = Some s' \<and> filter (\<lambda>r. Model r = ''b'') (queued s') = []"
proof -
  from OnUnload_ok [OF sched_reach_ok [OF waiting2_reach], of recFx "[''b'']" 0] obtain s' where
    s': "OnUnload recFx [''b''] 0 waiting2 = Some s'" by blast
  from unload_releases_the_targets [OF waiting2_reach s']
  have "filter (\<lambda>r. Model r = ''b'') (queued s') = []" by (simp add: filter_empty_conv)
  with s' show ?thesis by blast
qed

text \<open>The report of a swap is matched by model name alone: after an unload cancelled a swap,
  the late report of its goroutine ends the next swap of the same model, and its waiter gets the
  old swap's error while the new swap is still running.\<close>

theorem stale_swap_report_ends_next_swap:
  "map_option (\<lambda>s. (active s, trace (world s)))
     (runs recFx [EvRequest (mkReq ''b'' 1), EvUnload [''b''] 0, EvRequest (mkReq ''b'' 2),
                  EvSwapDone ''b'' (Some (ErrText ''aborted''))] fresh) =
   Some ([], [Started ''b'' [''a''], Failed 1 (ErrText ''r: model unloaded''), Stopped [''b''],
              Started ''b'' [''a''], Failed 2 (ErrText ''aborted'')])"
  by code_simp

section \<open>Shutdown\<close>

text \<open>Shutdown answers every request the scheduler still holds, exactly once per held request,
  and leaves reservations only for requests being served.\<close>

theorem shutdown_releases_all:
  assumes "sched_reach fx s"
  shows "\<exists>s'. OnShutdown fx err s = Some s' \<and> reserved s' = inFlight s' \<and> inFlight s' = inFlight s"
  by (rule OnShutdown_ok [OF sched_reach_ok [OF assms]])

theorem shutdown_releases_all_witness:
  "\<exists>s'. OnShutdown recFx (ErrText ''bye'') waiting2 = Some s' \<and> reserved s' = inFlight s' \<and>
     inFlight s' = inFlight waiting2"
  by (rule shutdown_releases_all [OF waiting2_reach])

end
