(* ===== verification/Provider_Manager.thy ===== *)
theory Provider_Manager
  imports Config_Types
begin

text \<open>
  The provider manager of \<^verbatim>\<open>internal/provider/registry.go\<close>. Its lifecycle transitions (load,
  unload, restore) run one at a time under \<^verbatim>\<open>opMu\<close>; leases, demand and queue counters change
  concurrently with them, under \<^verbatim>\<open>mu\<close> only. A transition is a function over the manager; at
  every point where it does not hold \<^verbatim>\<open>mu\<close>, what other goroutines do is a list of concurrent
  operations the world supplies. The provider's HTTP client is a parameter. Recorded durations
  and log lines are left out.
\<close>

section \<open>Data\<close>

text \<open>The empty state of an alias the manager does not know is \<open>None\<close>.\<close>

datatype ModelState = Unloaded | Loading | Ready | Busy | Draining | Unloading | Failed

record ResidentModel =
  rmName :: string
  rmType :: string
  rmStatus :: string
  rmPinned :: bool
  rmLoaded :: "bool option"

record Health =
  hStatus :: string
  AllModelsLoaded :: "ResidentModel list"
  MaxModels :: "string \<rightharpoonup> int"

record displacedModel =
  dAlias :: string
  dModel :: string
  WasPinned :: bool
  dPriority :: int

datatype concurrent =
    ConcAcquire string
  | ConcRelease string
  | ConcQueueDelta string int
  | ConcLoadArrives string
  | ConcLoadLeaves string
  | ConcBeginSwap string "string list"

record 'w Lifecycle =
  clHealth :: "'w \<Rightarrow> (error + Health) \<times> 'w"
  clDiscover :: "'w \<Rightarrow> (error + string list) \<times> 'w"
  clLoad :: "string \<Rightarrow> bool \<Rightarrow> 'w \<Rightarrow> error option \<times> 'w"
  clUnload :: "string \<Rightarrow> 'w \<Rightarrow> error option \<times> 'w"
  clUnloadAll :: "'w \<Rightarrow> error option \<times> 'w"
  clPin :: "string \<Rightarrow> bool \<Rightarrow> 'w \<Rightarrow> error option \<times> 'w"
  Cancelled :: "'w \<Rightarrow> bool"
  Meanwhile :: "'w \<Rightarrow> concurrent list \<times> 'w"

record 'w Manager =
  mname :: string
  bindings :: "(string \<times> ModelConfig) list"
  mpools :: "(string \<times> LifecyclePoolConfig) list"
  health :: Health
  discovered :: "string list"
  healthy :: bool
  lastError :: string
  mstates :: "string \<rightharpoonup> ModelState"
  owned :: "string \<Rightarrow> bool"
  mactive :: counter
  mqueued :: counter
  demand :: counter
  transitions :: "string \<rightharpoonup> string"
  displaced :: "string \<Rightarrow> displacedModel list"
  timers :: "string \<rightharpoonup> int"
  corrections :: nat
  coalesced :: nat
  failures :: nat
  residentFirst :: nat
  fairPromotions :: nat
  mworld :: 'w

definition noPool :: LifecyclePoolConfig where
  "noPool = \<lparr>poolProvider = [], Capacity = 0, RestorePreferred = False, TransientIdleTTL = 0,
     ResidentFirst = False, MaxResidentBurst = 0, MaxResidentWait = 0\<rparr>"

definition noHealth :: Health where
  "noHealth = \<lparr>hStatus = [], AllModelsLoaded = [], MaxModels = Map.empty\<rparr>"

text \<open>\<^verbatim>\<open>Error()\<close> of an error value.\<close>

fun errString :: "error \<Rightarrow> string" where
  "errString (ProviderError p c msg st) = ''provider '' @ p @ '': '' @ msg"
| "errString (ErrText t) = t"
| "errString ErrNoLocalModelFound = ''no local model found''"
| "errString ConcurrencyLimitError = ''Too many requests''"

section \<open>Queries\<close>

definition Binding :: "string \<Rightarrow> 'w Manager \<Rightarrow> ModelConfig option" where
  "Binding a m = map_of (bindings m) a"

definition MState :: "string \<Rightarrow> 'w Manager \<Rightarrow> ModelState option" where
  "MState a m = mstates m a"

definition poolOf :: "string \<Rightarrow> 'w Manager \<Rightarrow> LifecyclePoolConfig" where
  "poolOf p m = (case map_of (mpools m) p of Some pl \<Rightarrow> pl | None \<Rightarrow> noPool)"

definition isResident :: "'w Manager \<Rightarrow> string \<Rightarrow> bool" where
  "isResident m a \<longleftrightarrow> mstates m a \<noteq> Some Unloaded \<and> mstates m a \<noteq> Some Failed"

definition ResidentAliases :: "string \<Rightarrow> 'w Manager \<Rightarrow> string list" where
  "ResidentAliases pool m =
     sort (map fst (filter (\<lambda>(a, b). LifecyclePool b = pool \<and> isResident m a) (bindings m)))"

definition ResidentAliasesAll :: "'w Manager \<Rightarrow> string list" where
  "ResidentAliasesAll m = sort (map fst (filter (\<lambda>(a, b). isResident m a) (bindings m)))"

definition isLLM :: "ResidentModel \<Rightarrow> bool" where
  "isLLM r \<longleftrightarrow> rmType r = [] \<or> rmType r = ''llm''"

definition ResidentLLMAliases :: "string \<Rightarrow> 'w Manager \<Rightarrow> string list" where
  "ResidentLLMAliases pool m =
     (let residentLLMs = map rmName (filter isLLM (AllModelsLoaded (health m))) in
      sort (map fst (filter (\<lambda>(a, b). LifecyclePool b = pool \<and> List.member residentLLMs (ProviderModel b) \<and>
        isResident m a) (bindings m))))"

definition OccupiedLLM :: "'w Manager \<Rightarrow> int" where
  "OccupiedLLM m = int (length (filter isLLM (AllModelsLoaded (health m))))"

definition hasDemand :: "string \<Rightarrow> 'w Manager \<Rightarrow> bool" where
  "hasDemand a m \<longleftrightarrow> 0 < demand m a"

section \<open>Leases, counters and displaced models\<close>

definition Acquire :: "string \<Rightarrow> 'w Manager \<Rightarrow> bool \<times> 'w Manager" where
  "Acquire a m =
     (if mstates m a \<noteq> Some Ready \<and> mstates m a \<noteq> Some Busy then (False, m)
      else (True, m\<lparr>timers := (timers m)(a := None), mactive := bump a 1 (mactive m),
                    mstates := (if mstates m a = Some Ready then (mstates m)(a \<mapsto> Busy) else mstates m)\<rparr>))"

definition Release :: "string \<Rightarrow> 'w Manager \<Rightarrow> 'w Manager" where
  "Release a m =
     (case Binding a m of
        None \<Rightarrow> m
      | Some b \<Rightarrow>
          (let m1 = (if 0 < mactive m a then m\<lparr>mactive := bump a (-1) (mactive m)\<rparr> else m);
               m2 = (if mactive m1 a = 0 \<and> mstates m1 a = Some Busy
                     then m1\<lparr>mstates := (mstates m1)(a \<mapsto> Ready)\<rparr> else m1);
               pool = poolOf (LifecyclePool b) m2;
               shouldRestore = (Residency b = ResidencyTransient \<and> RestorePreferred pool \<and>
                 displaced m2 a \<noteq> [] \<and> mactive m2 a = 0)
           in if shouldRestore then m2\<lparr>timers := (timers m2)(a \<mapsto> TransientIdleTTL pool)\<rparr> else m2))"

definition MQueueDelta :: "string \<Rightarrow> int \<Rightarrow> 'w Manager \<Rightarrow> 'w Manager" where
  "MQueueDelta a d m =
     (let m1 = m\<lparr>mqueued := bump a d (mqueued m)\<rparr>
      in if mqueued m1 a < 0 then m1\<lparr>mqueued := (mqueued m1)(a := 0)\<rparr> else m1)"

definition MResidentAdmission :: "'w Manager \<Rightarrow> 'w Manager" where
  "MResidentAdmission m = m\<lparr>residentFirst := residentFirst m + 1\<rparr>"

definition MFairnessPromotion :: "'w Manager \<Rightarrow> 'w Manager" where
  "MFairnessPromotion m = m\<lparr>fairPromotions := fairPromotions m + 1\<rparr>"

fun displaceVictims :: "'w Manager \<Rightarrow> string list \<Rightarrow> displacedModel list \<Rightarrow> string list \<Rightarrow> displacedModel list" where
  "displaceVictims m [] ds seen = ds"
| "displaceVictims m (v # vs) ds seen =
     (case map_of (bindings m) v of
        None \<Rightarrow> displaceVictims m vs ds seen
      | Some b \<Rightarrow>
          if Residency b \<noteq> ResidencyPreferred \<or> v \<in> set seen then displaceVictims m vs ds seen
          else displaceVictims m vs
                 (ds @ [\<lparr>dAlias = v, dModel = ProviderModel b,
                         WasPinned = (case find (\<lambda>r. rmName r = ProviderModel b) (AllModelsLoaded (health m)) of
                            Some r \<Rightarrow> rmPinned r | None \<Rightarrow> False),
                         dPriority = ResidencyPriority b\<rparr>])
                 (seen @ [v]))"

definition displacedKey :: "displacedModel \<Rightarrow> int \<times> string" where
  "displacedKey d = (dPriority d, dAlias d)"

definition displacedLess :: "displacedModel \<Rightarrow> displacedModel \<Rightarrow> bool" where
  "displacedLess a b = (if dPriority a \<noteq> dPriority b then dPriority a < dPriority b else dAlias a < dAlias b)"

definition BeginSwap :: "string \<Rightarrow> string list \<Rightarrow> 'w Manager \<Rightarrow> 'w Manager" where
  "BeginSwap target victims m =
     (case Binding target m of
        None \<Rightarrow> m
      | Some b \<Rightarrow>
          if Residency b \<noteq> ResidencyTransient then m
          else m\<lparr>displaced := (displaced m)(target :=
                 sortBy displacedLess
                   (displaceVictims m victims (displaced m target) (map dAlias (displaced m target))))\<rparr>)"

section \<open>Interference and client calls\<close>

definition loadArrives :: "string \<Rightarrow> 'w Manager \<Rightarrow> 'w Manager" where
  "loadArrives a m = m\<lparr>demand := bump a 1 (demand m), timers := (timers m)(a := None)\<rparr>"

definition loadLeaves :: "string \<Rightarrow> 'w Manager \<Rightarrow> 'w Manager" where
  "loadLeaves a m = m\<lparr>demand := bump a (-1) (demand m)\<rparr>"

fun interfere :: "concurrent \<Rightarrow> 'w Manager \<Rightarrow> 'w Manager" where
  "interfere (ConcAcquire a) m = snd (Acquire a m)"
| "interfere (ConcRelease a) m = Release a m"
| "interfere (ConcQueueDelta a d) m = MQueueDelta a d m"
| "interfere (ConcLoadArrives a) m = (if Binding a m = None then m else loadArrives a m)"
| "interfere (ConcLoadLeaves a) m = loadLeaves a m"
| "interfere (ConcBeginSwap t vs) m = BeginSwap t vs m"

definition gap :: "'w Lifecycle \<Rightarrow> 'w Manager \<Rightarrow> 'w Manager" where
  "gap cl m = (let (cs, w) = Meanwhile cl (mworld m) in fold interfere cs (m\<lparr>mworld := w\<rparr>))"

definition call :: "'w Lifecycle \<Rightarrow> ('w \<Rightarrow> 'r \<times> 'w) \<Rightarrow> 'w Manager \<Rightarrow> 'r \<times> 'w Manager" where
  "call cl f m = (let m0 = gap cl m; (r, w) = f (mworld m0) in (r, gap cl (m0\<lparr>mworld := w\<rparr>)))"

section \<open>Reconciliation\<close>

definition residentReady :: "ResidentModel \<Rightarrow> bool" where
  "residentReady r \<longleftrightarrow> rmLoaded r \<noteq> Some False \<and> List.member ['''', ''ready'', ''loaded''] (rmStatus r)"

definition residentMap :: "Health \<Rightarrow> string \<rightharpoonup> ResidentModel" where
  "residentMap h = map_of (rev (map (\<lambda>r. (rmName r, r)) (AllModelsLoaded h)))"

definition observed :: "Health \<Rightarrow> ModelConfig \<Rightarrow> ModelState" where
  "observed h b =
     (case residentMap h (ProviderModel b) of
        None \<Rightarrow> Unloaded
      | Some r \<Rightarrow>
          if rmStatus r = ''loading'' then Loading
          else if rmStatus r = ''unloading'' \<or> rmStatus r = ''evicting'' then Unloading
          else if rmStatus r = ''failed'' \<or> rmStatus r = ''error'' then Failed
          else if residentReady r then Ready else Unloaded)"

definition nextState :: "Health \<Rightarrow> 'w Manager \<Rightarrow> string \<Rightarrow> ModelConfig \<Rightarrow> ModelState" where
  "nextState h m a b = (if 0 < mactive m a \<and> observed h b = Ready then Busy else observed h b)"

definition observeBinding :: "Health \<Rightarrow> string \<times> ModelConfig \<Rightarrow> 'w Manager \<Rightarrow> 'w Manager" where
  "observeBinding h ab m =
     (case ab of (a, b) \<Rightarrow>
       let old = mstates m a; next = nextState h m a b in
       m\<lparr>corrections := (if old \<noteq> Some next \<and> old \<noteq> None then corrections m + 1 else corrections m),
         mstates := (mstates m)(a \<mapsto> next)\<rparr>)"

definition applyHealth :: "Health \<Rightarrow> 'w Manager \<Rightarrow> 'w Manager" where
  "applyHealth h m =
     (fold (observeBinding h) (bindings m) m)\<lparr>health := h, healthy := True, lastError := []\<rparr>"

definition validateLemonadeHealth :: "string \<Rightarrow> Health \<Rightarrow> error option" where
  "validateLemonadeHealth n h =
     (if hStatus h \<noteq> ''ok'' then Some (ErrText (''provider '' @ n @ '' did not report healthy status'')) else None)"

definition unhealthy :: "error \<Rightarrow> 'w Manager \<Rightarrow> 'w Manager" where
  "unhealthy e m = m\<lparr>healthy := False, lastError := errString e\<rparr>"

definition reconcileLocked :: "'w Lifecycle \<Rightarrow> bool \<Rightarrow> 'w Manager \<Rightarrow> error option \<times> 'w Manager" where
  "reconcileLocked cl discover m =
     (case call cl (clHealth cl) m of
        (Inl e, m1) \<Rightarrow> (Some e, unhealthy e m1)
      | (Inr h, m1) \<Rightarrow>
          (case validateLemonadeHealth (mname m1) h of
             Some e \<Rightarrow> (Some e, m1)
           | None \<Rightarrow>
               if \<not> discover then (None, applyHealth h m1)
               else (case call cl (clDiscover cl) m1 of
                       (Inl e, m2) \<Rightarrow> (Some e, unhealthy e m2)
                     | (Inr ids, m2) \<Rightarrow> (None, (applyHealth h m2)\<lparr>discovered := sort ids\<rparr>))))"

definition setTransition :: "string \<Rightarrow> string \<Rightarrow> 'w Manager \<Rightarrow> 'w Manager" where
  "setTransition a t m =
     (let m1 = m\<lparr>transitions := (transitions m)(a \<mapsto> t)\<rparr> in
      if t = ''loading'' then m1\<lparr>mstates := (mstates m1)(a \<mapsto> Loading)\<rparr>
      else if t = ''unloading'' then m1\<lparr>mstates := (mstates m1)(a \<mapsto> Unloading)\<rparr> else m1)"

definition setFailed :: "string \<Rightarrow> error \<Rightarrow> 'w Manager \<Rightarrow> 'w Manager" where
  "setFailed a e m =
     m\<lparr>failures := failures m + 1, mstates := (mstates m)(a \<mapsto> Failed),
       transitions := (transitions m)(a \<mapsto> ''failed/backoff''), lastError := errString e\<rparr>"

definition validateCapacity :: "'w Manager \<Rightarrow> error option" where
  "validateCapacity m =
     (case MaxModels (health m) ''llm'' of
        None \<Rightarrow> None
      | Some maxLLM \<Rightarrow>
          if maxLLM < 0 then None
          else (case find (\<lambda>(n, pool). maxLLM < Capacity pool) (mpools m) of
                  None \<Rightarrow> None
                | Some (n, pool) \<Rightarrow> Some (ErrText (''lifecyclePools.'' @ n @ ''.capacity='' @ Itoa (Capacity pool) @
                    '' exceeds provider '' @ mname m @ '' observed llm capacity='' @ Itoa maxLLM))))"

section \<open>Transitions\<close>

definition pinFor :: "ModelConfig \<Rightarrow> bool" where
  "pinFor b \<longleftrightarrow> Residency b = ResidencyHardPinned \<or> Residency b = ResidencyPreferred"

text \<open>The part of \<^verbatim>\<open>Load\<close> under \<^verbatim>\<open>opMu\<close>.\<close>

definition loadLocked :: "'w Lifecycle \<Rightarrow> string \<Rightarrow> ModelConfig \<Rightarrow> 'w Manager \<Rightarrow> error option \<times> 'w Manager" where
  "loadLocked cl a b m =
     (case reconcileLocked cl False m of
        (Some e, m1) \<Rightarrow> (Some e, m1)
      | (None, m1') \<Rightarrow>
     (let m1 = gap cl m1' in
      if MState a m1 = Some Ready then (None, m1\<lparr>coalesced := coalesced m1 + 1\<rparr>)
      else if Residency b = ResidencyExternal
      then (Some (ProviderError (mname m1) ''external_model_not_resident''
              ''externally managed model is not resident'' 409), m1)
      else if OccupiedLLM m1 \<ge> Capacity (poolOf (LifecyclePool b) m1)
      then (Some (ProviderError (mname m1) ''no_evictable_capacity''
              ''provider capacity is occupied by pinned or externally owned models'' 409), m1)
      else
        case call cl (clLoad cl (ProviderModel b) (pinFor b)) (setTransition a ''loading'' (gap cl m1)) of
          (Some e, m2) \<Rightarrow> (Some e, setFailed a e m2)
        | (None, m2) \<Rightarrow>
            (case reconcileLocked cl False m2 of
               (Some e, m3) \<Rightarrow> (Some e, setFailed a e (gap cl m3))
             | (None, m3') \<Rightarrow>
                 (let m3 = gap cl m3' in
                  if MState a m3 \<noteq> Some Ready
                  then let e = ProviderError (mname m3) ''model_not_ready''
                                 ''provider completed load but model is not ready'' 0
                       in (Some e, setFailed a e (gap cl m3))
                  else let m4 = gap cl m3 in
                       (None, m4\<lparr>owned := (owned m4)(a := True), transitions := (transitions m4)(a := None)\<rparr>)))))"

definition Load :: "'w Lifecycle \<Rightarrow> string \<Rightarrow> 'w Manager \<Rightarrow> error option \<times> 'w Manager" where
  "Load cl a m =
     (case Binding a m of
        None \<Rightarrow> (Some (ProviderError (mname m) ''model_not_configured'' ''model is not configured on provider'' 0), m)
      | Some b \<Rightarrow>
          (let (r, m1) = loadLocked cl a b (gap cl (loadArrives a m)) in (r, loadLeaves a (gap cl m1))))"

definition Unload :: "'w Lifecycle \<Rightarrow> string \<Rightarrow> 'w Manager \<Rightarrow> error option \<times> 'w Manager" where
  "Unload cl a m =
     (case Binding a m of
        None \<Rightarrow> (None, m)
      | Some b \<Rightarrow>
     (case reconcileLocked cl False (gap cl m) of
        (Some e, m1) \<Rightarrow> (Some e, m1)
      | (None, m1') \<Rightarrow>
     (let m1 = gap cl m1' in
      if 0 < mactive m1 a
      then (Some (ProviderError (mname m1) ''model_busy'' ''model still has active requests'' 409), m1)
      else if MState a m1 = Some Unloaded then (None, m1)
      else if Residency b = ResidencyExternal \<and> \<not> owned m1 a
      then (Some (ProviderError (mname m1) ''externally_owned'' ''refusing to unload an externally owned model'' 409), m1)
      else
        let m2 = setTransition a ''unloading'' (gap cl m1);
            (pinErr, m3) = (if Residency b = ResidencyPreferred
                            then call cl (clPin cl (ProviderModel b) False) m2 else (None, m2))
        in case pinErr of
             Some e \<Rightarrow> (Some e, setFailed a e m3)
           | None \<Rightarrow>
        (case call cl (clUnload cl (ProviderModel b)) m3 of
           (Some e, m4) \<Rightarrow> (Some e, setFailed a e m4)
         | (None, m4) \<Rightarrow>
        (case reconcileLocked cl False m4 of
           (Some e, m5) \<Rightarrow> (Some e, setFailed a e (gap cl m5))
         | (None, m5') \<Rightarrow>
             (let m5 = gap cl m5' in
              (None, m5\<lparr>owned := (owned m5)(a := False), mstates := (mstates m5)(a \<mapsto> Unloaded),
                        transitions := (transitions m5)(a := None)\<rparr>)))))))"

definition forgetBinding :: "string \<times> ModelConfig \<Rightarrow> 'w Manager \<Rightarrow> 'w Manager" where
  "forgetBinding ab m =
     (case ab of (a, b) \<Rightarrow>
       m\<lparr>owned := (owned m)(a := False), mstates := (mstates m)(a \<mapsto> Unloaded),
         transitions := (transitions m)(a := None), displaced := (displaced m)(a := [])\<rparr>)"

definition UnloadAll :: "'w Lifecycle \<Rightarrow> 'w Manager \<Rightarrow> error option \<times> 'w Manager" where
  "UnloadAll cl m =
     (case reconcileLocked cl False (gap cl m) of
        (Some e, m1) \<Rightarrow> (Some e, m1)
      | (None, m1) \<Rightarrow>
     (case call cl (clUnloadAll cl) m1 of
        (Some e, m2) \<Rightarrow> (Some e, m2\<lparr>lastError := errString e\<rparr>)
      | (None, m2) \<Rightarrow>
     (case reconcileLocked cl False m2 of
        (Some e, m3) \<Rightarrow> (Some e, m3\<lparr>lastError := errString e\<rparr>)
      | (None, m3') \<Rightarrow>
          (let m3 = gap cl m3' in (None, fold forgetBinding (bindings m3) m3)))))"

section \<open>Restoration\<close>

text \<open>The idle timer of a transient model fires: its preferred predecessors are loaded again.\<close>

definition resumeDemandedTransient :: "'w Lifecycle \<Rightarrow> string \<Rightarrow> ModelConfig \<Rightarrow> 'w Manager \<Rightarrow> bool \<times> 'w Manager" where
  "resumeDemandedTransient cl t b m0 =
     (let m = gap cl m0 in
      if \<not> hasDemand t m then (False, m)
      else let m1 = gap cl m;
               resumed = (\<lambda>m. (True, m\<lparr>mstates := (mstates m)(t \<mapsto> Ready), transitions := (transitions m)(t := None)\<rparr>))
           in if MState t m1 \<noteq> Some Unloaded then resumed (gap cl m1)
              else (case call cl (clLoad cl (ProviderModel b) False) m1 of
                      (Some e, m2) \<Rightarrow> (True, setFailed t e m2)
                    | (None, m2) \<Rightarrow>
                        (case reconcileLocked cl False m2 of
                           (Some e, m3) \<Rightarrow> (True, setFailed t e m3)
                         | (None, m3) \<Rightarrow> resumed (gap cl m3))))"

datatype attempt = Loaded | GaveUp error | Resumed | Stopped

fun restoreAttempts :: "'w Lifecycle \<Rightarrow> string \<Rightarrow> ModelConfig \<Rightarrow> displacedModel \<Rightarrow> ModelConfig \<Rightarrow> nat \<Rightarrow> error \<Rightarrow>
    'w Manager \<Rightarrow> attempt \<times> 'w Manager" where
  "restoreAttempts cl t b item mc 0 lastErr m = (GaveUp lastErr, m)"
| "restoreAttempts cl t b item mc (Suc n) lastErr m =
     (case resumeDemandedTransient cl t b m of
        (True, m1) \<Rightarrow> (Resumed, m1)
      | (False, m1) \<Rightarrow>
          (case call cl (clLoad cl (ProviderModel mc) (WasPinned item \<or> Residency mc = ResidencyPreferred)) m1 of
             (None, m2) \<Rightarrow> (Loaded, m2)
           | (Some e, m2) \<Rightarrow>
               if Cancelled cl (mworld m2) then (Stopped, m2)
               else restoreAttempts cl t b item mc n e m2))"

fun restoreItems :: "'w Lifecycle \<Rightarrow> string \<Rightarrow> ModelConfig \<Rightarrow> displacedModel list \<Rightarrow> 'w Manager \<Rightarrow> bool \<times> 'w Manager" where
  "restoreItems cl t b [] m = (True, m)"
| "restoreItems cl t b (item # items) m =
     (case resumeDemandedTransient cl t b m of
        (True, m1) \<Rightarrow> (False, m1)
      | (False, m1') \<Rightarrow>
     (let m1 = gap cl m1' in
      case Binding (dAlias item) m1 of
        None \<Rightarrow> restoreItems cl t b items m1
      | Some mc \<Rightarrow>
          if OccupiedLLM m1 \<ge> Capacity (poolOf (LifecyclePool mc) m1)
          then (False, setFailed (dAlias item) (ProviderError (mname m1) ''restoration_capacity_blocked''
                  ''preferred restoration is blocked by external provider residency'' 409) m1)
          else
     (case restoreAttempts cl t b item mc 3 (ErrText []) m1 of
        (Resumed, m2) \<Rightarrow> (False, m2)
      | (Stopped, m2) \<Rightarrow> (False, m2)
      | (GaveUp e, m2) \<Rightarrow> (False, setFailed (dAlias item) e m2)
      | (Loaded, m2) \<Rightarrow>
     (case reconcileLocked cl False m2 of
        (Some e, m3) \<Rightarrow> (False, setFailed (dAlias item) e (gap cl m3))
      | (None, m3') \<Rightarrow>
          (let m3 = gap cl m3' in
           if hasDemand t m3
           then (let m4 = snd (call cl (clPin cl (ProviderModel mc) False) m3);
                     m5 = snd (call cl (clUnload cl (ProviderModel mc)) m4);
                     m6 = snd (reconcileLocked cl False m5)
                 in (False, snd (resumeDemandedTransient cl t b m6)))
           else restoreItems cl t b items m3)))))"

definition unloadTransient :: "'w Lifecycle \<Rightarrow> string \<Rightarrow> ModelConfig \<Rightarrow> 'w Manager \<Rightarrow> error option \<times> 'w Manager" where
  "unloadTransient cl t b m =
     (if MState t m = Some Unloaded then (None, m)
      else (case call cl (clUnload cl (ProviderModel b)) m of
              (Some e, m1) \<Rightarrow> (Some e, m1)
            | (None, m1) \<Rightarrow> reconcileLocked cl False m1))"

definition finishRestore :: "string \<Rightarrow> displacedModel list \<Rightarrow> 'w Manager \<Rightarrow> 'w Manager" where
  "finishRestore t ds m =
     m\<lparr>displaced := (displaced m)(t := []), transitions := (transitions m)(t := None),
       mstates := (mstates m)(t \<mapsto> Unloaded),
       owned := fold (\<lambda>item o'. o'(dAlias item := True)) ds (owned m)\<rparr>"

definition restoreDisplaced :: "'w Lifecycle \<Rightarrow> string \<Rightarrow> displacedModel list \<Rightarrow> 'w Manager \<Rightarrow> 'w Manager" where
  "restoreDisplaced cl t ds m =
     (let b = (case Binding t m of Some c \<Rightarrow> c | None \<Rightarrow> zeroModelConfig) in
      case unloadTransient cl t b m of
        (Some e, m1) \<Rightarrow> setFailed t e m1
      | (None, m1) \<Rightarrow>
          (case restoreItems cl t b ds m1 of
             (False, m2) \<Rightarrow> m2
           | (True, m2) \<Rightarrow> finishRestore t ds (gap cl m2)))"

definition restoreDraining :: "'w Lifecycle \<Rightarrow> string \<Rightarrow> displacedModel list \<Rightarrow> 'w Manager \<Rightarrow> 'w Manager" where
  "restoreDraining cl t ds m =
     (case reconcileLocked cl False (gap cl (m\<lparr>mstates := (mstates m)(t \<mapsto> Draining)\<rparr>)) of
        (Some e, m1) \<Rightarrow> setFailed t e m1
      | (None, m1') \<Rightarrow>
          (let m1 = gap cl m1' in
           if 0 < mactive m1 t \<or> hasDemand t m1
           then m1\<lparr>mstates := (mstates m1)(t \<mapsto> Ready), transitions := (transitions m1)(t := None)\<rparr>
           else restoreDisplaced cl t ds (gap cl (m1\<lparr>mstates := (mstates m1)(t \<mapsto> Draining)\<rparr>))))"

definition restore :: "'w Lifecycle \<Rightarrow> string \<Rightarrow> 'w Manager \<Rightarrow> 'w Manager" where
  "restore cl t m0 =
     (let m1 = gap cl m0; m = m1\<lparr>timers := (timers m1)(t := None)\<rparr>; ds = displaced m t in
      if 0 < mactive m t then m
      else if ds = [] then m
      else let m2 = m\<lparr>transitions := (transitions m)(t \<mapsto> ''restoring'')\<rparr> in
           if hasDemand t m2 then m2\<lparr>transitions := (transitions m2)(t := None)\<rparr>
           else restoreDraining cl t ds m2)"

section \<open>Construction\<close>

definition newManager :: "string \<Rightarrow> (string \<times> ModelConfig) list \<Rightarrow> (string \<times> LifecyclePoolConfig) list \<Rightarrow> 'w \<Rightarrow> 'w Manager" where
  "newManager n mods allPools w =
     (let bs = filter (\<lambda>(a, b). Provider b = n) mods in
      \<lparr>mname = n, bindings = bs, mpools = filter (\<lambda>(p, c). poolProvider c = n) allPools,
       health = noHealth, discovered = [], healthy = False, lastError = [],
       mstates = fold (\<lambda>(a, b) st. st(a \<mapsto> Unloaded)) bs Map.empty,
       owned = (\<lambda>_. False), mactive = (\<lambda>_. 0), mqueued = (\<lambda>_. 0), demand = (\<lambda>_. 0),
       transitions = Map.empty, displaced = (\<lambda>_. []), timers = Map.empty, corrections = 0, coalesced = 0,
       failures = 0, residentFirst = 0, fairPromotions = 0, mworld = w\<rparr>)"

text \<open>\<^verbatim>\<open>NewRegistry\<close> for one provider; the registry is the list of its managers.\<close>

definition startManager :: "'w Lifecycle \<Rightarrow> bool \<Rightarrow> 'w Manager \<Rightarrow> error + 'w Manager" where
  "startManager cl required m =
     (case reconcileLocked cl True m of
        (Some e, m1) \<Rightarrow>
          if required then Inl (ErrText (''connecting provider '' @ mname m @ '': '' @ errString e))
          else (case validateCapacity m1 of Some e' \<Rightarrow> Inl e' | None \<Rightarrow> Inr m1)
      | (None, m1) \<Rightarrow> (case validateCapacity m1 of Some e' \<Rightarrow> Inl e' | None \<Rightarrow> Inr m1))"

record 'w Registry =
  managers :: "(string \<times> 'w Manager) list"
  managerOf :: "string \<rightharpoonup> string"

fun startAll :: "(string \<Rightarrow> 'w Lifecycle) \<Rightarrow> (string \<times> ModelConfig) list \<Rightarrow> (string \<times> LifecyclePoolConfig) list \<Rightarrow>
    (string \<times> bool \<times> 'w) list \<Rightarrow> 'w Registry \<Rightarrow> error + 'w Registry" where
  "startAll cls mods allPools [] r = Inr r"
| "startAll cls mods allPools ((n, required, w) # ps) r =
     (let m = newManager n mods allPools w in
      case startManager (cls n) required m of
        Inl e \<Rightarrow> Inl e
      | Inr m1 \<Rightarrow> startAll cls mods allPools ps
                  \<lparr>managers = managers r @ [(n, m1)],
                   managerOf = (\<lambda>a. if map_of (bindings m) a \<noteq> None then Some n else managerOf r a)\<rparr>)"

definition NewRegistry :: "(string \<Rightarrow> 'w Lifecycle) \<Rightarrow> (string \<times> ModelConfig) list \<Rightarrow>
    (string \<times> LifecyclePoolConfig) list \<Rightarrow> (string \<times> bool \<times> 'w) list \<Rightarrow> error + 'w Registry" where
  "NewRegistry cls mods allPools ps = startAll cls mods allPools ps \<lparr>managers = [], managerOf = Map.empty\<rparr>"

definition ManagerForModel :: "string \<Rightarrow> 'w Registry \<Rightarrow> 'w Manager option" where
  "ManagerForModel a r = Option.bind (managerOf r a) (map_of (managers r))"

section \<open>Status\<close>

record Status =
  stName :: string
  stHealthy :: bool
  stLastError :: string
  stDiscovered :: "string list"
  stResident :: "ResidentModel list"
  stDesired :: "string list"
  stQueued :: "string \<rightharpoonup> int"
  stActive :: "string \<rightharpoonup> int"
  stTransitions :: "string \<rightharpoonup> string"
  stRestoring :: "string \<Rightarrow> string list"
  stCorrections :: nat
  stCoalesced :: nat
  stFailed :: nat
  stResidentAdmissions :: nat
  stFairnessPromotions :: nat

definition cloneIntMap :: "counter \<Rightarrow> string \<rightharpoonup> int" where
  "cloneIntMap c = (\<lambda>k. if 0 < c k then Some (c k) else None)"

definition ManagerStatus :: "'w Manager \<Rightarrow> Status" where
  "ManagerStatus m =
     \<lparr>stName = mname m, stHealthy = healthy m, stLastError = lastError m, stDiscovered = discovered m,
      stResident = AllModelsLoaded (health m),
      stDesired = sort (map fst (filter (\<lambda>(a, b). Residency b = ResidencyPreferred \<or>
        Residency b = ResidencyHardPinned) (bindings m))),
      stQueued = cloneIntMap (mqueued m), stActive = cloneIntMap (mactive m), stTransitions = transitions m,
      stRestoring = (\<lambda>t. map dAlias (displaced m t)), stCorrections = corrections m, stCoalesced = coalesced m,
      stFailed = failures m, stResidentAdmissions = residentFirst m, stFairnessPromotions = fairPromotions m\<rparr>"

definition RegistryStatus :: "'w Registry \<Rightarrow> Status list" where
  "RegistryStatus r = sort_key stName (map (ManagerStatus \<circ> snd) (managers r))"

end
