(* ===== verification/Matrix_DSL.thy ===== *)
theory Matrix_DSL
  imports Prelude
begin

text \<open>
  The expression language of \<^verbatim>\<open>internal/matrix/dsl.go\<close>: tokenizer, recursive descent parser
  and tree. Runes are the characters U+0000 to U+00FF, with Go's Unicode classes on that range.
  The parser's recursion is bounded by fuel; three units per token and three more are enough.
\<close>

section \<open>Characters\<close>

definition inRange :: "nat \<Rightarrow> nat \<Rightarrow> char \<Rightarrow> bool" where
  "inRange lo hi c \<longleftrightarrow> lo \<le> (of_char c :: nat) \<and> (of_char c :: nat) \<le> hi"

definition IsSpace :: "char \<Rightarrow> bool" where
  "IsSpace c \<longleftrightarrow> inRange 9 13 c \<or> List.member [32, 133, 160] (of_char c :: nat)"

definition IsLetter :: "char \<Rightarrow> bool" where
  "IsLetter c \<longleftrightarrow> inRange 65 90 c \<or> inRange 97 122 c \<or> List.member [170, 181, 186] (of_char c :: nat) \<or>
     inRange 192 214 c \<or> inRange 216 246 c \<or> inRange 248 255 c"

definition IsDigit :: "char \<Rightarrow> bool" where
  "IsDigit c \<longleftrightarrow> inRange 48 57 c"

definition isIdentChar :: "char \<Rightarrow> bool" where
  "isIdentChar ch \<longleftrightarrow> IsLetter ch \<or> IsDigit ch \<or> ch = CHR ''_'' \<or> ch = CHR ''-'' \<or> ch = CHR ''.''"

definition TrimSpace :: "string \<Rightarrow> string" where
  "TrimSpace s = rev (dropWhile IsSpace (rev (dropWhile IsSpace s)))"

section \<open>Tokens\<close>

datatype token =
  TokIdent string | TokAnd | TokOr | TokLParen | TokRParen | TokRef string | TokEOF

datatype dsl_error =
    EmptyDSL
  | ExpectedSetName nat
  | UnexpectedChar char nat
  | MissingParen
  | UnexpectedToken token
  | TrailingToken token
  | OutOfFuel

definition consTok :: "token \<Rightarrow> dsl_error + token list \<Rightarrow> dsl_error + token list" where
  "consTok t r = (case r of Inl e \<Rightarrow> Inl e | Inr ts \<Rightarrow> Inr (t # ts))"

function tokenizeFrom :: "nat \<Rightarrow> string \<Rightarrow> dsl_error + token list" where
  "tokenizeFrom i [] = Inr [TokEOF]"
| "tokenizeFrom i (ch # rest) =
     (if IsSpace ch then tokenizeFrom (i + 1) rest
      else if ch = CHR ''&'' then consTok TokAnd (tokenizeFrom (i + 1) rest)
      else if ch = CHR ''|'' then consTok TokOr (tokenizeFrom (i + 1) rest)
      else if ch = CHR ''('' then consTok TokLParen (tokenizeFrom (i + 1) rest)
      else if ch = CHR '')'' then consTok TokRParen (tokenizeFrom (i + 1) rest)
      else if ch = CHR ''+'' then
        (let val = takeWhile isIdentChar rest in
         if val = [] then Inl (ExpectedSetName (i + 1))
         else consTok (TokRef val) (tokenizeFrom (i + 1 + length val) (dropWhile isIdentChar rest)))
      else if \<not> isIdentChar ch then Inl (UnexpectedChar ch i)
      else (let val = takeWhile isIdentChar (ch # rest) in
            consTok (TokIdent val)
              (tokenizeFrom (i + length val) (dropWhile isIdentChar (ch # rest)))))"
  by pat_completeness auto
termination
  by (relation "measure (\<lambda>(i, s). length s)")
    (auto simp: le_imp_less_Suc length_dropWhile_le)

definition tokenize :: "string \<Rightarrow> dsl_error + token list" where
  "tokenize input = tokenizeFrom 0 input"

section \<open>Parser\<close>

datatype node = Leaf string | Ref string | And "node list" | Or "node list"

fun peek :: "token list \<Rightarrow> token" where
  "peek [] = TokEOF"
| "peek (t # ts) = t"

fun nextTok :: "token list \<Rightarrow> token \<times> token list" where
  "nextTok [] = (TokEOF, [])"
| "nextTok (t # ts) = (if t = TokEOF then (t, t # ts) else (t, ts))"

fun parseOrExpr :: "nat \<Rightarrow> token list \<Rightarrow> dsl_error + node \<times> token list"
  and parseOrRest :: "nat \<Rightarrow> token list \<Rightarrow> dsl_error + node list \<times> token list"
  and parseAndExpr :: "nat \<Rightarrow> token list \<Rightarrow> dsl_error + node \<times> token list"
  and parseAndRest :: "nat \<Rightarrow> token list \<Rightarrow> dsl_error + node list \<times> token list"
  and parseAtom :: "nat \<Rightarrow> token list \<Rightarrow> dsl_error + node \<times> token list" where
  "parseOrExpr 0 ts = Inl OutOfFuel"
| "parseOrExpr (Suc f) ts =
     (case parseAndExpr f ts of
        Inl e \<Rightarrow> Inl e
      | Inr (left, ts1) \<Rightarrow>
          if peek ts1 \<noteq> TokOr then Inr (left, ts1)
          else (case parseOrRest f ts1 of
                  Inl e \<Rightarrow> Inl e
                | Inr (rights, ts2) \<Rightarrow> Inr (Or (left # rights), ts2)))"
| "parseOrRest 0 ts = Inl OutOfFuel"
| "parseOrRest (Suc f) ts =
     (if peek ts = TokOr
      then (case parseAndExpr f (snd (nextTok ts)) of
              Inl e \<Rightarrow> Inl e
            | Inr (right, ts1) \<Rightarrow>
                (case parseOrRest f ts1 of
                   Inl e \<Rightarrow> Inl e
                 | Inr (rights, ts2) \<Rightarrow> Inr (right # rights, ts2)))
      else Inr ([], ts))"
| "parseAndExpr 0 ts = Inl OutOfFuel"
| "parseAndExpr (Suc f) ts =
     (case parseAtom f ts of
        Inl e \<Rightarrow> Inl e
      | Inr (left, ts1) \<Rightarrow>
          if peek ts1 \<noteq> TokAnd then Inr (left, ts1)
          else (case parseAndRest f ts1 of
                  Inl e \<Rightarrow> Inl e
                | Inr (rights, ts2) \<Rightarrow> Inr (And (left # rights), ts2)))"
| "parseAndRest 0 ts = Inl OutOfFuel"
| "parseAndRest (Suc f) ts =
     (if peek ts = TokAnd
      then (case parseAtom f (snd (nextTok ts)) of
              Inl e \<Rightarrow> Inl e
            | Inr (right, ts1) \<Rightarrow>
                (case parseAndRest f ts1 of
                   Inl e \<Rightarrow> Inl e
                 | Inr (rights, ts2) \<Rightarrow> Inr (right # rights, ts2)))
      else Inr ([], ts))"
| "parseAtom 0 ts = Inl OutOfFuel"
| "parseAtom (Suc f) ts =
     (case nextTok ts of (t, ts1) \<Rightarrow>
       (case t of
          TokIdent v \<Rightarrow> Inr (Leaf v, ts1)
        | TokRef v \<Rightarrow> Inr (Ref v, ts1)
        | TokLParen \<Rightarrow>
            (case parseOrExpr f ts1 of
               Inl e \<Rightarrow> Inl e
             | Inr (root, ts2) \<Rightarrow>
                 (case nextTok ts2 of (t2, ts3) \<Rightarrow>
                   if t2 \<noteq> TokRParen then Inl MissingParen else Inr (root, ts3)))
        | _ \<Rightarrow> Inl (UnexpectedToken t)))"

definition parseFuel :: "token list \<Rightarrow> nat" where
  "parseFuel ts = 3 * length ts + 3"

definition parseDSL :: "string \<Rightarrow> dsl_error + node" where
  "parseDSL input0 =
     (let input = TrimSpace input0 in
      if input = [] then Inl EmptyDSL
      else case tokenize input of
             Inl e \<Rightarrow> Inl e
           | Inr tokens \<Rightarrow>
               (case parseOrExpr (parseFuel tokens) tokens of
                  Inl e \<Rightarrow> Inl e
                | Inr (root, ts) \<Rightarrow>
                    if peek ts \<noteq> TokEOF then Inl (TrailingToken (peek ts)) else Inr root))"

section \<open>The fuel is enough\<close>

lemma length_nextTok: "length (snd (nextTok ts)) \<le> length ts"
  by (cases ts) auto

lemma nextTok_eq: "nextTok ts = (t, ts1) \<Longrightarrow> t \<noteq> TokEOF \<Longrightarrow> ts = t # ts1"
  by (cases ts) (auto split: if_splits)

lemma nextTok_peek: "peek ts = t \<Longrightarrow> t \<noteq> TokEOF \<Longrightarrow> Suc (length (snd (nextTok ts))) = length ts"
  by (cases ts) auto

lemma parse_enough:
  "3 * length ts + 3 \<le> f \<Longrightarrow> parseOrExpr f ts \<noteq> Inl OutOfFuel \<and>
     (\<forall>n us. parseOrExpr f ts = Inr (n, us) \<longrightarrow> length us < length ts)"
  "3 * length ts + 1 \<le> f \<Longrightarrow> parseOrRest f ts \<noteq> Inl OutOfFuel \<and>
     (\<forall>n us. parseOrRest f ts = Inr (n, us) \<longrightarrow> length us \<le> length ts)"
  "3 * length ts + 2 \<le> f \<Longrightarrow> parseAndExpr f ts \<noteq> Inl OutOfFuel \<and>
     (\<forall>n us. parseAndExpr f ts = Inr (n, us) \<longrightarrow> length us < length ts)"
  "3 * length ts + 1 \<le> f \<Longrightarrow> parseAndRest f ts \<noteq> Inl OutOfFuel \<and>
     (\<forall>n us. parseAndRest f ts = Inr (n, us) \<longrightarrow> length us \<le> length ts)"
  "3 * length ts + 1 \<le> f \<Longrightarrow> parseAtom f ts \<noteq> Inl OutOfFuel \<and>
     (\<forall>n us. parseAtom f ts = Inr (n, us) \<longrightarrow> length us < length ts)"
proof (induction f ts and f ts and f ts and f ts and f ts
    rule: parseOrExpr_parseOrRest_parseAndExpr_parseAndRest_parseAtom.induct)
  case (2 f ts)
  show ?case
  proof (cases "parseAndExpr f ts")
    case (Inl e)
    with "2.IH"(1) "2.prems" show ?thesis by simp
  next
    case (Inr p)
    obtain n us where p: "p = (n, us)" by force
    with "2.IH"(1) "2.prems" Inr have l: "length us < length ts" by simp
    show ?thesis
    proof (cases "peek us = TokOr")
      case False
      with Inr p l show ?thesis by simp
    next
      case True
      have "parseOrRest f us \<noteq> Inl OutOfFuel \<and>
          (\<forall>ns vs. parseOrRest f us = Inr (ns, vs) \<longrightarrow> length vs \<le> length us)"
        using "2.IH"(2) [OF Inr p [symmetric]] True "2.prems" l by simp
      with Inr p l True show ?thesis
        by (cases "parseOrRest f us") (auto intro: le_less_trans)
    qed
  qed
next
  case (4 f ts)
  show ?case
  proof (cases "peek ts = TokOr")
    case tok: True
    let ?us = "snd (nextTok ts)"
    from tok have len: "Suc (length ?us) = length ts" by (simp add: nextTok_peek)
    show ?thesis
    proof (cases "parseAndExpr f ?us")
      case (Inl e)
      with "4.IH"(1) [OF tok] "4.prems" tok len show ?thesis by simp
    next
      case (Inr p)
      obtain n us where p: "p = (n, us)" by force
      with "4.IH"(1) [OF tok] "4.prems" Inr len have l: "length us < length ?us" by simp
      have "parseOrRest f us \<noteq> Inl OutOfFuel \<and>
          (\<forall>ns vs. parseOrRest f us = Inr (ns, vs) \<longrightarrow> length vs \<le> length us)"
        using "4.IH"(2) [OF tok Inr p [symmetric]] "4.prems" l len by simp
      moreover have "length us \<le> length ts" using l len by simp
      ultimately show ?thesis using Inr p tok
        by (cases "parseOrRest f us") (auto intro: le_trans)
    qed
  qed simp
next
  case (6 f ts)
  show ?case
  proof (cases "parseAtom f ts")
    case (Inl e)
    with "6.IH"(1) "6.prems" show ?thesis by simp
  next
    case (Inr p)
    obtain n us where p: "p = (n, us)" by force
    with "6.IH"(1) "6.prems" Inr have l: "length us < length ts" by simp
    show ?thesis
    proof (cases "peek us = TokAnd")
      case False
      with Inr p l show ?thesis by simp
    next
      case True
      have "parseAndRest f us \<noteq> Inl OutOfFuel \<and>
          (\<forall>ns vs. parseAndRest f us = Inr (ns, vs) \<longrightarrow> length vs \<le> length us)"
        using "6.IH"(2) [OF Inr p [symmetric]] True "6.prems" l by simp
      with Inr p l True show ?thesis
        by (cases "parseAndRest f us") (auto intro: le_less_trans)
    qed
  qed
next
  case (8 f ts)
  show ?case
  proof (cases "peek ts = TokAnd")
    case tok: True
    let ?us = "snd (nextTok ts)"
    from tok have len: "Suc (length ?us) = length ts" by (simp add: nextTok_peek)
    show ?thesis
    proof (cases "parseAtom f ?us")
      case (Inl e)
      with "8.IH"(1) [OF tok] "8.prems" tok len show ?thesis by simp
    next
      case (Inr p)
      obtain n us where p: "p = (n, us)" by force
      with "8.IH"(1) [OF tok] "8.prems" Inr len have l: "length us < length ?us" by simp
      have "parseAndRest f us \<noteq> Inl OutOfFuel \<and>
          (\<forall>ns vs. parseAndRest f us = Inr (ns, vs) \<longrightarrow> length vs \<le> length us)"
        using "8.IH"(2) [OF tok Inr p [symmetric]] "8.prems" l len by simp
      moreover have "length us \<le> length ts" using l len by simp
      ultimately show ?thesis using Inr p tok
        by (cases "parseAndRest f us") (auto intro: le_trans)
    qed
  qed simp
next
  case (10 f ts)
  obtain t ts1 where n: "nextTok ts = (t, ts1)" by force
  show ?case
  proof (cases "t = TokLParen")
    case True
    with n have ts: "ts = t # ts1" by (intro nextTok_eq) auto
    note IH = "10.IH" [OF n [symmetric] True]
    show ?thesis
    proof (cases "parseOrExpr f ts1")
      case (Inl e)
      with IH "10.prems" n True ts show ?thesis by simp
    next
      case (Inr p)
      obtain m us where p: "p = (m, us)" by force
      with IH "10.prems" ts Inr have "length us < length ts1" by simp
      moreover obtain t2 vs where "nextTok us = (t2, vs)" by force
      moreover from this have "length vs \<le> length us" using length_nextTok [of us] by simp
      ultimately show ?thesis using n True ts Inr p by simp
    qed
  next
    case False
    then show ?thesis using n nextTok_eq [OF n] by (cases t) auto
  qed
qed auto

end
