(* ===== verification/Matrix_Print.thy ===== *)
theory Matrix_Print
  imports Matrix_DSL
begin

text \<open>
  A printer for matrix expressions and the proof that the parser reads back every tree it can
  build: tokens first, then text.
\<close>

section \<open>Trees the parser builds\<close>

definition validName :: "string \<Rightarrow> bool" where
  "validName s \<longleftrightarrow> s \<noteq> [] \<and> list_all isIdentChar s"

fun wf_node :: "node \<Rightarrow> bool" where
  "wf_node (Leaf s) \<longleftrightarrow> validName s"
| "wf_node (Ref s) \<longleftrightarrow> validName s"
| "wf_node (And cs) \<longleftrightarrow> 2 \<le> length cs \<and> list_all wf_node cs"
| "wf_node (Or cs) \<longleftrightarrow> 2 \<le> length cs \<and> list_all wf_node cs"

section \<open>Printing to tokens\<close>

definition paren :: "bool \<Rightarrow> token list \<Rightarrow> token list" where
  "paren b ts = (if b then [TokLParen] @ ts @ [TokRParen] else ts)"

fun sepBy :: "token \<Rightarrow> token list list \<Rightarrow> token list" where
  "sepBy t [] = []"
| "sepBy t (x # xs) = x @ concat (map (\<lambda>y. t # y) xs)"

fun isOr :: "node \<Rightarrow> bool" where
  "isOr (Or cs) = True" | "isOr _ = False"

fun isCompound :: "node \<Rightarrow> bool" where
  "isCompound (Leaf s) = False" | "isCompound (Ref s) = False" | "isCompound _ = True"

fun toks :: "node \<Rightarrow> token list" where
  "toks (Leaf s) = [TokIdent s]"
| "toks (Ref s) = [TokRef s]"
| "toks (And cs) = sepBy TokAnd (map (\<lambda>c. paren (isCompound c) (toks c)) cs)"
| "toks (Or cs) = sepBy TokOr (map (\<lambda>c. paren (isOr c) (toks c)) cs)"

definition atomToks :: "node \<Rightarrow> token list" where
  "atomToks n = paren (isCompound n) (toks n)"

definition andToks :: "node \<Rightarrow> token list" where
  "andToks n = paren (isOr n) (toks n)"

section \<open>Parsing the tokens back\<close>

definition atom_ok :: "node \<Rightarrow> bool" where
  "atom_ok n \<longleftrightarrow> (\<forall>f rest. 3 * length (atomToks n @ rest) + 1 \<le> f \<longrightarrow>
     parseAtom f (atomToks n @ rest) = Inr (n, rest))"

definition and_ok :: "node \<Rightarrow> bool" where
  "and_ok n \<longleftrightarrow> (\<forall>f rest. 3 * length (andToks n @ rest) + 2 \<le> f \<longrightarrow> peek rest \<noteq> TokAnd \<longrightarrow>
     parseAndExpr f (andToks n @ rest) = Inr (n, rest))"

definition or_ok :: "node \<Rightarrow> bool" where
  "or_ok n \<longleftrightarrow> (\<forall>f rest. 3 * length (toks n @ rest) + 3 \<le> f \<longrightarrow> peek rest \<noteq> TokAnd \<longrightarrow> peek rest \<noteq> TokOr \<longrightarrow>
     parseOrExpr f (toks n @ rest) = Inr (n, rest))"

lemma orRest_ok:
  "list_all and_ok cs \<Longrightarrow> peek rest \<noteq> TokAnd \<Longrightarrow> peek rest \<noteq> TokOr \<Longrightarrow>
   3 * length (concat (map (\<lambda>c. TokOr # andToks c) cs) @ rest) + 1 \<le> f \<Longrightarrow>
   parseOrRest f (concat (map (\<lambda>c. TokOr # andToks c) cs) @ rest) = Inr (cs, rest)"
proof (induction cs arbitrary: f)
  case Nil
  then show ?case by (cases f) auto
next
  case (Cons c cs)
  let ?tl = "concat (map (\<lambda>c. TokOr # andToks c) cs) @ rest"
  obtain f' where f: "f = Suc f'" using Cons.prems(4) by (cases f) auto
  have "peek ?tl \<noteq> TokAnd" using Cons.prems(2) by (cases cs) auto
  then have "parseAndExpr f' (andToks c @ ?tl) = Inr (c, ?tl)"
    using Cons.prems(1,4) f by (simp add: and_ok_def)
  moreover have "parseOrRest f' ?tl = Inr (cs, rest)"
    using Cons.IH [of f'] Cons.prems f by simp
  ultimately show ?case using f by simp
qed

lemma andRest_ok:
  "list_all atom_ok cs \<Longrightarrow> peek rest \<noteq> TokAnd \<Longrightarrow>
   3 * length (concat (map (\<lambda>c. TokAnd # atomToks c) cs) @ rest) + 1 \<le> f \<Longrightarrow>
   parseAndRest f (concat (map (\<lambda>c. TokAnd # atomToks c) cs) @ rest) = Inr (cs, rest)"
proof (induction cs arbitrary: f)
  case Nil
  then show ?case by (cases f) auto
next
  case (Cons c cs)
  let ?tl = "concat (map (\<lambda>c. TokAnd # atomToks c) cs) @ rest"
  obtain f' where f: "f = Suc f'" using Cons.prems(3) by (cases f) auto
  have "parseAtom f' (atomToks c @ ?tl) = Inr (c, ?tl)"
    using Cons.prems(1,3) f by (simp add: atom_ok_def)
  moreover have "parseAndRest f' ?tl = Inr (cs, rest)"
    using Cons.IH [of f'] Cons.prems f by simp
  ultimately show ?case using f by simp
qed

lemma paren_atom:
  assumes "or_ok n" "isCompound n"
  shows "atom_ok n"
  unfolding atom_ok_def
proof (intro allI impI)
  fix f rest assume l: "3 * length (atomToks n @ rest) + 1 \<le> f"
  then obtain f' where f: "f = Suc f'" by (cases f) auto
  have "parseOrExpr f' (toks n @ TokRParen # rest) = Inr (n, TokRParen # rest)"
    using assms l f by (simp add: or_ok_def atomToks_def paren_def)
  then show "parseAtom f (atomToks n @ rest) = Inr (n, rest)"
    using assms(2) f by (simp add: atomToks_def paren_def)
qed

lemma atom_and:
  assumes "atom_ok n" "andToks n = atomToks n"
  shows "and_ok n"
  unfolding and_ok_def
proof (intro allI impI)
  fix f rest assume l: "3 * length (andToks n @ rest) + 2 \<le> f" and p: "peek rest \<noteq> TokAnd"
  then obtain f' where f: "f = Suc f'" by (cases f) auto
  have "parseAtom f' (andToks n @ rest) = Inr (n, rest)"
    using assms l f by (simp add: atom_ok_def)
  with f p show "parseAndExpr f (andToks n @ rest) = Inr (n, rest)" by simp
qed

lemma and_or:
  assumes "and_ok n" "toks n = andToks n"
  shows "or_ok n"
  unfolding or_ok_def
proof (intro allI impI)
  fix f rest assume l: "3 * length (toks n @ rest) + 3 \<le> f" and p: "peek rest \<noteq> TokAnd" "peek rest \<noteq> TokOr"
  then obtain f' where f: "f = Suc f'" by (cases f) auto
  have "parseAndExpr f' (andToks n @ rest) = Inr (n, rest)"
    using assms l f p by (simp add: and_ok_def)
  with f p assms(2) show "parseOrExpr f (toks n @ rest) = Inr (n, rest)" by simp
qed

lemma And_ok:
  assumes "list_all atom_ok cs" "2 \<le> length cs"
  shows "and_ok (And cs)"
  unfolding and_ok_def
proof (intro allI impI)
  fix f rest assume l: "3 * length (andToks (And cs) @ rest) + 2 \<le> f" and p: "peek rest \<noteq> TokAnd"
  then obtain f' where f: "f = Suc f'" by (cases f) auto
  from assms(2) obtain c ds where cs: "cs = c # ds" "ds \<noteq> []" by (auto simp: numeral_2_eq_2 Suc_le_length_iff)
  let ?tl = "concat (map (\<lambda>c. TokAnd # atomToks c) ds) @ rest"
  have toks: "andToks (And cs) @ rest = atomToks c @ ?tl"
    using cs by (simp add: andToks_def paren_def atomToks_def comp_def)
  have "parseAtom f' (atomToks c @ ?tl) = Inr (c, ?tl)"
    using assms(1) l f unfolding toks by (simp add: atom_ok_def cs)
  moreover have "parseAndRest f' ?tl = Inr (ds, rest)"
    using andRest_ok [of ds rest f'] assms(1) l p f unfolding toks by (simp add: cs)
  moreover have "peek ?tl = TokAnd" using cs(2) by (cases ds) auto
  ultimately show "parseAndExpr f (andToks (And cs) @ rest) = Inr (And cs, rest)"
    unfolding toks f by (simp add: cs)
qed

lemma Or_ok:
  assumes "list_all and_ok cs" "2 \<le> length cs"
  shows "or_ok (Or cs)"
  unfolding or_ok_def
proof (intro allI impI)
  fix f rest
  assume l: "3 * length (toks (Or cs) @ rest) + 3 \<le> f" and p: "peek rest \<noteq> TokAnd" "peek rest \<noteq> TokOr"
  then obtain f' where f: "f = Suc f'" by (cases f) auto
  from assms(2) obtain c ds where cs: "cs = c # ds" "ds \<noteq> []" by (auto simp: numeral_2_eq_2 Suc_le_length_iff)
  let ?tl = "concat (map (\<lambda>c. TokOr # andToks c) ds) @ rest"
  have toks: "toks (Or cs) @ rest = andToks c @ ?tl"
    using cs by (simp add: andToks_def paren_def comp_def)
  have peek: "peek ?tl = TokOr" using cs(2) by (cases ds) auto
  then have "parseAndExpr f' (andToks c @ ?tl) = Inr (c, ?tl)"
    using assms(1) l f unfolding toks by (simp add: and_ok_def cs)
  moreover have "parseOrRest f' ?tl = Inr (ds, rest)"
    using orRest_ok [of ds rest f'] assms(1) l p f unfolding toks by (simp add: cs)
  ultimately show "parseOrExpr f (toks (Or cs) @ rest) = Inr (Or cs, rest)"
    unfolding toks f using peek by (simp add: cs)
qed

lemma leaf_atom: "atom_ok (Leaf s)" "atom_ok (Ref s)"
proof -
  have "parseAtom f (atomToks (Leaf s) @ rest) = Inr (Leaf s, rest)" if "0 < f" for f rest
    using that by (cases f) (auto simp: atomToks_def paren_def)
  then show "atom_ok (Leaf s)" by (simp add: atom_ok_def)
  have "parseAtom f (atomToks (Ref s) @ rest) = Inr (Ref s, rest)" if "0 < f" for f rest
    using that by (cases f) (auto simp: atomToks_def paren_def)
  then show "atom_ok (Ref s)" by (simp add: atom_ok_def)
qed

lemma node_ok: "wf_node n \<Longrightarrow> atom_ok n \<and> and_ok n \<and> or_ok n"
proof (induction n)
  case (Leaf s)
  have "and_ok (Leaf s)" by (rule atom_and [OF leaf_atom(1)]) (simp add: andToks_def atomToks_def)
  then show ?case using leaf_atom by (auto intro: and_or simp: andToks_def paren_def)
next
  case (Ref s)
  have "and_ok (Ref s)" by (rule atom_and [OF leaf_atom(2)]) (simp add: andToks_def atomToks_def)
  then show ?case using leaf_atom by (auto intro: and_or simp: andToks_def paren_def)
next
  case (And cs)
  then have "and_ok (And cs)" by (intro And_ok) (auto simp: list_all_iff)
  moreover from this have "or_ok (And cs)" by (rule and_or) (simp add: andToks_def paren_def)
  ultimately show ?case by (simp add: paren_atom)
next
  case (Or cs)
  then have "or_ok (Or cs)" by (intro Or_ok) (auto simp: list_all_iff)
  moreover from this have "atom_ok (Or cs)" by (rule paren_atom) simp
  ultimately show ?case by (simp add: atom_and andToks_def atomToks_def)
qed

section \<open>Text\<close>

fun tokText :: "token \<Rightarrow> string" where
  "tokText (TokIdent s) = s"
| "tokText TokAnd = ''&''"
| "tokText TokOr = ''|''"
| "tokText TokLParen = ''(''"
| "tokText TokRParen = '')''"
| "tokText (TokRef s) = CHR ''+'' # s"
| "tokText TokEOF = []"

fun renderToks :: "token list \<Rightarrow> string" where
  "renderToks [] = []"
| "renderToks [t] = tokText t"
| "renderToks (t # ts) = tokText t @ CHR '' '' # renderToks ts"

definition showDSL :: "node \<Rightarrow> string" where
  "showDSL n = renderToks (toks n)"

fun okTok :: "token \<Rightarrow> bool" where
  "okTok (TokIdent s) = validName s"
| "okTok (TokRef s) = validName s"
| "okTok t = (t \<noteq> TokEOF)"

lemmas char_class_defs = isIdentChar_def IsLetter_def IsDigit_def IsSpace_def inRange_def

lemma ident_not_space: "isIdentChar c \<Longrightarrow> \<not> IsSpace c"
  unfolding char_class_defs by auto

lemma ident_not_punct:
  "isIdentChar c \<Longrightarrow> c \<noteq> CHR ''&'' \<and> c \<noteq> CHR ''|'' \<and> c \<noteq> CHR ''('' \<and> c \<noteq> CHR '')'' \<and> c \<noteq> CHR ''+''"
  unfolding char_class_defs by auto

lemma punct_not_ident [simp]: "\<not> isIdentChar (CHR '' '')"
  unfolding char_class_defs by simp

lemma punct_not_space [simp]:
  "\<not> IsSpace (CHR ''&'')" "\<not> IsSpace (CHR ''|'')" "\<not> IsSpace (CHR ''('')" "\<not> IsSpace (CHR '')'')"
  "\<not> IsSpace (CHR ''+'')" "IsSpace (CHR '' '')"
  unfolding char_class_defs by simp_all

definition stops :: "string \<Rightarrow> bool" where
  "stops r \<longleftrightarrow> r = [] \<or> \<not> isIdentChar (hd r)"

lemma takeWhile_name:
  assumes "validName s" "stops r"
  shows "takeWhile isIdentChar (s @ r) = s" "dropWhile isIdentChar (s @ r) = r"
proof -
  have "\<forall>x\<in>set s. isIdentChar x" using assms(1) by (simp add: validName_def list_all_iff)
  moreover have "takeWhile isIdentChar r = []" "dropWhile isIdentChar r = r"
    using assms(2) by (cases r; auto simp: stops_def)+
  ultimately show "takeWhile isIdentChar (s @ r) = s" "dropWhile isIdentChar (s @ r) = r" by auto
qed

lemma tokenize_token:
  assumes "okTok t" "stops r"
  shows "\<exists>j. tokenizeFrom i (tokText t @ r) = consTok t (tokenizeFrom j r)"
proof (cases t)
  case (TokIdent s)
  with assms have v: "validName s" by simp
  then obtain c cs where s: "s = c # cs" "isIdentChar c" by (cases s) (auto simp: validName_def)
  have "tokenizeFrom i (c # (cs @ r)) = consTok (TokIdent (takeWhile isIdentChar (s @ r)))
      (tokenizeFrom (i + length (takeWhile isIdentChar (s @ r))) (dropWhile isIdentChar (s @ r)))"
    using s ident_not_space [OF s(2)] ident_not_punct [OF s(2)] by (simp add: Let_def)
  then show ?thesis using TokIdent s(1) takeWhile_name [OF v assms(2)] by auto
next
  case (TokRef s)
  with assms have v: "validName s" by simp
  then have "s \<noteq> []" by (auto simp: validName_def)
  then show ?thesis using TokRef takeWhile_name [OF v assms(2)] by (auto simp: Let_def)
qed (use assms in auto)

lemma tokenize_render:
  "list_all okTok ts \<Longrightarrow> tokenizeFrom i (renderToks ts) = Inr (ts @ [TokEOF])"
proof (induction ts arbitrary: i rule: renderToks.induct)
  case (2 t)
  then obtain j where "tokenizeFrom i (tokText t @ []) = consTok t (tokenizeFrom j [])"
    using tokenize_token [of t "[]" i] by (auto simp: stops_def)
  then show ?case by (simp add: consTok_def)
next
  case (3 t u us)
  then obtain j where "tokenizeFrom i (tokText t @ CHR '' '' # renderToks (u # us)) =
      consTok t (tokenizeFrom j (CHR '' '' # renderToks (u # us)))"
    using tokenize_token [of t "CHR '' '' # renderToks (u # us)" i] by (auto simp: stops_def)
  then show ?case using "3.IH" "3.prems" by (simp add: consTok_def)
qed simp

lemma tokText_ends:
  assumes "okTok t"
  shows "tokText t \<noteq> []" "\<not> IsSpace (hd (tokText t))" "\<not> IsSpace (last (tokText t))"
proof -
  have "s \<noteq> [] \<and> \<not> IsSpace (hd s) \<and> \<not> IsSpace (last s)" if "validName s" for s
    using that ident_not_space by (auto simp: validName_def list_all_iff)
  with assms show "tokText t \<noteq> []" "\<not> IsSpace (hd (tokText t))" "\<not> IsSpace (last (tokText t))"
    by (cases t; auto)+
qed

lemma render_ends:
  "list_all okTok ts \<Longrightarrow> ts \<noteq> [] \<Longrightarrow> renderToks ts \<noteq> [] \<and> \<not> IsSpace (hd (renderToks ts)) \<and>
     \<not> IsSpace (last (renderToks ts))"
  by (induction ts rule: renderToks.induct) (auto simp: tokText_ends)

lemma dropWhile_hd: "s = [] \<or> \<not> P (hd s) \<Longrightarrow> dropWhile P s = s"
  by (cases s) auto

lemma TrimSpace_id: "s \<noteq> [] \<Longrightarrow> \<not> IsSpace (hd s) \<Longrightarrow> \<not> IsSpace (last s) \<Longrightarrow> TrimSpace s = s"
  by (simp add: TrimSpace_def dropWhile_hd hd_rev)

lemma okTok_paren: "list_all okTok (paren b ts) = list_all okTok ts"
  by (simp add: paren_def)

lemma okTok_sepBy:
  "okTok t \<Longrightarrow> (\<And>x. x \<in> set xs \<Longrightarrow> list_all okTok x) \<Longrightarrow> list_all okTok (sepBy t xs)"
  by (cases xs) (auto simp: list_all_iff)

lemma okTok_toks: "wf_node n \<Longrightarrow> list_all okTok (toks n)"
proof (induction n)
  case (And cs)
  then show ?case by (auto simp: list_all_iff [of wf_node] okTok_paren intro!: okTok_sepBy)
next
  case (Or cs)
  then show ?case by (auto simp: list_all_iff [of wf_node] okTok_paren intro!: okTok_sepBy)
qed auto

lemma toks_nonempty: "wf_node n \<Longrightarrow> toks n \<noteq> []"
proof (induction n)
  case (And cs)
  then show ?case by (cases cs) (auto simp: paren_def)
next
  case (Or cs)
  then show ?case by (cases cs) (auto simp: paren_def)
qed auto

lemma parse_show_tree:
  assumes "wf_node n"
  shows "parseDSL (showDSL n) = Inr n"
proof -
  note ok = okTok_toks [OF assms] and ne = toks_nonempty [OF assms]
  have trim: "TrimSpace (showDSL n) = showDSL n" "showDSL n \<noteq> []"
    using render_ends [OF ok ne] by (auto simp: showDSL_def intro: TrimSpace_id)
  have "or_ok n" using node_ok [OF assms] by simp
  then have "parseOrExpr (parseFuel (toks n @ [TokEOF])) (toks n @ [TokEOF]) = Inr (n, [TokEOF])"
    by (simp add: or_ok_def parseFuel_def)
  then show ?thesis
    using trim tokenize_render [OF ok, of 0] by (simp add: parseDSL_def tokenize_def showDSL_def [symmetric])
qed

text \<open>C15: The parser reads back what the printer writes: for every tree the parser can build, the
  printed expression parses to that tree, whatever its depth.\<close>

theorem parse_show:
  assumes "wf_node n"
  shows "parseDSL (showDSL n) = Inr n"
  by (rule parse_show_tree [OF assms])

theorem parse_show_witness:
  "parseDSL (showDSL (And [Ref ''set1'', Or [Leaf ''a'', And [Leaf ''b'', Leaf ''c'']]])) =
     Inr (And [Ref ''set1'', Or [Leaf ''a'', And [Leaf ''b'', Leaf ''c'']]])"
  by (rule parse_show) code_simp

section \<open>What the parser returns\<close>

fun nameTok :: "token \<Rightarrow> bool" where
  "nameTok (TokIdent s) = validName s"
| "nameTok (TokRef s) = validName s"
| "nameTok _ = True"

lemma validName_takeWhile: "takeWhile isIdentChar s \<noteq> [] \<Longrightarrow> validName (takeWhile isIdentChar s)"
  by (auto simp: validName_def list_all_iff dest: set_takeWhileD)

lemma validName_takeWhile_Cons [simp]: "isIdentChar c \<Longrightarrow> validName (takeWhile isIdentChar (c # r))"
  by (rule validName_takeWhile) simp

lemma consTok_Inr: "consTok t r = Inr ts \<longleftrightarrow> (\<exists>us. r = Inr us \<and> ts = t # us)"
  by (auto simp: consTok_def split: sum.splits)

lemma consTok_Inl: "consTok t r = Inl e \<longleftrightarrow> r = Inl e"
  by (auto simp: consTok_def split: sum.splits)

lemma tokenizeFrom_names: "tokenizeFrom i s = Inr ts \<Longrightarrow> list_all nameTok ts"
  by (induction i s arbitrary: ts rule: tokenizeFrom.induct)
    (auto simp: consTok_Inr Let_def validName_takeWhile
       simp del: takeWhile.simps dropWhile.simps split: if_splits)

lemma nextTok_names: "list_all nameTok ts \<Longrightarrow> nextTok ts = (t, us) \<Longrightarrow> nameTok t \<and> list_all nameTok us"
  by (cases ts) (auto split: if_splits)

lemma parse_wf:
  "list_all nameTok ts \<Longrightarrow> parseOrExpr f ts = Inr (n, us) \<Longrightarrow> wf_node n \<and> list_all nameTok us"
  "list_all nameTok ts \<Longrightarrow> parseOrRest f ts = Inr (ns, us) \<Longrightarrow> list_all wf_node ns \<and> list_all nameTok us \<and>
     (peek ts = TokOr \<longrightarrow> ns \<noteq> [])"
  "list_all nameTok ts \<Longrightarrow> parseAndExpr f ts = Inr (n, us) \<Longrightarrow> wf_node n \<and> list_all nameTok us"
  "list_all nameTok ts \<Longrightarrow> parseAndRest f ts = Inr (ns, us) \<Longrightarrow> list_all wf_node ns \<and> list_all nameTok us \<and>
     (peek ts = TokAnd \<longrightarrow> ns \<noteq> [])"
  "list_all nameTok ts \<Longrightarrow> parseAtom f ts = Inr (n, us) \<Longrightarrow> wf_node n \<and> list_all nameTok us"
proof (induction f ts and f ts and f ts and f ts and f ts arbitrary: n us and ns us and n us and ns us and n us
    rule: parseOrExpr_parseOrRest_parseAndExpr_parseAndRest_parseAtom.induct)
  case (2 f ts)
  then show ?case
    by (fastforce split: sum.splits if_splits prod.splits simp: numeral_2_eq_2 Suc_le_eq)
next
  case (4 f ts)
  have nm: "list_all nameTok (snd (nextTok ts))"
    using nextTok_names [OF "4.prems"(1), of "fst (nextTok ts)"] by simp
  show ?case
  proof (cases "peek ts = TokOr")
    case True
    with "4.prems"(2) obtain m vs ms where
      m: "parseAndExpr f (snd (nextTok ts)) = Inr (m, vs)" "parseOrRest f vs = Inr (ms, us)" "ns = m # ms"
      by (auto split: sum.splits prod.splits)
    have "wf_node m \<and> list_all nameTok vs" using "4.IH"(1) [OF True nm m(1)] .
    then show ?thesis using "4.IH"(2) [OF True m(1) refl _ m(2)] m(3) by simp
  qed (use "4.prems" in simp)
next
  case (6 f ts)
  then show ?case
    by (fastforce split: sum.splits if_splits prod.splits simp: numeral_2_eq_2 Suc_le_eq)
next
  case (8 f ts)
  have nm: "list_all nameTok (snd (nextTok ts))"
    using nextTok_names [OF "8.prems"(1), of "fst (nextTok ts)"] by simp
  show ?case
  proof (cases "peek ts = TokAnd")
    case True
    with "8.prems"(2) obtain m vs ms where
      m: "parseAtom f (snd (nextTok ts)) = Inr (m, vs)" "parseAndRest f vs = Inr (ms, us)" "ns = m # ms"
      by (auto split: sum.splits prod.splits)
    have "wf_node m \<and> list_all nameTok vs" using "8.IH"(1) [OF True nm m(1)] .
    then show ?thesis using "8.IH"(2) [OF True m(1) refl _ m(2)] m(3) by simp
  qed (use "8.prems" in simp)
next
  case (10 f ts)
  obtain t ts1 where n: "nextTok ts = (t, ts1)" by force
  with "10.prems"(1) have nm: "nameTok t" "list_all nameTok ts1" by (auto dest: nextTok_names)
  show ?case
  proof (cases "t = TokLParen")
    case True
    with "10.prems"(2) n obtain us' where
      "parseOrExpr f ts1 = Inr (n, us')" "nextTok us' = (TokRParen, us)"
      by (auto split: sum.splits prod.splits if_splits)
    then show ?thesis using "10.IH" [OF n [symmetric] True nm(2)] nextTok_names by blast
  next
    case False
    with "10.prems"(2) n nm show ?thesis by (cases t) auto
  qed
qed auto

text \<open>C16: Parsing always ends with a tree or with an error of the language, never for lack of fuel,
  and an accepted expression yields a tree whose names are identifiers and whose conjunctions and
  disjunctions have at least two branches, which the printer and the parser map to itself.\<close>

theorem parse_result:
  "parseDSL s \<noteq> Inl OutOfFuel \<and>
   (\<forall>n. parseDSL s = Inr n \<longrightarrow> wf_node n \<and> parseDSL (showDSL n) = Inr n)"
proof (intro conjI allI impI)
  have tok: "tokenizeFrom i s \<noteq> Inl OutOfFuel" for i s
    by (induction i s rule: tokenizeFrom.induct) 
      (simp_all add: consTok_Inl Let_def del: takeWhile.simps dropWhile.simps)
  show "parseDSL s \<noteq> Inl OutOfFuel"
  proof (cases "tokenizeFrom 0 (TrimSpace s)")
    case (Inl e)
    then show ?thesis using tok [of 0 "TrimSpace s"] by (simp add: parseDSL_def tokenize_def Let_def)
  next
    case (Inr ts)
    moreover have "parseOrExpr (parseFuel ts) ts \<noteq> Inl OutOfFuel"
      using parse_enough(1) [of ts "parseFuel ts"] by (simp add: parseFuel_def)
    ultimately show ?thesis
      by (cases "parseOrExpr (parseFuel ts) ts") (auto simp: parseDSL_def tokenize_def Let_def split: if_splits)
  qed
  fix n assume "parseDSL s = Inr n"
  then obtain ts us where "tokenizeFrom 0 (TrimSpace s) = Inr ts" "parseOrExpr (parseFuel ts) ts = Inr (n, us)"
    by (auto simp: parseDSL_def tokenize_def Let_def split: sum.splits if_splits)
  then show "wf_node n" using parse_wf(1) tokenizeFrom_names by blast
  then show "parseDSL (showDSL n) = Inr n" by (rule parse_show_tree)
qed

theorem parse_result_witness:
  "wf_node (Or [Leaf ''a'', And [Leaf ''b'', Ref ''s'']])"
proof -
  have "parseDSL ''a | (b & +s)'' = Inr (Or [Leaf ''a'', And [Leaf ''b'', Ref ''s'']])" by code_simp
  then show ?thesis using parse_result [of "''a | (b & +s)''"] by blast
qed

end
