(* ===== verification/Matrix_Program.thy ===== *)
theory Matrix_Program
  imports Matrix_DSL "HOL-Library.Word"
begin

text \<open>
  The compiler and solver of \<^verbatim>\<open>internal/matrix/program.go\<close>. Compiling resolves the leaves, checks
  the references, orders the sets so that a set comes after the sets it refers to, and links every
  reference to the tree it names: the pointer \<^verbatim>\<open>ref\<close> of a node becomes a subtree of \<open>lnode\<close>. The
  tables the code indexes by node pointer only save recomputation and have no counterpart.
  Bit masks are lists of 64-bit words. Eviction costs are mathematical integers.
\<close>

unbundle bit_operations_syntax

section \<open>Data\<close>

record Definition =
  defName :: string
  defDSL :: string

type_synonym Resolver = "string \<Rightarrow> string option"

type_synonym bitMask = "64 word list"

datatype lnode = LLeaf string | LRef string lnode | LAnd "lnode list" | LOr "lnode list"

record compiledSet =
  setName :: string
  setDSL :: string
  setRoot :: lnode
  support :: bitMask

record Program =
  sets :: "compiledSet list"
  modelBits :: "(string \<times> nat) list"
  wordCount :: nat

record Decision =
  Evict :: "string list"
  TargetSet :: "string list"
  SetName :: string
  DSL :: string
  TotalCost :: int

datatype compile_error =
    NoSets
  | SetError string dsl_error
  | UnknownModel string string
  | UndefinedSet string string
  | Circular string
  | TopoFuel

section \<open>Resolving one definition\<close>

text \<open>One pre-order walk over the tree: a leaf takes its model's name, a reference is recorded the
  first time it is seen.\<close>

fun resolveNode :: "Resolver \<Rightarrow> (string \<Rightarrow> bool) \<Rightarrow> string \<Rightarrow> node \<Rightarrow> string list \<Rightarrow>
      compile_error + node \<times> string list"
  and resolveNodes :: "Resolver \<Rightarrow> (string \<Rightarrow> bool) \<Rightarrow> string \<Rightarrow> node list \<Rightarrow> string list \<Rightarrow>
      compile_error + node list \<times> string list" where
  "resolveNode resolve setNames d (Leaf m) refs =
     (case resolve m of None \<Rightarrow> Inl (UnknownModel d m) | Some model \<Rightarrow> Inr (Leaf model, refs))"
| "resolveNode resolve setNames d (Ref r) refs =
     (if \<not> setNames r then Inl (UndefinedSet d r)
      else if r \<in> set refs then Inr (Ref r, refs) else Inr (Ref r, refs @ [r]))"
| "resolveNode resolve setNames d (And cs) refs =
     (case resolveNodes resolve setNames d cs refs of
        Inl e \<Rightarrow> Inl e | Inr (cs', refs') \<Rightarrow> Inr (And cs', refs'))"
| "resolveNode resolve setNames d (Or cs) refs =
     (case resolveNodes resolve setNames d cs refs of
        Inl e \<Rightarrow> Inl e | Inr (cs', refs') \<Rightarrow> Inr (Or cs', refs'))"
| "resolveNodes resolve setNames d [] refs = Inr ([], refs)"
| "resolveNodes resolve setNames d (c # cs) refs =
     (case resolveNode resolve setNames d c refs of
        Inl e \<Rightarrow> Inl e
      | Inr (c', refs1) \<Rightarrow>
          (case resolveNodes resolve setNames d cs refs1 of
             Inl e \<Rightarrow> Inl e
           | Inr (cs', refs2) \<Rightarrow> Inr (c' # cs', refs2)))"

text \<open>The tables the definitions fill: parsed root, text and dependencies by set name.\<close>

record tables =
  roots :: "string \<rightharpoonup> node"
  dslByName :: "string \<rightharpoonup> string"
  deps :: "string \<Rightarrow> string list"

definition noTables :: tables where
  "noTables = \<lparr>roots = Map.empty, dslByName = Map.empty, deps = (\<lambda>_. [])\<rparr>"

fun compileDefs :: "Resolver \<Rightarrow> (string \<Rightarrow> bool) \<Rightarrow> Definition list \<Rightarrow> tables \<Rightarrow> compile_error + tables" where
  "compileDefs resolve setNames [] t = Inr t"
| "compileDefs resolve setNames (d # ds) t =
     (case parseDSL (defDSL d) of
        Inl e \<Rightarrow> Inl (SetError (defName d) e)
      | Inr root \<Rightarrow>
          (case resolveNode resolve setNames (defName d) root [] of
             Inl e \<Rightarrow> Inl e
           | Inr (root', refs) \<Rightarrow>
               compileDefs resolve setNames ds
                 \<lparr>roots = (roots t)(defName d \<mapsto> root'),
                  dslByName = (dslByName t)(defName d \<mapsto> defDSL d),
                  deps = (deps t)(defName d := refs)\<rparr>))"

section \<open>Topological order\<close>

text \<open>
  The visit states of the depth-first search: 0 unvisited, 1 on the current path, 2 finished.
  The recursion is at most one deeper than the number of set names, which is the fuel.
\<close>

type_synonym topo = "(string \<Rightarrow> nat) \<times> string list"

fun visit :: "nat \<Rightarrow> (string \<Rightarrow> string list) \<Rightarrow> string \<Rightarrow> topo \<Rightarrow> compile_error + topo"
  and visitAll :: "nat \<Rightarrow> (string \<Rightarrow> string list) \<Rightarrow> string list \<Rightarrow> topo \<Rightarrow> compile_error + topo" where
  "visit 0 dep n s = Inl TopoFuel"
| "visit (Suc f) dep n s =
     (if fst s n = 1 then Inl (Circular n)
      else if fst s n = 2 then Inr s
      else (case visitAll f dep (dep n) ((fst s)(n := 1), snd s) of
              Inl e \<Rightarrow> Inl e
            | Inr t \<Rightarrow> Inr ((fst t)(n := 2), snd t @ [n])))"
| "visitAll f dep [] s = Inr s"
| "visitAll f dep (d # ds) s =
     (case visit f dep d s of Inl e \<Rightarrow> Inl e | Inr t \<Rightarrow> visitAll f dep ds t)"

fun topoLoop :: "nat \<Rightarrow> (string \<Rightarrow> string list) \<Rightarrow> Definition list \<Rightarrow> topo \<Rightarrow> compile_error + topo" where
  "topoLoop f dep [] s = Inr s"
| "topoLoop f dep (d # ds) s =
     (if fst s (defName d) = 0
      then (case visit f dep (defName d) s of Inl e \<Rightarrow> Inl e | Inr t \<Rightarrow> topoLoop f dep ds t)
      else topoLoop f dep ds s)"

definition topologicalOrder :: "Definition list \<Rightarrow> (string \<Rightarrow> string list) \<Rightarrow> compile_error + string list" where
  "topologicalOrder definitions dep =
     (case topoLoop (length definitions + 1) dep definitions (\<lambda>_. 0, []) of
        Inl e \<Rightarrow> Inl e | Inr t \<Rightarrow> Inr (snd t))"

section \<open>Linking\<close>

text \<open>The sets are linked in their topological order, so that the target of every reference has
  been linked before.\<close>

fun linkNode :: "(string \<rightharpoonup> lnode) \<Rightarrow> node \<Rightarrow> lnode" where
  "linkNode env (Leaf m) = LLeaf m"
| "linkNode env (Ref r) = LRef r (case env r of Some l \<Rightarrow> l | None \<Rightarrow> LOr [])"
| "linkNode env (And cs) = LAnd (map (linkNode env) cs)"
| "linkNode env (Or cs) = LOr (map (linkNode env) cs)"

fun linkSets :: "tables \<Rightarrow> string list \<Rightarrow> (string \<rightharpoonup> lnode) \<Rightarrow> compiledSet list" where
  "linkSets t [] env = []"
| "linkSets t (n # ns) env =
     (let l = linkNode env (the (roots t n)) in
      \<lparr>setName = n, setDSL = the (dslByName t n), setRoot = l, support = []\<rparr>
        # linkSets t ns (env(n \<mapsto> l)))"

section \<open>Bit masks\<close>

definition emptyMask :: "nat \<Rightarrow> bitMask" where
  "emptyMask n = replicate n 0"

definition setBit :: "nat \<Rightarrow> bitMask \<Rightarrow> bitMask" where
  "setBit i m = m[i div 64 := (m ! (i div 64)) OR push_bit (i mod 64) 1]"

definition has :: "bitMask \<Rightarrow> nat \<Rightarrow> bool" where
  "has m i \<longleftrightarrow> (m ! (i div 64)) AND push_bit (i mod 64) 1 \<noteq> 0"

fun subsetOf :: "bitMask \<Rightarrow> bitMask \<Rightarrow> bool" where
  "subsetOf [] other = True"
| "subsetOf (w # m) other = (w AND NOT (hd other) = 0 \<and> subsetOf m (tl other))"

definition unionMask :: "bitMask \<Rightarrow> bitMask \<Rightarrow> bitMask" where
  "unionMask left right = map2 (OR) left right"

definition registerModel :: "string \<Rightarrow> (string \<times> nat) list \<Rightarrow> (string \<times> nat) list" where
  "registerModel m bits = (if map_of bits m = None then bits @ [(m, length bits)] else bits)"

definition registerModels :: "string list \<Rightarrow> (string \<times> nat) list \<Rightarrow> (string \<times> nat) list" where
  "registerModels ms bits = fold registerModel ms bits"

definition wordsFor :: "'a list \<Rightarrow> nat" where
  "wordsFor bits = (length bits + 63) div 64"

section \<open>Support\<close>

fun collect :: "lnode \<Rightarrow> string list" where
  "collect (LLeaf m) = [m]"
| "collect (LRef r l) = collect l"
| "collect (LAnd cs) = remdups (concat (map collect cs))"
| "collect (LOr cs) = remdups (concat (map collect cs))"

definition supportMask :: "(string \<times> nat) list \<Rightarrow> nat \<Rightarrow> string list \<Rightarrow> bitMask" where
  "supportMask bits n models = fold (\<lambda>m. setBit (the (map_of bits m))) models (emptyMask n)"

text \<open>\<open>iter\<close> stands for the unspecified order in which Go iterates over a set of models.\<close>

definition computeSupport :: "(string list \<Rightarrow> string list) \<Rightarrow> compiledSet list \<Rightarrow> Program" where
  "computeSupport iter ss =
     (let setModels = map (\<lambda>s. iter (collect (setRoot s))) ss;
          bits = fold registerModels setModels [];
          n = wordsFor bits
      in \<lparr>sets = map (\<lambda>(s, ms). s\<lparr>support := supportMask bits n ms\<rparr>) (zip ss setModels),
          modelBits = bits, wordCount = n\<rparr>)"

definition Compile :: "(string list \<Rightarrow> string list) \<Rightarrow> Definition list \<Rightarrow> Resolver \<Rightarrow> compile_error + Program" where
  "Compile iter definitions resolve =
     (if definitions = [] then Inl NoSets
      else case compileDefs resolve (\<lambda>n. n \<in> set (map defName definitions)) definitions noTables of
             Inl e \<Rightarrow> Inl e
           | Inr t \<Rightarrow>
               (case topologicalOrder definitions (deps t) of
                  Inl e \<Rightarrow> Inl e
                | Inr order \<Rightarrow> Inr (computeSupport iter (linkSets t order Map.empty))))"

fun supportsAll :: "Program \<Rightarrow> compiledSet \<Rightarrow> string list \<Rightarrow> bool" where
  "supportsAll p s [] = True"
| "supportsAll p s (m # ms) =
     (case map_of (modelBits p) m of
        None \<Rightarrow> False
      | Some b \<Rightarrow> if \<not> has (support s) b then False else supportsAll p s ms)"

section \<open>Evaluation\<close>

datatype witness = NoWitness | Witness string witness witness

record projectedState =
  mask :: bitMask
  trail :: witness

record evaluator =
  evBits :: "(string \<times> nat) list"
  evWords :: nat

definition newEvaluator :: "string list \<Rightarrow> evaluator" where
  "newEvaluator relevant =
     (let bits = registerModels relevant [] in \<lparr>evBits = bits, evWords = wordsFor bits\<rparr>)"

definition fullMask :: "evaluator \<Rightarrow> bitMask" where
  "fullMask e = fold setBit [0..<length (evBits e)] (emptyMask (evWords e))"

definition addToFrontier :: "projectedState list \<Rightarrow> projectedState \<Rightarrow> projectedState list" where
  "addToFrontier states cand =
     (if list_ex (\<lambda>s. subsetOf (mask cand) (mask s)) states then states
      else filter (\<lambda>s. \<not> subsetOf (mask s) (mask cand)) states @ [cand])"

definition leafMask :: "evaluator \<Rightarrow> string \<Rightarrow> bitMask" where
  "leafMask e m = (case map_of (evBits e) m of
     Some b \<Rightarrow> setBit b (emptyMask (evWords e)) | None \<Rightarrow> emptyMask (evWords e))"

definition combine :: "projectedState list \<Rightarrow> projectedState list \<Rightarrow> projectedState list" where
  "combine lefts rights =
     foldl addToFrontier []
       (concat (map (\<lambda>l. map (\<lambda>r. \<lparr>mask = unionMask (mask l) (mask r),
                                    trail = Witness [] (trail l) (trail r)\<rparr>) rights) lefts))"

fun evaluate :: "evaluator \<Rightarrow> lnode \<Rightarrow> projectedState list" where
  "evaluate e (LLeaf m) = [\<lparr>mask = leafMask e m, trail = Witness m NoWitness NoWitness\<rparr>]"
| "evaluate e (LRef r l) = evaluate e l"
| "evaluate e (LOr cs) = foldl addToFrontier [] (concat (map (evaluate e) cs))"
| "evaluate e (LAnd cs) =
     foldl combine [\<lparr>mask = emptyMask (evWords e), trail = NoWitness\<rparr>] (map (evaluate e) cs)"

fun visitWitness :: "witness \<Rightarrow> string list \<Rightarrow> string list" where
  "visitWitness NoWitness models = models"
| "visitWitness (Witness m l r) models =
     visitWitness r (visitWitness l (if m \<noteq> [] \<and> m \<notin> set models then models @ [m] else models))"

definition flattenWitness :: "witness \<Rightarrow> string list" where
  "flattenWitness w = sort (visitWitness w [])"

section \<open>Queries\<close>

definition evictionCost :: "(string \<rightharpoonup> int) \<Rightarrow> string \<Rightarrow> int" where
  "evictionCost costs model = (case costs model of Some c \<Rightarrow> c | None \<Rightarrow> 1)"

definition bitOf :: "evaluator \<Rightarrow> string \<Rightarrow> nat" where
  "bitOf e m = (case map_of (evBits e) m of Some b \<Rightarrow> b | None \<Rightarrow> 0)"

definition missing :: "evaluator \<Rightarrow> string list \<Rightarrow> projectedState \<Rightarrow> string list" where
  "missing e running s = filter (\<lambda>m. \<not> has (mask s) (bitOf e m)) running"

definition stateCost :: "evaluator \<Rightarrow> (string \<rightharpoonup> int) \<Rightarrow> string list \<Rightarrow> projectedState \<Rightarrow> int" where
  "stateCost e costs running s = sum_list (map (evictionCost costs) (missing e running s))"

type_synonym best = "(int \<times> compiledSet \<times> projectedState) option"

text \<open>The search keeps the first state of least cost; \<open>None\<close> is the initial \<^verbatim>\<open>bestCost = -1\<close>.\<close>

definition considerState :: "evaluator \<Rightarrow> (string \<rightharpoonup> int) \<Rightarrow> string list \<Rightarrow> nat \<Rightarrow> compiledSet \<Rightarrow>
    projectedState \<Rightarrow> best \<Rightarrow> best" where
  "considerState e costs running targetBit cs s best =
     (if \<not> has (mask s) targetBit then best
      else let cost = stateCost e costs running s in
           case best of
             None \<Rightarrow> Some (cost, cs, s)
           | Some (bestCost, _, _) \<Rightarrow>
               if bestCost < 0 \<or> cost < bestCost then Some (cost, cs, s) else best)"

definition considerSet :: "Program \<Rightarrow> string \<Rightarrow> evaluator \<Rightarrow> (string \<rightharpoonup> int) \<Rightarrow> string list \<Rightarrow>
    compiledSet \<Rightarrow> best \<Rightarrow> best" where
  "considerSet p target e costs running cs best =
     (case map_of (modelBits p) target of
        None \<Rightarrow> best
      | Some b \<Rightarrow>
          if \<not> has (support cs) b then best
          else fold (considerState e costs running (bitOf e target) cs) (evaluate e (setRoot cs)) best)"

fun findSet :: "Program \<Rightarrow> evaluator \<Rightarrow> string list \<Rightarrow> compiledSet list \<Rightarrow> compiledSet option" where
  "findSet p e models [] = None"
| "findSet p e models (cs # rest) =
     (if \<not> supportsAll p cs models then findSet p e models rest
      else if list_ex (\<lambda>s. subsetOf (fullMask e) (mask s)) (evaluate e (setRoot cs)) then Some cs
      else findSet p e models rest)"

definition findContaining :: "Program \<Rightarrow> string list \<Rightarrow> string \<times> string" where
  "findContaining p models =
     (if models = [] then ([], [])
      else case findSet p (newEvaluator models) models (sets p) of
             Some cs \<Rightarrow> (setName cs, setDSL cs)
           | None \<Rightarrow> ([], []))"

definition CanContainAll :: "Program \<Rightarrow> string list \<Rightarrow> bool" where
  "CanContainAll p models \<longleftrightarrow>
     models = [] \<or> findSet p (newEvaluator models) models (sets p) \<noteq> None"

definition Solve :: "Program \<Rightarrow> string \<Rightarrow> string list \<Rightarrow> (string \<rightharpoonup> int) \<Rightarrow> Decision" where
  "Solve p target running costs =
     (if target \<in> set running
      then (let (name, dsl) = findContaining p running in
            \<lparr>Evict = [], TargetSet = running, SetName = name, DSL = dsl, TotalCost = 0\<rparr>)
      else
        let e = newEvaluator (target # running) in
        case fold (considerSet p target e costs running) (sets p) None of
          None \<Rightarrow> \<lparr>Evict = running, TargetSet = [target], SetName = [], DSL = [], TotalCost = 0\<rparr>
        | Some (bestCost, cs, s) \<Rightarrow>
            \<lparr>Evict = missing e running s, TargetSet = flattenWitness (trail s),
             SetName = setName cs, DSL = setDSL cs, TotalCost = bestCost\<rparr>)"

end
