(* ===== verification/Matrix_Masks.thy ===== *)
theory Matrix_Masks
  imports Matrix_Program
begin

text \<open>
  Bit masks as sets of bit positions, and the registry of models as a numbering: inclusion,
  union and single bits of the 64-bit words are those of the sets, and a mask over a registry
  is determined by the models whose bits it has.
\<close>

section \<open>Positions\<close>

definition members :: "bitMask \<Rightarrow> nat set" where
  "members m = {i. i < 64 * length m \<and> bit (m ! (i div 64)) (i mod 64)}"

lemma and_bit: "n < 64 \<Longrightarrow> (w :: 64 word) AND push_bit n 1 \<noteq> 0 \<longleftrightarrow> bit w n"
  by (simp add: and_exp_eq_0_iff_not_bit)

lemma has_members: "i < 64 * length m \<Longrightarrow> has m i \<longleftrightarrow> i \<in> members m"
  by (simp add: has_def members_def and_exp_eq_0_iff_not_bit)

lemma members_empty [simp]: "members (emptyMask n) = {}"
  by (auto simp: members_def emptyMask_def)

lemma length_emptyMask [simp]: "length (emptyMask n) = n"
  by (simp add: emptyMask_def)

lemma length_setBit [simp]: "length (setBit i m) = length m"
  by (simp add: setBit_def)

lemma members_setBit:
  assumes "i < 64 * length m"
  shows "members (setBit i m) = insert i (members m)"
proof -
  have d: "i div 64 < length m" using assms by simp
  have "bit (setBit i m ! (j div 64)) (j mod 64) \<longleftrightarrow> j = i \<or> bit (m ! (j div 64)) (j mod 64)"
    if j: "j < 64 * length m" for j
  proof (cases "j div 64 = i div 64")
    case True
    have "j mod 64 = i mod 64 \<longleftrightarrow> j = i" using True by (metis div_mult_mod_eq)
    then show ?thesis using True d
      by (auto simp: setBit_def bit_or_iff bit_exp_iff)
  next
    case False
    then show ?thesis using d by (auto simp: setBit_def)
  qed
  then show ?thesis using assms by (auto simp: members_def)
qed

lemma members_unionMask:
  "length l = length r \<Longrightarrow> members (unionMask l r) = members l \<union> members r"
  by (auto simp: members_def unionMask_def bit_or_iff)

lemma length_unionMask [simp]: "length (unionMask l r) = min (length l) (length r)"
  by (simp add: unionMask_def)

lemma subsetOf_nth:
  "length m = length o' \<Longrightarrow> subsetOf m o' \<longleftrightarrow> (\<forall>k<length m. (m ! k) AND NOT (o' ! k) = 0)"
proof (induction m o' rule: list_induct2)
  case (Cons x xs y ys)
  then show ?case by (auto simp: nth_Cons less_Suc_eq_0_disj split: nat.splits)
qed simp

lemma and_not_zero: "(v :: 64 word) AND NOT w = 0 \<longleftrightarrow> (\<forall>n<64. bit v n \<longrightarrow> bit w n)"
proof
  assume "v AND NOT w = 0"
  then have "\<not> bit (v AND NOT w) n" for n by simp
  then show "\<forall>n<64. bit v n \<longrightarrow> bit w n" by (auto simp: bit_and_iff bit_not_iff)
next
  assume "\<forall>n<64. bit v n \<longrightarrow> bit w n"
  then show "v AND NOT w = 0"
    by (intro bit_word_eqI) (auto simp: bit_and_iff bit_not_iff)
qed

lemma subsetOf_members:
  assumes "length m = length o'"
  shows "subsetOf m o' \<longleftrightarrow> members m \<subseteq> members o'"
proof -
  have "(\<forall>k<length m. \<forall>n<64. bit (m ! k) n \<longrightarrow> bit (o' ! k) n) \<longleftrightarrow> members m \<subseteq> members o'"
  proof
    assume a: "\<forall>k<length m. \<forall>n<64. bit (m ! k) n \<longrightarrow> bit (o' ! k) n"
    show "members m \<subseteq> members o'"
    proof
      fix i assume i: "i \<in> members m"
      then have "i div 64 < length m" by (simp add: members_def less_mult_imp_div_less mult.commute)
      then show "i \<in> members o'" using a i assms by (simp add: members_def)
    qed
  next
    assume s: "members m \<subseteq> members o'"
    show "\<forall>k<length m. \<forall>n<64. bit (m ! k) n \<longrightarrow> bit (o' ! k) n"
    proof (intro allI impI)
      fix k n :: nat assume k: "k < length m" and n: "n < 64" and b: "bit (m ! k) n"
      have e: "(64 * k + n) div 64 = k" "(64 * k + n) mod 64 = n" using n by simp_all
      have "64 * k + n \<in> members m" using e k n b by (simp add: members_def)
      then have "64 * k + n \<in> members o'" using s by blast
      then show "bit (o' ! k) n" using e by (simp add: members_def)
    qed
  qed
  then show ?thesis using assms by (simp add: subsetOf_nth and_not_zero)
qed

section \<open>The registry\<close>

definition registry_ok :: "(string \<times> nat) list \<Rightarrow> bool" where
  "registry_ok bits \<longleftrightarrow> distinct (map fst bits) \<and> map snd bits = [0..<length bits]"

lemma registry_ok_Nil [simp]: "registry_ok []"
  by (simp add: registry_ok_def)

lemma map_of_none: "map_of bits m = None \<longleftrightarrow> m \<notin> fst ` set bits"
  by (simp add: map_of_eq_None_iff)

lemma registerModel_ok: "registry_ok bits \<Longrightarrow> registry_ok (registerModel m bits)"
  by (auto simp: registry_ok_def registerModel_def map_of_none)

lemma registerModel_dom: "fst ` set (registerModel m bits) = insert m (fst ` set bits)"
  by (auto simp: registerModel_def map_of_none)

lemma registerModels_ok: "registry_ok bits \<Longrightarrow> registry_ok (registerModels ms bits)"
  unfolding registerModels_def by (induction ms arbitrary: bits) (auto simp: registerModel_ok)

lemma registerModels_dom: "fst ` set (registerModels ms bits) = set ms \<union> fst ` set bits"
  unfolding registerModels_def by (induction ms arbitrary: bits) (auto simp: registerModel_dom)

lemma registry_bound:
  assumes "registry_ok bits" "map_of bits m = Some i"
  shows "i < 64 * wordsFor bits"
proof -
  have "i \<in> set (map snd bits)" using map_of_SomeD [OF assms(2)] by force
  moreover have "map snd bits = [0..<length bits]" using assms(1) by (simp add: registry_ok_def)
  ultimately have "i \<in> set [0..<length bits]" by simp
  then have "i < length bits" by simp
  then show ?thesis by (simp add: wordsFor_def)
qed

lemma registry_inj:
  assumes "registry_ok bits" "map_of bits a = Some i" "map_of bits b = Some i"
  shows "a = b"
proof -
  have "distinct (map snd bits)" using assms(1) by (simp add: registry_ok_def)
  moreover have "(a, i) \<in> set bits" "(b, i) \<in> set bits" using assms(2,3) by (auto dest: map_of_SomeD)
  ultimately have "(a, i) = (b, i)" unfolding distinct_map using inj_onD [of snd "set bits"] by auto
  then show ?thesis by simp
qed

section \<open>Masks over a registry\<close>

text \<open>\<open>marks bits S m\<close>: the mask \<open>m\<close> has exactly the bits of the registered models in \<open>S\<close>.\<close>

definition bitsOf :: "(string \<times> nat) list \<Rightarrow> string set \<Rightarrow> nat set" where
  "bitsOf bits S = {i. \<exists>m\<in>S. map_of bits m = Some i}"

definition marks :: "(string \<times> nat) list \<Rightarrow> string set \<Rightarrow> bitMask \<Rightarrow> bool" where
  "marks bits S m \<longleftrightarrow> length m = wordsFor bits \<and> members m = bitsOf bits S"

lemma bitsOf_Un: "bitsOf bits (S \<union> T) = bitsOf bits S \<union> bitsOf bits T"
  by (auto simp: bitsOf_def)

lemma bitsOf_mono: "S \<subseteq> T \<Longrightarrow> bitsOf bits S \<subseteq> bitsOf bits T"
  by (auto simp: bitsOf_def)

lemma marks_has:
  assumes "registry_ok bits" "marks bits S m" "map_of bits a = Some i"
  shows "has m i \<longleftrightarrow> a \<in> S"
proof -
  have "i < 64 * length m" using registry_bound [OF assms(1,3)] assms(2) by (simp add: marks_def)
  then have "has m i \<longleftrightarrow> i \<in> bitsOf bits S" using assms(2) by (simp add: has_members marks_def)
  moreover have "i \<in> bitsOf bits S \<longleftrightarrow> a \<in> S"
    unfolding bitsOf_def using registry_inj [OF assms(1) assms(3)] assms(3) by blast
  ultimately show ?thesis by simp
qed

lemma marks_union:
  "marks bits S l \<Longrightarrow> marks bits T r \<Longrightarrow> marks bits (S \<union> T) (unionMask l r)"
  by (simp add: marks_def members_unionMask bitsOf_Un)

lemma marks_empty [simp]: "marks bits {} (emptyMask (wordsFor bits))"
  by (simp add: marks_def bitsOf_def)

lemma marks_subset:
  "marks bits S l \<Longrightarrow> marks bits T r \<Longrightarrow> subsetOf l r \<longleftrightarrow> bitsOf bits S \<subseteq> bitsOf bits T"
  by (simp add: marks_def subsetOf_members)

lemma bitsOf_subset:
  assumes "registry_ok bits"
  shows "bitsOf bits S \<subseteq> bitsOf bits T \<longleftrightarrow> S \<inter> fst ` set bits \<subseteq> T"
proof
  assume s: "bitsOf bits S \<subseteq> bitsOf bits T"
  show "S \<inter> fst ` set bits \<subseteq> T"
  proof
    fix a assume a: "a \<in> S \<inter> fst ` set bits"
    then obtain i where i: "map_of bits a = Some i" by (cases "map_of bits a") (auto simp: map_of_none)
    with a s obtain b where "b \<in> T" "map_of bits b = Some i" by (auto simp: bitsOf_def)
    then show "a \<in> T" using registry_inj [OF assms i] by blast
  qed
next
  assume s: "S \<inter> fst ` set bits \<subseteq> T"
  show "bitsOf bits S \<subseteq> bitsOf bits T"
  proof
    fix i assume "i \<in> bitsOf bits S"
    then obtain a where "a \<in> S" "map_of bits a = Some i" by (auto simp: bitsOf_def)
    moreover from this have "a \<in> T" using s by (force dest: map_of_SomeD)
    ultimately show "i \<in> bitsOf bits T" by (auto simp: bitsOf_def)
  qed
qed

lemma marks_fold:
  assumes "registry_ok bits" "set ms \<subseteq> fst ` set bits" "marks bits S m"
  shows "marks bits (S \<union> set ms) (fold (\<lambda>m. setBit (the (map_of bits m))) ms m)"
  using assms(2,3)
proof (induction ms arbitrary: S m)
  case (Cons a ms)
  then obtain i where i: "map_of bits a = Some i" by (cases "map_of bits a") (auto simp: map_of_none)
  have "bitsOf bits (insert a S) = insert i (bitsOf bits S)" using i by (auto simp: bitsOf_def)
  then have "marks bits (insert a S) (setBit i m)"
    using Cons.prems(2) registry_bound [OF assms(1) i] by (simp add: marks_def members_setBit)
  then show ?case using Cons.IH [of "insert a S" "setBit i m"] Cons.prems(1) i by simp
qed simp

lemma marks_support:
  "registry_ok bits \<Longrightarrow> set ms \<subseteq> fst ` set bits \<Longrightarrow>
   marks bits (set ms) (supportMask bits (wordsFor bits) ms)"
  using marks_fold [of bits ms "{}" "emptyMask (wordsFor bits)"] by (simp add: supportMask_def)

lemma members_fold_setBit:
  "list_all (\<lambda>i. i < 64 * length m) is' \<Longrightarrow> members (fold setBit is' m) = members m \<union> set is' \<and>
     length (fold setBit is' m) = length m"
  by (induction is' arbitrary: m) (auto simp: members_setBit)

lemma marks_full:
  assumes "registry_ok (evBits e)" "evWords e = wordsFor (evBits e)"
  shows "marks (evBits e) (fst ` set (evBits e)) (fullMask e)"
proof -
  let ?b = "evBits e"
  have "bitsOf ?b (fst ` set ?b) = set (map snd ?b)"
  proof (intro set_eqI iffI)
    fix i assume "i \<in> bitsOf ?b (fst ` set ?b)"
    then obtain m where "map_of ?b m = Some i" by (auto simp: bitsOf_def)
    then show "i \<in> set (map snd ?b)" by (force dest: map_of_SomeD)
  next
    fix i assume "i \<in> set (map snd ?b)"
    then obtain m where m: "(m, i) \<in> set ?b" by auto
    then have "map_of ?b m = Some i" using assms(1) by (simp add: registry_ok_def)
    then show "i \<in> bitsOf ?b (fst ` set ?b)" using m by (force simp: bitsOf_def)
  qed
  also have "\<dots> = {0..<length ?b}" using assms(1) by (simp add: registry_ok_def)
  finally have "bitsOf ?b (fst ` set ?b) = {0..<length ?b}" .
  moreover have "list_all (\<lambda>i. i < 64 * length (emptyMask (wordsFor ?b))) [0..<length ?b]"
    by (auto simp: list_all_iff wordsFor_def)
  ultimately show ?thesis
    using members_fold_setBit assms(2) by (simp add: marks_def fullMask_def)
qed

lemma newEvaluator_ok:
  "registry_ok (evBits (newEvaluator ms))" "evWords (newEvaluator ms) = wordsFor (evBits (newEvaluator ms))"
  "fst ` set (evBits (newEvaluator ms)) = set ms"
  by (simp_all add: newEvaluator_def Let_def registerModels_ok registerModels_dom)

end
