(* ===== verification/Matrix_Solve.thy ===== *)
theory Matrix_Solve
  imports Matrix_Masks
begin

text \<open>
  Correctness of the solver against the plain meaning of an expression, its full Cartesian
  expansion: the frontier holds a projection of every maximal combination, a decision is a
  cheapest one over all combinations of all sets, and containment queries are exact.
\<close>

section \<open>The expansion of an expression\<close>

fun products :: "string set list list \<Rightarrow> string set list" where
  "products [] = [{}]"
| "products (xs # xss) = concat (map (\<lambda>x. map (\<lambda>ys. x \<union> ys) (products xss)) xs)"

fun expand :: "lnode \<Rightarrow> string set list" where
  "expand (LLeaf m) = [{m}]"
| "expand (LRef r l) = expand l"
| "expand (LOr cs) = concat (map expand cs)"
| "expand (LAnd cs) = products (map expand cs)"

definition join :: "string set set \<Rightarrow> string set set \<Rightarrow> string set set" where
  "join A B = {S \<union> T |S T. S \<in> A \<and> T \<in> B}"

lemma join_assoc: "join (join A B) C = join A (join B C)"
proof (intro set_eqI iffI)
  fix U assume "U \<in> join (join A B) C"
  then obtain S T V where "S \<in> A" "T \<in> B" "V \<in> C" "U = (S \<union> T) \<union> V" by (auto simp: join_def)
  then have "S \<in> A" "T \<union> V \<in> join B C" "U = S \<union> (T \<union> V)" by (auto simp: join_def)
  then show "U \<in> join A (join B C)" unfolding join_def [of A] by blast
next
  fix U assume "U \<in> join A (join B C)"
  then obtain S T V where "S \<in> A" "T \<in> B" "V \<in> C" "U = S \<union> (T \<union> V)" by (auto simp: join_def)
  then have "S \<union> T \<in> join A B" "V \<in> C" "U = (S \<union> T) \<union> V" by (auto simp: join_def)
  then show "U \<in> join (join A B) C" unfolding join_def [of _ C] by blast
qed

lemma join_unit [simp]: "join {{}} A = A" "join A {{}} = A"
  by (auto simp: join_def)

lemma products_Cons: "set (products (xs # xss)) = join (set xs) (set (products xss))"
  by (auto simp: join_def)

lemma collect_expand: "S \<in> set (expand n) \<Longrightarrow> S \<subseteq> set (collect n)"
proof (induction n arbitrary: S)
  case (LAnd cs)
  have "S \<in> set (products (map expand cs)) \<Longrightarrow> S \<subseteq> (\<Union>c\<in>set cs. set (collect c))" for S
    using LAnd.IH
  proof (induction cs arbitrary: S)
    case (Cons c cs)
    from Cons.prems(1) obtain x y where
      xy: "x \<in> set (expand c)" "y \<in> set (products (map expand cs))" "S = x \<union> y" by auto
    have "x \<subseteq> set (collect c)" using Cons.prems(2) xy(1) by simp
    moreover have "y \<subseteq> (\<Union>c\<in>set cs. set (collect c))" using Cons.IH xy(2) Cons.prems(2) by simp
    ultimately show ?case using xy(3) by auto
  qed simp
  then show ?case using LAnd.prems by simp
qed fastforce+

section \<open>The frontier\<close>

text \<open>A state stands for the combination of its witness.\<close>

fun trailModels :: "witness \<Rightarrow> string set" where
  "trailModels NoWitness = {}"
| "trailModels (Witness m l r) = (if m = [] then {} else {m}) \<union> trailModels l \<union> trailModels r"

text \<open>\<open>covers e Ss states\<close>: every state is one of the combinations \<open>Ss\<close>, and the mask of some state
  includes that of every combination.\<close>

definition covers :: "evaluator \<Rightarrow> string set set \<Rightarrow> projectedState list \<Rightarrow> bool" where
  "covers e Ss states \<longleftrightarrow>
     (\<forall>s\<in>set states. \<exists>S\<in>Ss. marks (evBits e) S (mask s) \<and> trailModels (trail s) = S - {[]}) \<and>
     (\<forall>S\<in>Ss. \<exists>s\<in>set states. bitsOf (evBits e) S \<subseteq> members (mask s))"

definition sound :: "evaluator \<Rightarrow> string set set \<Rightarrow> projectedState list \<Rightarrow> bool" where
  "sound e Ss states \<longleftrightarrow>
     (\<forall>s\<in>set states. \<exists>S\<in>Ss. marks (evBits e) S (mask s) \<and> trailModels (trail s) = S - {[]})"

lemma sound_length: "sound e Ss states \<Longrightarrow> s \<in> set states \<Longrightarrow> length (mask s) = wordsFor (evBits e)"
  by (auto simp: sound_def marks_def)

lemma addToFrontier_sound:
  "sound e Ss states \<Longrightarrow> sound e Ss [c] \<Longrightarrow> sound e Ss (addToFrontier states c)"
  by (auto simp: sound_def addToFrontier_def)

lemma addToFrontier_covers:
  assumes "sound e Ss states" "sound e Ss [c]"
  shows "\<exists>s\<in>set (addToFrontier states c). members (mask c) \<subseteq> members (mask s)"
    and "s \<in> set states \<Longrightarrow> \<exists>t\<in>set (addToFrontier states c). members (mask s) \<subseteq> members (mask t)"
proof -
  have sub: "subsetOf (mask a) (mask b) \<longleftrightarrow> members (mask a) \<subseteq> members (mask b)"
    if "a \<in> set states \<union> {c}" "b \<in> set states \<union> {c}" for a b
    using that sound_length [OF assms(1)] sound_length [OF assms(2), of c]
    by (intro subsetOf_members) auto
  show "\<exists>s\<in>set (addToFrontier states c). members (mask c) \<subseteq> members (mask s)"
    using sub by (auto simp: addToFrontier_def list_ex_iff)
  show "\<exists>t\<in>set (addToFrontier states c). members (mask s) \<subseteq> members (mask t)" if "s \<in> set states"
  proof (cases "members (mask s) \<subseteq> members (mask c)")
    case True
    with sub that show ?thesis by (force simp: addToFrontier_def list_ex_iff)
  next
    case False
    with sub that have "\<not> subsetOf (mask s) (mask c)" by simp
    with that show ?thesis by (auto simp: addToFrontier_def)
  qed
qed

lemma foldl_frontier:
  assumes "sound e Ss states" "sound e Ss cs"
  shows "sound e Ss (foldl addToFrontier states cs)"
    and "s \<in> set states \<union> set cs \<Longrightarrow>
      \<exists>t\<in>set (foldl addToFrontier states cs). members (mask s) \<subseteq> members (mask t)"
proof -
  have "sound e Ss (foldl addToFrontier states cs) \<and> (\<forall>s\<in>set states \<union> set cs.
      \<exists>t\<in>set (foldl addToFrontier states cs). members (mask s) \<subseteq> members (mask t))"
    using assms
  proof (induction cs arbitrary: states)
    case (Cons c cs)
    let ?st = "addToFrontier states c"
    from Cons.prems have s1: "sound e Ss [c]" "sound e Ss cs" by (auto simp: sound_def)
    have s2: "sound e Ss ?st" using addToFrontier_sound [OF Cons.prems(1) s1(1)] .
    note IH = Cons.IH [OF s2 s1(2)]
    have "\<exists>t\<in>set (foldl addToFrontier ?st cs). members (mask s) \<subseteq> members (mask t)"
      if s: "s \<in> set states \<union> set (c # cs)" for s
    proof (cases "s \<in> set cs")
      case True
      then show ?thesis using IH by blast
    next
      case False
      with s have "s \<in> set states \<or> s = c" by auto
      then obtain t where "t \<in> set ?st" "members (mask s) \<subseteq> members (mask t)"
        using addToFrontier_covers [OF Cons.prems(1) s1(1)] by blast
      then show ?thesis using IH by (meson UnI1 order_trans)
    qed
    then show ?case using IH by simp
  qed auto
  then show "sound e Ss (foldl addToFrontier states cs)"
    and "s \<in> set states \<union> set cs \<Longrightarrow>
      \<exists>t\<in>set (foldl addToFrontier states cs). members (mask s) \<subseteq> members (mask t)" by blast+
qed

lemma covers_alt:
  "covers e Ss states \<longleftrightarrow> sound e Ss states \<and> (\<forall>S\<in>Ss. \<exists>s\<in>set states. bitsOf (evBits e) S \<subseteq> members (mask s))"
  by (simp add: covers_def sound_def)

lemma covers_foldl:
  assumes "covers e Ss cs"
  shows "covers e Ss (foldl addToFrontier [] cs)"
proof -
  have s: "sound e Ss []" "sound e Ss cs" using assms by (auto simp: covers_alt sound_def)
  have "\<exists>t\<in>set (foldl addToFrontier [] cs). bitsOf (evBits e) S \<subseteq> members (mask t)" if "S \<in> Ss" for S
  proof -
    have "\<forall>S\<in>Ss. \<exists>s\<in>set cs. bitsOf (evBits e) S \<subseteq> members (mask s)"
      using assms by (simp add: covers_alt)
    from bspec [OF this that] obtain c where c: "c \<in> set cs" "bitsOf (evBits e) S \<subseteq> members (mask c)" ..
    from foldl_frontier(2) [OF s UnI2 [OF c(1)]] obtain t where
      t: "t \<in> set (foldl addToFrontier [] cs)" "members (mask c) \<subseteq> members (mask t)" ..
    show ?thesis using t c(2) by (meson order_trans)
  qed
  then show ?thesis using foldl_frontier(1) [OF s] by (simp add: covers_alt)
qed

lemma covers_or:
  assumes "\<And>c. c \<in> set cs \<Longrightarrow> covers e (set (expand c)) (f c)"
  shows "covers e (set (concat (map expand cs))) (concat (map f cs))"
  unfolding covers_def
proof (intro conjI ballI)
  fix s assume "s \<in> set (concat (map f cs))"
  then obtain c where c: "c \<in> set cs" "s \<in> set (f c)" by auto
  then obtain S where "S \<in> set (expand c)" "marks (evBits e) S (mask s) \<and> trailModels (trail s) = S - {[]}"
    using assms [OF c(1)] unfolding covers_def by blast
  with c(1) show "\<exists>S\<in>set (concat (map expand cs)). marks (evBits e) S (mask s) \<and> trailModels (trail s) = S - {[]}"
    by auto
next
  fix S assume "S \<in> set (concat (map expand cs))"
  then obtain c where c: "c \<in> set cs" "S \<in> set (expand c)" by auto
  then obtain s where "s \<in> set (f c)" "bitsOf (evBits e) S \<subseteq> members (mask s)"
    using assms [OF c(1)] unfolding covers_def by blast
  with c(1) show "\<exists>s\<in>set (concat (map f cs)). bitsOf (evBits e) S \<subseteq> members (mask s)"
    by auto
qed

lemma covers_combine:
  assumes "covers e Ss ls" "covers e Ts rs"
  shows "covers e (join Ss Ts) (combine ls rs)"
  unfolding combine_def
proof (rule covers_foldl)
  let ?pairs = "concat (map (\<lambda>l. map (\<lambda>r. \<lparr>mask = unionMask (mask l) (mask r),
      trail = Witness [] (trail l) (trail r)\<rparr>) rs) ls)"
  let ?Us = "join Ss Ts"
  have "sound e ?Us ?pairs"
    unfolding sound_def
  proof
    fix p assume "p \<in> set ?pairs"
    then obtain l r where lr: "l \<in> set ls" "r \<in> set rs"
      and p: "p = \<lparr>mask = unionMask (mask l) (mask r), trail = Witness [] (trail l) (trail r)\<rparr>" by auto
    obtain S where S: "S \<in> Ss" "marks (evBits e) S (mask l)" "trailModels (trail l) = S - {[]}"
      using assms(1) lr(1) by (auto simp: covers_def)
    obtain T where T: "T \<in> Ts" "marks (evBits e) T (mask r)" "trailModels (trail r) = T - {[]}"
      using assms(2) lr(2) by (auto simp: covers_def)
    have "S \<union> T \<in> ?Us" unfolding join_def using S T by blast
    moreover have "marks (evBits e) (S \<union> T) (mask p)" using marks_union [OF S(2) T(2)] p by simp
    moreover have "trailModels (trail p) = S \<union> T - {[]}" using S(3) T(3) p by auto
    ultimately show "\<exists>U\<in>?Us. marks (evBits e) U (mask p) \<and> trailModels (trail p) = U - {[]}" by blast
  qed
  moreover have "\<exists>p\<in>set ?pairs. bitsOf (evBits e) U \<subseteq> members (mask p)" if U: "U \<in> ?Us" for U
  proof -
    from U obtain S T where ST: "S \<in> Ss" "T \<in> Ts" "U = S \<union> T" unfolding join_def by blast
    obtain l where l: "l \<in> set ls" "bitsOf (evBits e) S \<subseteq> members (mask l)"
      using assms(1) ST(1) by (auto simp: covers_def)
    obtain r where r: "r \<in> set rs" "bitsOf (evBits e) T \<subseteq> members (mask r)"
      using assms(2) ST(2) by (auto simp: covers_def)
    have "length (mask l) = length (mask r)"
      using assms l(1) r(1) by (auto simp: covers_def marks_def; metis)
    then have "bitsOf (evBits e) U \<subseteq> members (unionMask (mask l) (mask r))"
      using l r ST(3) by (auto simp: members_unionMask bitsOf_Un)
    then show ?thesis using l(1) r(1) by force
  qed
  ultimately show "covers e ?Us ?pairs" by (simp add: covers_alt)
qed

lemma covers_and:
  assumes "covers e Ss states" "\<And>c. c \<in> set cs \<Longrightarrow> covers e (set (expand c)) (f c)"
  shows "covers e (join Ss (set (products (map expand cs)))) (foldl combine states (map f cs))"
  using assms
proof (induction cs arbitrary: Ss states)
  case (Cons c cs)
  have "covers e (join Ss (set (expand c))) (combine states (f c))"
    by (rule covers_combine) (use Cons.prems in auto)
  then have "covers e (join (join Ss (set (expand c))) (set (products (map expand cs))))
      (foldl combine (combine states (f c)) (map f cs))"
    by (rule Cons.IH) (use Cons.prems(2) in auto)
  then show ?case by (simp only: join_assoc list.map foldl.simps products_Cons)
qed simp

lemma evaluate_covers:
  assumes "evWords e = wordsFor (evBits e)" "registry_ok (evBits e)"
  shows "covers e (set (expand n)) (evaluate e n)"
proof (induction n)
  case (LLeaf m)
  have "marks (evBits e) {m} (leafMask e m)"
  proof (cases "map_of (evBits e) m")
    case None
    then show ?thesis using assms(1) by (simp add: leafMask_def marks_def bitsOf_def)
  next
    case (Some i)
    then have "bitsOf (evBits e) {m} = {i}" by (auto simp: bitsOf_def)
    then show ?thesis using Some assms registry_bound [OF assms(2) Some]
      by (simp add: leafMask_def marks_def members_setBit)
  qed
  then show ?case by (auto simp: covers_def marks_def)
next
  case (LOr cs)
  show ?case using covers_foldl [OF covers_or, of cs e "evaluate e"] LOr.IH by simp
next
  case (LAnd cs)
  have "covers e {{}} [\<lparr>mask = emptyMask (evWords e), trail = NoWitness\<rparr>]"
    using assms(1) by (auto simp: covers_def bitsOf_def)
  from covers_and [OF this LAnd.IH] show ?case by simp
qed simp

section \<open>Support\<close>

definition program_ok :: "Program \<Rightarrow> bool" where
  "program_ok p \<longleftrightarrow> registry_ok (modelBits p) \<and>
     (\<forall>cs\<in>set (sets p). set (collect (setRoot cs)) \<subseteq> fst ` set (modelBits p) \<and>
        marks (modelBits p) (set (collect (setRoot cs))) (support cs))"

lemma fold_registerModels:
  "registry_ok bits \<Longrightarrow> registry_ok (fold registerModels mss bits) \<and>
     fst ` set (fold registerModels mss bits) = \<Union> (set ` set mss) \<union> fst ` set bits"
  by (induction mss arbitrary: bits) (auto simp: registerModels_ok registerModels_dom)

lemma computeSupport_ok:
  assumes "\<And>xs. set (iter xs) = set xs"
  shows "program_ok (computeSupport iter ss)"
proof -
  let ?ms = "map (\<lambda>s. iter (collect (setRoot s))) ss"
  let ?bits = "fold registerModels ?ms []"
  have reg: "registry_ok ?bits" "fst ` set ?bits = \<Union> (set ` set ?ms)"
    using fold_registerModels [of "[]" ?ms] by simp_all
  have "set (collect (setRoot cs)) \<subseteq> fst ` set ?bits \<and>
      marks ?bits (set (collect (setRoot cs))) (supportMask ?bits (wordsFor ?bits) (iter (collect (setRoot cs))))"
    if "cs \<in> set ss" for cs
  proof -
    have sub: "set (iter (collect (setRoot cs))) \<subseteq> fst ` set ?bits"
      unfolding reg(2) using that by auto
    from marks_support [OF reg(1) this] sub show ?thesis by (simp add: assms)
  qed
  moreover have "zip ss ?ms = map (\<lambda>s. (s, iter (collect (setRoot s)))) ss"
    by (induction ss) auto
  ultimately show ?thesis
    using reg(1) by (simp add: program_ok_def computeSupport_def Let_def)
qed

lemma Compile_ok:
  assumes "Compile iter defs resolve = Inr p" "\<And>xs. set (iter xs) = set xs"
  shows "program_ok p"
  using assms computeSupport_ok by (auto simp: Compile_def split: if_splits sum.splits)

lemma support_has:
  assumes "program_ok p" "cs \<in> set (sets p)"
  shows "m \<in> set (collect (setRoot cs)) \<longleftrightarrow>
    (\<exists>b. map_of (modelBits p) m = Some b \<and> has (support cs) b)"
proof -
  have reg: "registry_ok (modelBits p)" "marks (modelBits p) (set (collect (setRoot cs))) (support cs)"
    "set (collect (setRoot cs)) \<subseteq> fst ` set (modelBits p)"
    using assms by (auto simp: program_ok_def)
  show ?thesis
  proof (cases "map_of (modelBits p) m")
    case None
    then have "m \<notin> set (collect (setRoot cs))" using reg(3) by (auto simp only: map_of_none)
    then show ?thesis using None by simp
  next
    case (Some b)
    then show ?thesis using marks_has [OF reg(1,2)] by simp
  qed
qed

lemma supportsAll_iff:
  assumes "program_ok p" "cs \<in> set (sets p)"
  shows "supportsAll p cs ms \<longleftrightarrow> set ms \<subseteq> set (collect (setRoot cs))"
  using support_has [OF assms]
  by (induction ms) (auto split: option.splits)

section \<open>Containment\<close>

definition combos :: "Program \<Rightarrow> string set set" where
  "combos p = (\<Union>cs\<in>set (sets p). set (expand (setRoot cs)))"

lemma covers_full:
  assumes "ms \<noteq> []"
  shows "list_ex (\<lambda>s. subsetOf (fullMask (newEvaluator ms)) (mask s)) (evaluate (newEvaluator ms) n) \<longleftrightarrow>
    (\<exists>S\<in>set (expand n). set ms \<subseteq> S)"
proof -
  let ?e = "newEvaluator ms"
  note ok = newEvaluator_ok [of ms]
  have cov: "covers ?e (set (expand n)) (evaluate ?e n)" by (rule evaluate_covers [OF ok(2,1)])
  have full: "marks (evBits ?e) (set ms) (fullMask ?e)" using marks_full [OF ok(1,2)] ok(3) by simp
  have sub: "subsetOf (fullMask ?e) (mask s) \<longleftrightarrow> set ms \<subseteq> S" if "marks (evBits ?e) S (mask s)" for s S
    using marks_subset [OF full that] bitsOf_subset [OF ok(1)] ok(3) by simp
  show ?thesis
  proof
    assume "list_ex (\<lambda>s. subsetOf (fullMask ?e) (mask s)) (evaluate ?e n)"
    then obtain s where s: "s \<in> set (evaluate ?e n)" "subsetOf (fullMask ?e) (mask s)"
      by (auto simp: list_ex_iff)
    then obtain S where "S \<in> set (expand n)" "marks (evBits ?e) S (mask s)"
      using cov unfolding covers_def by blast
    then show "\<exists>S\<in>set (expand n). set ms \<subseteq> S" using sub s(2) by blast
  next
    assume "\<exists>S\<in>set (expand n). set ms \<subseteq> S"
    then obtain S where S: "S \<in> set (expand n)" "set ms \<subseteq> S" ..
    then obtain s where s: "s \<in> set (evaluate ?e n)" "bitsOf (evBits ?e) S \<subseteq> members (mask s)"
      using cov unfolding covers_def by blast
    obtain T where T: "marks (evBits ?e) T (mask s)" using cov s(1) unfolding covers_def by blast
    then have "members (fullMask ?e) \<subseteq> members (mask s)"
      using s(2) full bitsOf_mono [OF S(2)] by (auto simp: marks_def)
    then have "subsetOf (fullMask ?e) (mask s)" using full T by (simp add: marks_def subsetOf_members)
    then show "list_ex (\<lambda>s. subsetOf (fullMask ?e) (mask s)) (evaluate ?e n)"
      using s(1) by (auto simp: list_ex_iff)
  qed
qed

lemma findSet_iff:
  assumes "program_ok p" "set css \<subseteq> set (sets p)" "ms \<noteq> []"
  shows "findSet p (newEvaluator ms) ms css = find (\<lambda>cs. \<exists>S\<in>set (expand (setRoot cs)). set ms \<subseteq> S) css"
  using assms(2)
proof (induction css)
  case (Cons cs css)
  have "(\<exists>S\<in>set (expand (setRoot cs)). set ms \<subseteq> S) \<Longrightarrow> supportsAll p cs ms"
    using Cons.prems supportsAll_iff [OF assms(1)] collect_expand by (simp; blast)
  then show ?case using Cons covers_full [OF assms(3)] by auto
qed simp

section \<open>The search\<close>

definition searched :: "evaluator \<Rightarrow> (string \<rightharpoonup> int) \<Rightarrow> string list \<Rightarrow> nat \<Rightarrow>
    (compiledSet \<times> projectedState) set \<Rightarrow> best \<Rightarrow> bool" where
  "searched e costs running tb seen best \<longleftrightarrow>
     (case best of
        None \<Rightarrow> \<forall>(cs, s)\<in>seen. \<not> has (mask s) tb
      | Some (c, cs, s) \<Rightarrow> (cs, s) \<in> seen \<and> has (mask s) tb \<and> c = stateCost e costs running s \<and>
          (\<forall>(cs', s')\<in>seen. has (mask s') tb \<longrightarrow> c \<le> stateCost e costs running s'))"

lemma stateCost_nonneg:
  "(\<And>m. m \<in> set running \<Longrightarrow> 0 \<le> evictionCost costs m) \<Longrightarrow> 0 \<le> stateCost e costs running s"
  by (auto simp: stateCost_def missing_def intro!: sum_list_nonneg)

lemma considerState_searched:
  assumes "searched e costs running tb seen best" "\<And>m. m \<in> set running \<Longrightarrow> 0 \<le> evictionCost costs m"
  shows "searched e costs running tb (insert (cs, s) seen) (considerState e costs running tb cs s best)"
proof (cases best)
  case None
  then show ?thesis using assms(1) by (auto simp: searched_def considerState_def Let_def)
next
  case (Some b)
  obtain c cs' s' where b: "b = (c, cs', s')" by (cases b)
  have "0 \<le> c" using assms Some b stateCost_nonneg by (auto simp: searched_def)
  then show ?thesis using assms(1) Some b
    by (fastforce simp: searched_def considerState_def Let_def)
qed

lemma fold_considerState:
  assumes "\<And>m. m \<in> set running \<Longrightarrow> 0 \<le> evictionCost costs m"
  shows "searched e costs running tb seen best \<Longrightarrow>
    searched e costs running tb (seen \<union> Pair cs ` set states) (fold (considerState e costs running tb cs) states best)"
proof (induction states arbitrary: seen best)
  case (Cons s states)
  from Cons.IH [OF considerState_searched [OF Cons.prems assms]] show ?case by simp
qed simp

definition relevantStates :: "Program \<Rightarrow> string \<Rightarrow> evaluator \<Rightarrow> compiledSet list \<Rightarrow>
    (compiledSet \<times> projectedState) set" where
  "relevantStates p target e css =
     {(cs, s). cs \<in> set css \<and> target \<in> set (collect (setRoot cs)) \<and> s \<in> set (evaluate e (setRoot cs))}"

lemma fold_considerSet:
  assumes "\<And>m. m \<in> set running \<Longrightarrow> 0 \<le> evictionCost costs m" "program_ok p" "set css \<subseteq> set (sets p)"
  shows "searched e costs running (bitOf e target) seen best \<Longrightarrow>
    searched e costs running (bitOf e target) (seen \<union> relevantStates p target e css)
      (fold (considerSet p target e costs running) css best)"
  using assms(3)
proof (induction css arbitrary: seen best)
  case Nil
  then show ?case by (simp add: relevantStates_def)
next
  case (Cons cs css)
  let ?new = "if target \<in> set (collect (setRoot cs)) then Pair cs ` set (evaluate e (setRoot cs)) else {}"
  have "searched e costs running (bitOf e target) (seen \<union> ?new) (considerSet p target e costs running cs best)"
    using fold_considerState [OF assms(1) Cons.prems(1)] Cons.prems support_has [OF assms(2), of cs target]
    by (auto simp: considerSet_def split: option.splits)
  moreover have "seen \<union> relevantStates p target e (cs # css) = (seen \<union> ?new) \<union> relevantStates p target e css"
    by (auto simp: relevantStates_def)
  ultimately show ?case using Cons.IH Cons.prems(2) by simp
qed

section \<open>The decision\<close>

definition lostCost :: "(string \<rightharpoonup> int) \<Rightarrow> string list \<Rightarrow> string set \<Rightarrow> int" where
  "lostCost costs running S = sum_list (map (evictionCost costs) (filter (\<lambda>m. m \<notin> S) running))"

lemma missing_marks:
  assumes "registry_ok (evBits e)" "marks (evBits e) S (mask s)" "set running \<subseteq> fst ` set (evBits e)"
  shows "missing e running s = filter (\<lambda>m. m \<notin> S) running"
  unfolding missing_def
proof (rule filter_cong [OF refl])
  fix m assume "m \<in> set running"
  then have "m \<in> fst ` set (evBits e)" using assms(3) by blast
  then obtain i where "map_of (evBits e) m = Some i"
    by (cases "map_of (evBits e) m") (auto simp: map_of_none)
  then show "(\<not> has (mask s) (bitOf e m)) = (m \<notin> S)"
    using marks_has [OF assms(1,2)] by (simp add: bitOf_def)
qed

lemma lostCost_mono:
  assumes "\<And>m. m \<in> set running \<Longrightarrow> 0 \<le> evictionCost costs m" "\<And>m. m \<in> set running \<Longrightarrow> m \<in> S \<Longrightarrow> m \<in> T"
  shows "lostCost costs running T \<le> lostCost costs running S"
  using assms by (induction running) (auto simp: lostCost_def intro: add_increasing)

lemma visitWitness_spec:
  "distinct ms \<Longrightarrow> distinct (visitWitness w ms) \<and> set (visitWitness w ms) = set ms \<union> trailModels w"
  by (induction w ms rule: visitWitness.induct) auto

lemma flattenWitness_spec:
  "sorted (flattenWitness w)" "distinct (flattenWitness w)" "set (flattenWitness w) = trailModels w"
  using visitWitness_spec [of "[]" w] by (simp_all add: flattenWitness_def)

lemma Solve_spec:
  assumes "program_ok p" "target \<notin> set running" "\<And>m. m \<in> set running \<Longrightarrow> 0 \<le> evictionCost costs m"
    and d: "d = Solve p target running costs"
  shows "(\<exists>cs\<in>set (sets p). \<exists>S\<in>set (expand (setRoot cs)). target \<in> S \<and> SetName d = setName cs \<and>
        DSL d = setDSL cs \<and> set (TargetSet d) = S - {[]} \<and> sorted (TargetSet d) \<and> distinct (TargetSet d) \<and>
        Evict d = filter (\<lambda>m. m \<notin> S) running \<and> TotalCost d = lostCost costs running S \<and>
        (\<forall>T\<in>combos p. target \<in> T \<longrightarrow> lostCost costs running S \<le> lostCost costs running T)) \<or>
      ((\<forall>S\<in>combos p. target \<notin> S) \<and> Evict d = running \<and> TargetSet d = [target])"
proof -
  let ?e = "newEvaluator (target # running)"
  let ?best = "fold (considerSet p target ?e costs running) (sets p) None"
  let ?rel = "relevantStates p target ?e (sets p)"
  note ok = newEvaluator_ok [of "target # running"]
  have runsub: "set running \<subseteq> fst ` set (evBits ?e)" using ok(3) by auto
  obtain tb where tb: "map_of (evBits ?e) target = Some tb"
    using ok(3) by (cases "map_of (evBits ?e) target") (auto simp: map_of_none)
  have bit: "bitOf ?e target = tb" using tb by (simp add: bitOf_def)
  have cov: "covers ?e (set (expand n)) (evaluate ?e n)" for n by (rule evaluate_covers [OF ok(2,1)])
  have hasT: "has (mask s) tb \<longleftrightarrow> target \<in> S" if "marks (evBits ?e) S (mask s)" for s S
    using marks_has [OF ok(1) that tb] .
  have cost: "stateCost ?e costs running s = lostCost costs running S" if "marks (evBits ?e) S (mask s)" for s S
    using missing_marks [OF ok(1) that runsub] by (simp add: stateCost_def lostCost_def)
  have search: "searched ?e costs running tb ?rel ?best"
    using fold_considerSet [OF assms(3,1) order_refl, where e = ?e and target = target and seen = "{}" and best = None] bit
    by (simp add: searched_def [of _ _ _ _ "{}"])
  have below: "\<exists>cs s. (cs, s) \<in> ?rel \<and> has (mask s) tb \<and> stateCost ?e costs running s \<le> lostCost costs running T"
    if T: "T \<in> combos p" "target \<in> T" for T
  proof -
    obtain cs where cs: "cs \<in> set (sets p)" "T \<in> set (expand (setRoot cs))" using T(1) by (auto simp: combos_def)
    obtain s where s: "s \<in> set (evaluate ?e (setRoot cs))" "bitsOf (evBits ?e) T \<subseteq> members (mask s)"
      using cov cs(2) unfolding covers_def by blast
    obtain S where S: "marks (evBits ?e) S (mask s)" using cov s(1) unfolding covers_def by blast
    then have sub: "T \<inter> set (target # running) \<subseteq> S"
      using s(2) bitsOf_subset [OF ok(1)] ok(3) by (simp add: marks_def)
    have "(cs, s) \<in> ?rel" using cs s(1) T(2) collect_expand by (auto simp: relevantStates_def)
    moreover have "has (mask s) tb" using hasT [OF S] sub T(2) by auto
    moreover have "lostCost costs running S \<le> lostCost costs running T"
      using sub by (intro lostCost_mono assms(3)) auto
    ultimately show ?thesis using cost [OF S] by (intro exI [of _ cs] exI [of _ s]) simp
  qed
  show ?thesis
  proof (cases ?best)
    case None
    with search below have "\<forall>S\<in>combos p. target \<notin> S" by (fastforce simp: searched_def)
    moreover have "Evict d = running" "TargetSet d = [target]"
      using None assms(2) d by (simp_all add: Solve_def)
    ultimately show ?thesis by blast
  next
    case (Some b)
    obtain c cs s where b: "b = (c, cs, s)" by (cases b)
    with Some search have s: "(cs, s) \<in> ?rel" "has (mask s) tb" "c = stateCost ?e costs running s"
      and least: "\<And>cs' s'. (cs', s') \<in> ?rel \<Longrightarrow> has (mask s') tb \<Longrightarrow> c \<le> stateCost ?e costs running s'"
      by (auto simp: searched_def)
    have cs: "cs \<in> set (sets p)" "s \<in> set (evaluate ?e (setRoot cs))" using s(1) by (auto simp: relevantStates_def)
    obtain S where S: "S \<in> set (expand (setRoot cs))" "marks (evBits ?e) S (mask s)" "trailModels (trail s) = S - {[]}"
      using cov cs(2) unfolding covers_def by blast
    have D: "Evict d = filter (\<lambda>m. m \<notin> S) running" "TargetSet d = flattenWitness (trail s)"
      "SetName d = setName cs" "DSL d = setDSL cs" "TotalCost d = lostCost costs running S"
      using Some b assms(2) d missing_marks [OF ok(1) S(2) runsub] s(3) cost [OF S(2)]
      by (simp_all add: Solve_def Let_def)
    have "lostCost costs running S \<le> lostCost costs running T" if "T \<in> combos p" "target \<in> T" for T
      using below [OF that] least s(3) cost [OF S(2)] by fastforce
    then show ?thesis
      using cs(1) S(1,3) D hasT [OF S(2)] s(2) flattenWitness_spec [of "trail s"] by (intro disjI1) auto
  qed
qed

end
