(* ===== verification/Matrix_Topo.thy ===== *)
theory Matrix_Topo
  imports Matrix_Program
begin

text \<open>
  The order of the compiled sets: a depth-first search that ends within its fuel, lists every set
  after the sets it refers to, and fails exactly on a cycle of references. Linking then gives
  every reference the tree of the set it names.
\<close>

section \<open>Orders\<close>

fun deps_before :: "(string \<Rightarrow> string list) \<Rightarrow> string set \<Rightarrow> string list \<Rightarrow> bool" where
  "deps_before dep seen [] \<longleftrightarrow> True"
| "deps_before dep seen (n # ns) \<longleftrightarrow> set (dep n) \<subseteq> seen \<and> n \<notin> seen \<and> deps_before dep (insert n seen) ns"

lemma deps_before_snoc:
  "deps_before dep seen (ns @ [n]) \<longleftrightarrow>
     deps_before dep seen ns \<and> set (dep n) \<subseteq> seen \<union> set ns \<and> n \<notin> seen \<union> set ns"
  by (induction ns arbitrary: seen) auto

definition refers :: "(string \<Rightarrow> string list) \<Rightarrow> (string \<times> string) set" where
  "refers dep = {(a, b). b \<in> set (dep a)}"

section \<open>The search\<close>

definition searching :: "(string \<Rightarrow> string list) \<Rightarrow> string set \<Rightarrow> string set \<Rightarrow> topo \<Rightarrow> bool" where
  "searching dep names path s \<longleftrightarrow>
     (\<forall>n. fst s n \<in> {0, 1, 2} \<and> (fst s n = 1 \<longleftrightarrow> n \<in> path) \<and> (fst s n = 2 \<longleftrightarrow> n \<in> set (snd s))) \<and>
     set (snd s) \<subseteq> names \<and> deps_before dep {} (snd s)"

lemma searchingD:
  assumes "searching dep names path s"
  shows "fst s n = Suc 0 \<longleftrightarrow> n \<in> path" "fst s n = 2 \<longleftrightarrow> n \<in> set (snd s)"
    "fst s n = 0 \<longleftrightarrow> n \<notin> path \<and> n \<notin> set (snd s)"
  using assms by (auto simp: searching_def)

definition unvisited :: "string set \<Rightarrow> topo \<Rightarrow> nat" where
  "unvisited names s = card {n\<in>names. fst s n = 0}"

definition search_result ::
    "(string \<Rightarrow> string list) \<Rightarrow> string set \<Rightarrow> string set \<Rightarrow> string list \<Rightarrow> topo \<Rightarrow> compile_error + topo \<Rightarrow> bool" where
  "search_result dep names path ds s r \<longleftrightarrow>
     (case r of
        Inl e \<Rightarrow> \<exists>c. e = Circular c \<and> (c, c) \<in> (refers dep)\<^sup>+
      | Inr t \<Rightarrow> searching dep names path t \<and> set (snd s) \<subseteq> set (snd t) \<and> set ds \<subseteq> set (snd t))"

lemma unvisited_mono:
  assumes "finite names" "searching dep names path s" "searching dep names path t" "set (snd s) \<subseteq> set (snd t)"
  shows "unvisited names t \<le> unvisited names s"
  unfolding unvisited_def
proof (rule card_mono)
  show "{n\<in>names. fst t n = 0} \<subseteq> {n\<in>names. fst s n = 0}"
  proof clarify
    fix n assume n: "n \<in> names" "fst t n = 0"
    then show "fst s n = 0" using searchingD [OF assms(3), of n] searchingD [OF assms(2), of n] assms(4) by auto
  qed
qed (use assms(1) in simp)

lemma times_sub: "A \<times> B \<subseteq> R \<Longrightarrow> C \<subseteq> B \<Longrightarrow> A \<times> C \<subseteq> R"
  by blast

lemma search_ok:
  assumes "finite names"
  shows "searching dep names path s \<Longrightarrow> \<forall>n\<in>names. set (dep n) \<subseteq> names \<Longrightarrow> n \<in> names \<Longrightarrow> path \<subseteq> names \<Longrightarrow> path \<times> {n} \<subseteq> (refers dep)\<^sup>+ \<Longrightarrow>
      unvisited names s < f \<Longrightarrow> search_result dep names path [n] s (visit f dep n s)"
    and "searching dep names path s \<Longrightarrow> \<forall>n\<in>names. set (dep n) \<subseteq> names \<Longrightarrow> set ds \<subseteq> names \<Longrightarrow> path \<subseteq> names \<Longrightarrow> path \<times> set ds \<subseteq> (refers dep)\<^sup>+ \<Longrightarrow>
      unvisited names s < f \<Longrightarrow> search_result dep names path ds s (visitAll f dep ds s)"
proof (induction f dep n s and f dep ds s arbitrary: path and path rule: visit_visitAll.induct)
  case (1 dep n s)
  then show ?case by simp
next
  case (2 f dep n s)
  let ?in = "((fst s)(n := 1), snd s)"
  show ?case
  proof (cases "fst s n = 0")
    case False
    then consider "fst s n = 1" | "fst s n = 2" using searchingD [OF "2.prems"(1), of n] by auto
    then show ?thesis
    proof cases
      case 1
      then have "n \<in> path" using searchingD [OF "2.prems"(1), of n] by simp
      then show ?thesis using 1 "2.prems"(5) by (auto simp: search_result_def)
    next
      case 2
      then show ?thesis using "2.prems"(1) searchingD [OF "2.prems"(1), of n] by (auto simp: search_result_def)
    qed
  next
    case white: True
    then have n: "n \<notin> path" "n \<notin> set (snd s)" using searchingD [OF "2.prems"(1), of n] by auto
    have inn: "searching dep names (insert n path) ?in"
      using "2.prems"(1) white n by (auto simp: searching_def)
    have "{m\<in>names. fst s m = 0} = insert n {m\<in>names. fst ?in m = 0}" using white "2.prems"(3) by auto
    then have "unvisited names s = Suc (unvisited names ?in)" using assms by (simp add: unvisited_def)
    then have fuel: "unvisited names ?in < f" using "2.prems"(6) by simp
    have "path \<times> set (dep n) \<subseteq> (refers dep)\<^sup>+"
      using "2.prems"(5) by (auto simp: refers_def intro: trancl_into_trancl)
    then have path: "insert n path \<times> set (dep n) \<subseteq> (refers dep)\<^sup>+"
      by (auto simp: refers_def)
    have res: "search_result dep names (insert n path) (dep n) ?in (visitAll f dep (dep n) ?in)"
    proof (rule "2.IH" [OF _ _ inn "2.prems"(2) bspec [OF "2.prems"(2,3)] _ path fuel])
      show "insert n path \<subseteq> names" using "2.prems"(3,4) by simp
    qed (use white in simp_all)
    show ?thesis
    proof (cases "visitAll f dep (dep n) ?in")
      case (Inl e)
      then show ?thesis using res white by (auto simp: search_result_def)
    next
      case (Inr t)
      with res have t: "searching dep names (insert n path) t" "set (snd s) \<subseteq> set (snd t)" "set (dep n) \<subseteq> set (snd t)"
        by (auto simp: search_result_def)
      have "n \<notin> set (snd t)" using searchingD [OF t(1), of n] by auto
      then have "searching dep names path ((fst t)(n := 2), snd t @ [n])"
        using t n(1) "2.prems"(3) by (auto simp: searching_def deps_before_snoc)
      then show ?thesis using Inr white t(2) by (auto simp: search_result_def)
    qed
  qed
next
  case (3 f dep s)
  then show ?case by (simp add: search_result_def)
next
  case (4 f dep d ds s)
  have res: "search_result dep names path [d] s (visit f dep d s)"
  proof (rule "4.IH"(1) [OF "4.prems"(1,2) _ "4.prems"(4) _ "4.prems"(6)])
    show "path \<times> {d} \<subseteq> (refers dep)\<^sup>+" using times_sub [OF "4.prems"(5)] by simp
  qed (use "4.prems"(3) in simp)
  show ?case
  proof (cases "visit f dep d s")
    case (Inl e)
    then show ?thesis using res by (simp add: search_result_def)
  next
    case (Inr t)
    with res have t: "searching dep names path t" "set (snd s) \<subseteq> set (snd t)" "d \<in> set (snd t)"
      by (auto simp: search_result_def)
    have "unvisited names t < f" using unvisited_mono [OF assms "4.prems"(1) t(1,2)] "4.prems"(6) by simp
    have "search_result dep names path ds t (visitAll f dep ds t)"
    proof (rule "4.IH"(2) [OF Inr t(1) "4.prems"(2) _ "4.prems"(4)])
      show "path \<times> set ds \<subseteq> (refers dep)\<^sup>+" using times_sub [OF "4.prems"(5)] by auto
    qed (use "4.prems"(3) \<open>unvisited names t < f\<close> in simp_all)
    then show ?thesis using Inr t by (auto simp: search_result_def split: sum.splits)
  qed
qed

lemma topoLoop_ok:
  assumes "finite names" "\<And>n. n \<in> names \<Longrightarrow> set (dep n) \<subseteq> names" "card names < f"
  shows "searching dep names {} s \<Longrightarrow> set (map defName ds) \<subseteq> names \<Longrightarrow>
    search_result dep names {} (map defName ds) s (topoLoop f dep ds s)"
proof (induction ds arbitrary: s)
  case (Cons d ds)
  have fuel: "unvisited names s < f"
    using card_mono [OF assms(1), of "{n\<in>names. fst s n = 0}"] assms(3) by (simp add: unvisited_def)
  show ?case
  proof (cases "fst s (defName d) = 0")
    case False
    then have "defName d \<in> set (snd s)" using searchingD [OF Cons.prems(1), of "defName d"] by auto
    then show ?thesis using False Cons.IH [OF Cons.prems(1)] Cons.prems(2)
      by (auto simp: search_result_def split: sum.splits)
  next
    case white: True
    have res: "search_result dep names {} [defName d] s (visit f dep (defName d) s)"
      using search_ok(1) [OF assms(1) Cons.prems(1)] assms(2) Cons.prems(2) fuel by simp
    show ?thesis
    proof (cases "visit f dep (defName d) s")
      case (Inl e)
      then show ?thesis using res white by (simp add: search_result_def)
    next
      case (Inr t)
      with res have t: "searching dep names {} t" "set (snd s) \<subseteq> set (snd t)" "defName d \<in> set (snd t)"
        by (auto simp: search_result_def)
      then show ?thesis using Inr white Cons.IH [OF t(1)] Cons.prems(2)
        by (auto simp: search_result_def split: sum.splits)
    qed
  qed
qed (simp add: search_result_def)

lemma topologicalOrder_spec:
  assumes "\<And>n. n \<in> set (map defName defs) \<Longrightarrow> set (dep n) \<subseteq> set (map defName defs)"
  shows "case topologicalOrder defs dep of
      Inl e \<Rightarrow> \<exists>c. e = Circular c \<and> (c, c) \<in> (refers dep)\<^sup>+
    | Inr order \<Rightarrow> set order = set (map defName defs) \<and> deps_before dep {} order"
proof -
  let ?names = "set (map defName defs)"
  have "card ?names < length defs + 1"
    using card_length [of "map defName defs"] by simp
  moreover have "searching dep ?names {} (\<lambda>_. 0, [])" by (simp add: searching_def)
  ultimately have "search_result dep ?names {} (map defName defs) (\<lambda>_. 0, [])
      (topoLoop (length defs + 1) dep defs (\<lambda>_. 0, []))"
    using assms by (intro topoLoop_ok) auto
  then show ?thesis
    by (fastforce simp: topologicalOrder_def search_result_def searching_def split: sum.splits)
qed

section \<open>Resolved trees\<close>

fun refNames :: "node \<Rightarrow> string set" where
  "refNames (Leaf m) = {}"
| "refNames (Ref r) = {r}"
| "refNames (And cs) = \<Union> (refNames ` set cs)"
| "refNames (Or cs) = \<Union> (refNames ` set cs)"

lemma resolve_refs:
  "resolveNode rs sn d n refs = Inr (n', refs') \<Longrightarrow>
     set refs' = set refs \<union> refNames n' \<and> (\<forall>r\<in>refNames n'. sn r)"
  "resolveNodes rs sn d ns refs = Inr (ns', refs') \<Longrightarrow>
     set refs' = set refs \<union> \<Union> (refNames ` set ns') \<and> (\<forall>r\<in>\<Union> (refNames ` set ns'). sn r)"
proof (induction rs sn d n refs and rs sn d ns refs arbitrary: n' refs' and ns' refs' rule: resolveNode_resolveNodes.induct)
  case (6 rs sn d c cs refs)
  then obtain c' refs1 cs' where c: "resolveNode rs sn d c refs = Inr (c', refs1)"
    "resolveNodes rs sn d cs refs1 = Inr (cs', refs')" "ns' = c' # cs'"
    by (auto split: sum.splits)
  have "set refs1 = set refs \<union> refNames c' \<and> (\<forall>r\<in>refNames c'. sn r)" using "6.IH"(1) [OF c(1)] .
  moreover have "set refs' = set refs1 \<union> \<Union> (refNames ` set cs') \<and> (\<forall>r\<in>\<Union> (refNames ` set cs'). sn r)"
    using "6.IH"(2) [OF c(1) refl c(2)] .
  ultimately show ?case using c(3) by auto
qed (auto split: option.splits sum.splits if_splits)

definition tables_ok :: "(string \<Rightarrow> bool) \<Rightarrow> tables \<Rightarrow> bool" where
  "tables_ok sn t \<longleftrightarrow>
     (\<forall>n r. roots t n = Some r \<longrightarrow> set (deps t n) = refNames r \<and> (\<forall>m\<in>refNames r. sn m))"

lemma compileDefs_ok:
  "compileDefs rs sn ds t = Inr u \<Longrightarrow> tables_ok sn t \<Longrightarrow>
     tables_ok sn u \<and> dom (roots u) = dom (roots t) \<union> set (map defName ds)"
proof (induction rs sn ds t rule: compileDefs.induct)
  case (2 rs sn d ds t)
  then obtain root root' refs where r: "parseDSL (defDSL d) = Inr root"
    "resolveNode rs sn (defName d) root [] = Inr (root', refs)"
    by (auto split: sum.splits)
  let ?t = "\<lparr>roots = (roots t)(defName d \<mapsto> root'), dslByName = (dslByName t)(defName d \<mapsto> defDSL d),
      deps = (deps t)(defName d := refs)\<rparr>"
  have "tables_ok sn ?t"
    using "2.prems"(2) resolve_refs(1) [OF r(2)] by (simp add: tables_ok_def)
  moreover have "compileDefs rs sn ds ?t = Inr u" using "2.prems"(1) r by simp
  ultimately show ?case using "2.IH" [OF r(1) r(2) refl] by auto
qed simp

section \<open>Linked programs\<close>

text \<open>\<open>linksTo env n\<close>: every reference in the linked tree holds the tree its name has in \<open>env\<close>.\<close>

fun linksTo :: "(string \<rightharpoonup> lnode) \<Rightarrow> lnode \<Rightarrow> bool" where
  "linksTo env (LLeaf m) \<longleftrightarrow> True"
| "linksTo env (LRef r l) \<longleftrightarrow> env r = Some l \<and> linksTo env l"
| "linksTo env (LAnd cs) \<longleftrightarrow> list_all (linksTo env) cs"
| "linksTo env (LOr cs) \<longleftrightarrow> list_all (linksTo env) cs"

lemma linkNode_links:
  "refNames n \<subseteq> dom env \<Longrightarrow> (\<And>r l. env r = Some l \<Longrightarrow> linksTo env l) \<Longrightarrow> linksTo env (linkNode env n)"
proof (induction n)
  case (Ref r)
  then obtain l where "env r = Some l" by auto
  then show ?case using Ref.prems(2) by simp
qed (auto simp: list_all_iff)

lemma linksTo_extend: "linksTo env l \<Longrightarrow> env \<subseteq>\<^sub>m env' \<Longrightarrow> linksTo env' l"
  by (induction l) (auto simp: list_all_iff map_le_def dom_def)

definition rootMap :: "compiledSet list \<Rightarrow> string \<rightharpoonup> lnode" where
  "rootMap css = map_of (map (\<lambda>cs. (setName cs, setRoot cs)) css)"

lemma linkSets_links:
  assumes "deps_before dep (dom env) ns" "\<And>n. n \<in> set ns \<Longrightarrow> \<exists>r. roots t n = Some r \<and> refNames r = set (dep n)"
    "\<And>r l. env r = Some l \<Longrightarrow> linksTo env l"
  shows "\<forall>cs\<in>set (linkSets t ns env). linksTo (env ++ rootMap (linkSets t ns env)) (setRoot cs)"
  using assms
proof (induction ns arbitrary: env)
  case (Cons n ns)
  obtain r where r: "roots t n = Some r" "refNames r = set (dep n)" using Cons.prems(2) by auto
  let ?l = "linkNode env r" and ?env = "env(n \<mapsto> linkNode env r)"
  let ?rest = "linkSets t ns ?env"
  have new: "n \<notin> dom env" and sub: "refNames r \<subseteq> dom env" using Cons.prems(1) r(2) by auto
  have le: "env \<subseteq>\<^sub>m ?env" using new by (auto simp: map_le_def)
  have link: "linksTo env ?l" using linkNode_links [OF sub] Cons.prems(3) by blast
  have links: "linksTo ?env l" if "?env a = Some l" for a l
    using that link Cons.prems(3) linksTo_extend [OF _ le] by (auto split: if_splits)
  have deps: "deps_before dep (dom ?env) ns" using Cons.prems(1) by simp
  have rest: "\<forall>cs\<in>set ?rest. linksTo (?env ++ rootMap ?rest) (setRoot cs)"
  proof (rule Cons.IH [OF deps])
    show "\<exists>r. roots t m = Some r \<and> refNames r = set (dep m)" if "m \<in> set ns" for m
      using Cons.prems(2) that by simp
  qed (rule links)
  have names: "setName ` set (linkSets t ns e) = set ns" for e
    by (induction ns arbitrary: e) (auto simp: Let_def)
  have dist: "n \<notin> set ns" "dom env \<inter> set ns = {}"
  proof -
    have "deps_before dep s ns \<Longrightarrow> s \<inter> set ns = {}" for s by (induction ns arbitrary: s) auto
    from this [OF deps] show "n \<notin> set ns" "dom env \<inter> set ns = {}" by auto
  qed
  have dom: "dom (rootMap ?rest) = set ns" using names by (force simp: rootMap_def dom_map_of_conv_image_fst image_image)
  have eq: "env ++ rootMap (linkSets t (n # ns) env) = ?env ++ rootMap ?rest"
  proof
    fix a
    show "(env ++ rootMap (linkSets t (n # ns) env)) a = (?env ++ rootMap ?rest) a"
    proof (cases "a = n")
      case True
      then have "rootMap ?rest a = None" using dom dist(1) by (metis domIff)
      then show ?thesis using True r(1) by (simp add: Let_def rootMap_def map_add_def)
    next
      case False
      then show ?thesis using r(1) by (simp add: Let_def rootMap_def map_add_def split: option.splits)
    qed
  qed
  have "?env \<subseteq>\<^sub>m ?env ++ rootMap ?rest"
    unfolding map_le_def
  proof
    fix a assume "a \<in> dom ?env"
    then have "a \<notin> dom (rootMap ?rest)" using dom dist by auto
    then show "?env a = (?env ++ rootMap ?rest) a" by (simp add: map_add_dom_app_simps)
  qed
  then have "linksTo (?env ++ rootMap ?rest) ?l" using linksTo_extend [OF linksTo_extend [OF link le]] by blast
  then show ?case using rest r(1) eq by (simp add: Let_def)
qed simp

lemma linkSets_names: "map setName (linkSets t ns env) = ns"
  by (induction ns arbitrary: env) (auto simp: Let_def)

lemma computeSupport_names:
  "map setName (sets (computeSupport iter ss)) = map setName ss"
  "map setRoot (sets (computeSupport iter ss)) = map setRoot ss"
proof -
  have "map g (map (\<lambda>(s, ms). s\<lparr>support := f ms\<rparr>) (zip ss (map h ss))) = map g ss"
    if "\<And>s m. g (s\<lparr>support := m\<rparr>) = g s" for g :: "compiledSet \<Rightarrow> 'b" and f and h :: "compiledSet \<Rightarrow> 'c"
    using that by (induction ss) auto
  from this [of setName] this [of setRoot]
  show "map setName (sets (computeSupport iter ss)) = map setName ss"
    "map setRoot (sets (computeSupport iter ss)) = map setRoot ss"
    by (auto simp: computeSupport_def Let_def)
qed

text \<open>The names a linked tree refers to directly.\<close>

fun lrefs :: "lnode \<Rightarrow> string set" where
  "lrefs (LLeaf m) = {}"
| "lrefs (LRef r l) = {r}"
| "lrefs (LAnd cs) = \<Union> (lrefs ` set cs)"
| "lrefs (LOr cs) = \<Union> (lrefs ` set cs)"

lemma lrefs_linkNode: "lrefs (linkNode env n) = refNames n"
  by (induction n) auto

lemma deps_before_nth:
  "deps_before dep seen ns \<Longrightarrow> i < length ns \<Longrightarrow> set (dep (ns ! i)) \<subseteq> seen \<union> set (take i ns)"
proof (induction ns arbitrary: seen i)
  case (Cons n ns)
  show ?case
  proof (cases i)
    case (Suc j)
    then show ?thesis using Cons.IH [of "insert n seen" j] Cons.prems by simp
  qed (use Cons.prems in simp)
qed simp

lemma linkSets_nth:
  "i < length ns \<Longrightarrow> roots t (ns ! i) = Some r \<Longrightarrow> lrefs (setRoot (linkSets t ns env ! i)) = refNames r"
proof (induction ns arbitrary: env i)
  case (Cons n ns)
  then show ?case by (cases i) (simp_all add: Let_def lrefs_linkNode)
qed simp

end
