(* ===== verification/Matrix_Props.thy ===== *)
theory Matrix_Props
  imports Matrix_Print Matrix_Solve Matrix_Topo
begin

text \<open>The properties of the matrix language and its solver, stated for compiled programs.\<close>

section \<open>Compilation\<close>

text \<open>A successful compilation keeps every set exactly once, under the names of the
  definitions, lists a set only after the sets its expression refers to, and links every
  reference to the tree of the set it names.\<close>

theorem Compile_links:
  assumes "Compile iter defs resolve = Inr p"
  shows "distinct (map setName (sets p)) \<and> setName ` set (sets p) = defName ` set defs \<and>
    (\<forall>cs\<in>set (sets p). linksTo (rootMap (sets p)) (setRoot cs)) \<and>
    (\<forall>i<length (sets p). lrefs (setRoot (sets p ! i)) \<subseteq> set (take i (map setName (sets p))))"
proof -
  let ?names = "set (map defName defs)"
  obtain t order where c: "compileDefs resolve (\<lambda>n. n \<in> ?names) defs noTables = Inr t"
    "topologicalOrder defs (deps t) = Inr order" "p = computeSupport iter (linkSets t order Map.empty)"
    using assms by (auto simp: Compile_def split: if_splits sum.splits)
  have t: "tables_ok (\<lambda>n. n \<in> ?names) t" "dom (roots t) = ?names"
    using compileDefs_ok [OF c(1)] by (auto simp: tables_ok_def noTables_def)
  have sub: "set (deps t n) \<subseteq> ?names" if "n \<in> ?names" for n
  proof -
    have "n \<in> dom (roots t)" using that t(2) by simp
    then obtain r where "roots t n = Some r" by blast
    then show ?thesis using t(1) by (auto simp: tables_ok_def)
  qed
  have order: "set order = ?names" "deps_before (deps t) {} order"
    using topologicalOrder_spec [of defs "deps t"] sub c(2) by auto
  have names: "map setName (sets p) = order" and rts: "map setRoot (sets p) = map setRoot (linkSets t order Map.empty)"
    using c(3) computeSupport_names linkSets_names by simp_all
  have rm: "rootMap (sets p) = rootMap (linkSets t order Map.empty)"
  proof -
    have "map (\<lambda>cs. (setName cs, setRoot cs)) css = zip (map setName css) (map setRoot css)"
      for css :: "compiledSet list" by (induction css) auto
    then show ?thesis using names rts by (simp add: rootMap_def linkSets_names)
  qed
  have known: "\<exists>r. roots t n = Some r \<and> refNames r = set (deps t n)" if "n \<in> set order" for n
  proof -
    have "n \<in> dom (roots t)" using that t(2) order(1) by simp
    then obtain r where "roots t n = Some r" by blast
    then show ?thesis using t(1) by (auto simp: tables_ok_def)
  qed
  have links: "\<forall>cs\<in>set (linkSets t order Map.empty).
      linksTo (Map.empty ++ rootMap (linkSets t order Map.empty)) (setRoot cs)"
    by (rule linkSets_links [where dep = "deps t"]) (use order(2) known in auto)
  have "\<forall>l\<in>set (map setRoot (sets p)). linksTo (rootMap (sets p)) l"
    unfolding rts rm using links by simp
  moreover have "distinct order"
  proof -
    have "deps_before d s ns \<Longrightarrow> distinct ns \<and> s \<inter> set ns = {}" for d s ns
      by (induction ns arbitrary: s) auto
    with order(2) show ?thesis by blast
  qed
  moreover have "setName ` set (sets p) = defName ` set defs"
    using names order(1) by (metis list.set_map)
  moreover have "lrefs (setRoot (sets p ! i)) \<subseteq> set (take i (map setName (sets p)))"
    if i: "i < length (sets p)" for i
  proof -
    have len: "length (sets p) = length order" using names by (metis length_map)
    then have o: "order ! i \<in> set order" using i by simp
    then obtain r where r: "roots t (order ! i) = Some r" "refNames r = set (deps t (order ! i))"
      using known by blast
    have "setRoot (sets p ! i) = map setRoot (sets p) ! i" using i by simp
    also have "\<dots> = setRoot (linkSets t order Map.empty ! i)"
      unfolding rts using i len linkSets_names [of t order Map.empty] by (metis length_map nth_map)
    finally have "lrefs (setRoot (sets p ! i)) = set (deps t (order ! i))"
      using linkSets_nth [OF _ r(1)] i len r(2) by simp
    then show ?thesis using deps_before_nth [OF order(2), of i] i len names by simp
  qed
  ultimately show ?thesis using names by simp
qed

text \<open>Two sets; the first refers to the second.\<close>

definition sampleDefs :: "Definition list" where
  "sampleDefs = [\<lparr>defName = ''big'', defDSL = ''+small & (c | d)''\<rparr>,
                 \<lparr>defName = ''small'', defDSL = ''a | b''\<rparr>]"

definition sampleProgram :: Program where
  "sampleProgram = (case Compile id sampleDefs Some of Inr p \<Rightarrow> p | Inl e \<Rightarrow> \<lparr>sets = [], modelBits = [], wordCount = 0\<rparr>)"

lemma sampleProgram_compiled: "Compile id sampleDefs Some = Inr sampleProgram"
  unfolding sampleProgram_def by code_simp

theorem Compile_links_witness:
  "setName ` set (sets sampleProgram) = {''big'', ''small''}"
  using Compile_links [OF sampleProgram_compiled] by (auto simp: sampleDefs_def)

text \<open>Compilation fails with a circularity error only when some set reaches itself through
  references, and never because the search ran out of its bound.\<close>

theorem Compile_circular:
  assumes "Compile iter defs resolve = Inl e" "\<forall>d de. e \<noteq> SetError d de" "\<forall>d m. e \<noteq> UnknownModel d m"
    "\<forall>d m. e \<noteq> UndefinedSet d m" "defs \<noteq> []"
  shows "\<exists>t c. compileDefs resolve (\<lambda>n. n \<in> set (map defName defs)) defs noTables = Inr t \<and>
    e = Circular c \<and> (c, c) \<in> (refers (deps t))\<^sup>+"
proof -
  let ?sn = "\<lambda>n. n \<in> set (map defName defs)"
  have rn: "resolveNode rs sn d n refs = Inl e \<Longrightarrow> (\<exists>m. e = UnknownModel d m) \<or> (\<exists>m. e = UndefinedSet d m)"
    "resolveNodes rs sn d ns refs = Inl e \<Longrightarrow> (\<exists>m. e = UnknownModel d m) \<or> (\<exists>m. e = UndefinedSet d m)"
    for rs sn d n ns refs
    by (induction rs sn d n refs and rs sn d ns refs rule: resolveNode_resolveNodes.induct)
      (auto split: option.splits sum.splits if_splits)
  have cd: "compileDefs resolve ?sn ds t \<noteq> Inl e" for ds t
    using assms(2-4) rn(1) by (induction ds arbitrary: t) (auto split: sum.splits, blast)
  then obtain t where t: "compileDefs resolve ?sn defs noTables = Inr t"
    "topologicalOrder defs (deps t) = Inl e"
    using assms(1,5) by (auto simp: Compile_def split: sum.splits)
  have ok: "tables_ok ?sn t" "dom (roots t) = set (map defName defs)"
    using compileDefs_ok [OF t(1)] by (auto simp: tables_ok_def noTables_def)
  have "set (deps t n) \<subseteq> set (map defName defs)" if "n \<in> set (map defName defs)" for n
  proof -
    have "n \<in> dom (roots t)" using that ok(2) by simp
    then obtain r where "roots t n = Some r" by blast
    then show ?thesis using ok(1) by (auto simp: tables_ok_def)
  qed
  then show ?thesis using topologicalOrder_spec [of defs "deps t"] t by auto
qed

theorem Compile_circular_witness:
  "\<exists>t c. compileDefs Some (\<lambda>n. n \<in> set (map defName [\<lparr>defName = ''x'', defDSL = ''+x''\<rparr>]))
      [\<lparr>defName = ''x'', defDSL = ''+x''\<rparr>] noTables = Inr t \<and>
    Circular ''x'' = Circular c \<and> (c, c) \<in> (refers (deps t))\<^sup>+"
proof (rule Compile_circular)
  show "Compile id [\<lparr>defName = ''x'', defDSL = ''+x''\<rparr>] Some = Inl (Circular ''x'')" by code_simp
qed simp_all

section \<open>Queries\<close>

text \<open>C3: The solver is exact for every compiled matrix, target and running set: when some
  combination of some set contains the target, the decision names such a set and one of its
  combinations, evicts exactly the running models outside it, in order, and no combination
  with the target loses less eviction cost; otherwise it evicts every running model.\<close>

theorem Solve_optimal:
  assumes "Compile iter defs resolve = Inr p" "\<forall>xs. set (iter xs) = set xs"
    "target \<notin> set running" "\<forall>m\<in>set running. 0 \<le> evictionCost costs m"
  shows "let d = Solve p target running costs in
    (\<exists>cs\<in>set (sets p). \<exists>S\<in>set (expand (setRoot cs)). target \<in> S \<and> SetName d = setName cs \<and>
        DSL d = setDSL cs \<and> set (TargetSet d) = S - {[]} \<and> sorted (TargetSet d) \<and> distinct (TargetSet d) \<and>
        Evict d = filter (\<lambda>m. m \<notin> S) running \<and> TotalCost d = lostCost costs running S \<and>
        (\<forall>T\<in>combos p. target \<in> T \<longrightarrow> lostCost costs running S \<le> lostCost costs running T)) \<or>
      ((\<forall>S\<in>combos p. target \<notin> S) \<and> Evict d = running \<and> TargetSet d = [target])"
  unfolding Let_def
  by (rule Solve_spec [OF Compile_ok [OF assms(1)] assms(3) _ refl]) (use assms(2,4) in auto)

theorem Solve_optimal_witness:
  "\<exists>S\<in>combos sampleProgram. ''a'' \<in> S \<and> Evict (Solve sampleProgram ''a'' [''b'', ''c''] (Map.empty)) =
     filter (\<lambda>m. m \<notin> S) [''b'', ''c'']"
proof -
  have "\<forall>m\<in>set [''b'', ''c'']. 0 \<le> evictionCost Map.empty m" by (simp add: evictionCost_def)
  moreover have "''a'' \<notin> set [''b'', ''c'']" by simp
  moreover have "Evict (Solve sampleProgram ''a'' [''b'', ''c''] Map.empty) \<noteq> [''b'', ''c'']"
    unfolding sampleProgram_def by code_simp
  moreover have "\<forall>xs :: string list. set (id xs) = set xs" by simp
  ultimately show ?thesis
    using Solve_optimal [OF sampleProgram_compiled, of "''a''" "[''b'', ''c'']" Map.empty]
    unfolding Let_def combos_def by (simp only: simp_thms) blast
qed

lemma CanContainAll_iff:
  assumes "Compile iter defs resolve = Inr p" "\<forall>xs. set (iter xs) = set xs"
  shows "CanContainAll p ms \<longleftrightarrow> ms = [] \<or> (\<exists>S\<in>combos p. set ms \<subseteq> S)"
proof (cases "ms = []")
  case False
  have "program_ok p" using Compile_ok [OF assms(1)] assms(2) by blast
  from findSet_iff [OF this order_refl False] False show ?thesis
    by (auto simp: CanContainAll_def combos_def find_None_iff)
qed (simp add: CanContainAll_def)

text \<open>C14: A containment query answers yes exactly when some combination of some set contains every
  model asked for, however the combinations are pruned on the way.\<close>

theorem CanContainAll_exact:
  assumes "Compile iter defs resolve = Inr p" "\<forall>xs. set (iter xs) = set xs"
  shows "CanContainAll p ms \<longleftrightarrow> ms = [] \<or> (\<exists>S\<in>combos p. set ms \<subseteq> S)"
  by (rule CanContainAll_iff [OF assms])

theorem CanContainAll_exact_witness:
  "CanContainAll sampleProgram [''a'', ''d''] \<and> \<not> CanContainAll sampleProgram [''a'', ''b'']"
proof -
  have c: "combos sampleProgram = {{''a'', ''c''}, {''a'', ''d''}, {''b'', ''c''}, {''b'', ''d''}, {''a''}, {''b''}}"
    unfolding combos_def sampleProgram_def by code_simp
  show ?thesis using CanContainAll_exact [OF sampleProgram_compiled] unfolding c by simp
qed

text \<open>Ties between sets go to the first set of the compiled order, not to the first in the
  configuration: a set referred to by an earlier one is preferred to it.\<close>

theorem ties_follow_compiled_order:
  "map_option (\<lambda>p. SetName (Solve p ''a'' [] Map.empty))
     (case Compile id [\<lparr>defName = ''first'', defDSL = ''+second | c''\<rparr>, \<lparr>defName = ''second'', defDSL = ''a | b''\<rparr>] Some
        of Inl e \<Rightarrow> None | Inr p \<Rightarrow> Some p) = Some ''second''"
  by code_simp

end
