(* ===== verification/Swapper.thy ===== *)
theory Swapper
  imports Scheduler_Exit Provider_Manager Matrix_Props
begin

text \<open>
  The eviction policies of \<^verbatim>\<open>internal/router\<close>: the group swapper, the matrix swapper with its
  one-entry decision cache, and the lifecycle swapper that adds a provider pool's capacity to
  either. What the scheduler relies on is a locale; each policy is an interpretation of it.
\<close>

section \<open>Group swapper\<close>

record groupSwapper =
  modelToGroup :: "string \<rightharpoonup> string"
  groups :: "string \<rightharpoonup> GroupConfig"

definition noGroup :: GroupConfig where
  "noGroup = \<lparr>Swap = False, Exclusive = False, Persistent = False, Members = []\<rparr>"

definition groupOf :: "groupSwapper \<Rightarrow> string \<Rightarrow> string" where
  "groupOf p m = (case modelToGroup p m of Some g \<Rightarrow> g | None \<Rightarrow> [])"

definition groupCfg :: "groupSwapper \<Rightarrow> string \<Rightarrow> GroupConfig" where
  "groupCfg p g = (case groups p g of Some c \<Rightarrow> c | None \<Rightarrow> noGroup)"

definition considerEvict :: "groupSwapper \<Rightarrow> string \<Rightarrow> string \<Rightarrow> string list \<Rightarrow> string list" where
  "considerEvict p target mID result =
     (let tg = groupOf p target; tgCfg = groupCfg p tg; og = groupOf p mID in
      if mID = target then result
      else if mID \<in> set result then result
      else if og = tg \<and> Swap tgCfg then result @ [mID]
      else if og \<noteq> tg \<and> Exclusive tgCfg
      then (if \<not> Persistent (groupCfg p og) then result @ [mID] else result)
      else result)"

definition groupEvictionFor :: "groupSwapper \<Rightarrow> string \<Rightarrow> string list \<Rightarrow> string list" where
  "groupEvictionFor p target running = fold (considerEvict p target) running []"

text \<open>\<^verbatim>\<open>NewGroupWithProviders\<close>: the model-to-group table, in the iteration order of the groups.\<close>

fun addMembers :: "string \<Rightarrow> string list \<Rightarrow> (string \<rightharpoonup> string) \<Rightarrow> error + (string \<rightharpoonup> string)" where
  "addMembers gid [] t = Inr t"
| "addMembers gid (m # ms) t =
     (case t m of
        Some existing \<Rightarrow> Inl (ErrText (''model \"'' @ m @ ''\" is in multiple groups: \"'' @ existing @
                           ''\" and \"'' @ gid @ ''\"''))
      | None \<Rightarrow> addMembers gid ms (t(m \<mapsto> gid)))"

fun groupTable :: "(string \<times> GroupConfig) list \<Rightarrow> (string \<rightharpoonup> string) \<Rightarrow> error + (string \<rightharpoonup> string)" where
  "groupTable [] t = Inr t"
| "groupTable ((gid, g) # gs) t =
     (case addMembers gid (Members g) t of Inl e \<Rightarrow> Inl e | Inr t' \<Rightarrow> groupTable gs t')"

definition newGroupSwapper :: "(string \<times> GroupConfig) list \<Rightarrow> error + groupSwapper" where
  "newGroupSwapper gs =
     (case groupTable gs Map.empty of
        Inl e \<Rightarrow> Inl e | Inr t \<Rightarrow> Inr \<lparr>modelToGroup = t, groups = map_of gs\<rparr>)"

section \<open>Matrix swapper\<close>

record matrixSolver =
  program :: Program
  evictCosts :: "string \<rightharpoonup> int"

definition solverSolve :: "matrixSolver \<Rightarrow> string \<Rightarrow> string list \<Rightarrow> Decision" where
  "solverSolve s requestedModel runningModels = Solve (program s) requestedModel runningModels (evictCosts s)"

record matrixSwapper =
  solver :: matrixSolver
  lastTarget :: string
  lastRunning :: "string list"
  lastResult :: Decision
  lastValid :: bool

definition newMatrixSwapper :: "Program \<Rightarrow> (string \<rightharpoonup> int) \<Rightarrow> matrixSwapper" where
  "newMatrixSwapper p costs =
     \<lparr>solver = \<lparr>program = p, evictCosts = costs\<rparr>, lastTarget = [], lastRunning = [],
      lastResult = \<lparr>Evict = [], TargetSet = [], SetName = [], DSL = [], TotalCost = 0\<rparr>, lastValid = False\<rparr>"

definition msSolve :: "string \<Rightarrow> string list \<Rightarrow> matrixSwapper \<Rightarrow> Decision \<times> matrixSwapper" where
  "msSolve target running p =
     (if lastValid p \<and> lastTarget p = target \<and> lastRunning p = running then (lastResult p, p)
      else let result = solverSolve (solver p) target running in
           (result, p\<lparr>lastTarget := target, lastRunning := running, lastResult := result, lastValid := True\<rparr>))"

definition msEvictionFor :: "string \<Rightarrow> string list \<Rightarrow> matrixSwapper \<Rightarrow> string list \<times> matrixSwapper" where
  "msEvictionFor target running p = (let (r, p') = msSolve target running p in (Evict r, p'))"

definition msOnSwapStart :: "string \<Rightarrow> string list \<Rightarrow> matrixSwapper \<Rightarrow> matrixSwapper" where
  "msOnSwapStart target running p = snd (msSolve target running p)"

section \<open>Lifecycle swapper\<close>

record candidate =
  cid :: string
  cresidency :: string
  cpriority :: int

definition evictsBefore :: "candidate \<Rightarrow> candidate \<Rightarrow> bool" where
  "evictsBefore a b =
     (if cresidency a \<noteq> cresidency b then cresidency a = ResidencyTransient
      else if cpriority a \<noteq> cpriority b then cpriority b < cpriority a
      else cid b < cid a)"

definition candidateOf :: "(string \<rightharpoonup> ModelConfig) \<Rightarrow> string \<Rightarrow> candidate" where
  "candidateOf mods i =
     (let c = (case mods i of Some c \<Rightarrow> c | None \<Rightarrow> zeroModelConfig) in
      \<lparr>cid = i, cresidency = Residency c, cpriority = ResidencyPriority c\<rparr>)"

definition evictable :: "candidate \<Rightarrow> bool" where
  "evictable c \<longleftrightarrow> cresidency c \<noteq> ResidencyHardPinned \<and> cresidency c \<noteq> ResidencyExternal"

record 'w lifecycleSwapper =
  lsModels :: "string \<rightharpoonup> ModelConfig"
  lsPools :: "string \<rightharpoonup> LifecyclePoolConfig"
  lsRegistry :: "'w Registry"

definition capacityEvictions ::
    "(string \<rightharpoonup> ModelConfig) \<Rightarrow> int \<Rightarrow> string list \<Rightarrow> int \<Rightarrow> string list \<Rightarrow> string list" where
  "capacityEvictions mods capacity residentLLMs occupiedLLM policyEvictions =
     (let occupied = occupiedLLM - int (length (filter (\<lambda>i. i \<in> set policyEvictions) residentLLMs)) in
      if occupied < capacity then policyEvictions
      else let candidates = sortBy evictsBefore (filter evictable (map (candidateOf mods)
                              (filter (\<lambda>i. i \<notin> set policyEvictions) residentLLMs)));
               need = occupied - capacity + 1
           in if int (length candidates) < need then policyEvictions
              else policyEvictions @ map cid (take (nat need) candidates))"

definition lifecycleEvictionFor :: "'w lifecycleSwapper \<Rightarrow> string \<Rightarrow> string list \<Rightarrow> string list" where
  "lifecycleEvictionFor s target policyEvictions =
     (case lsModels s target of
        None \<Rightarrow> policyEvictions
      | Some targetCfg \<Rightarrow>
          if Provider targetCfg = [] then policyEvictions
          else (case ManagerForModel target (lsRegistry s) of
                  None \<Rightarrow> policyEvictions
                | Some manager \<Rightarrow>
                    if List.member (ResidentAliases (LifecyclePool targetCfg) manager) target then policyEvictions
                    else capacityEvictions (lsModels s)
                           (case lsPools s (LifecyclePool targetCfg) of Some p \<Rightarrow> Capacity p | None \<Rightarrow> 0)
                           (ResidentLLMAliases (LifecyclePool targetCfg) manager)
                           (OccupiedLLM manager) policyEvictions))"

text \<open>\<^verbatim>\<open>wrapLifecycleSwapper\<close>: without providers the process swapper is used as it is.\<close>

definition wrapLifecycleSwapper ::
    "bool \<Rightarrow> 'w lifecycleSwapper \<Rightarrow> (string \<Rightarrow> string list \<Rightarrow> string list) \<Rightarrow> string \<Rightarrow> string list \<Rightarrow> string list" where
  "wrapLifecycleSwapper hasProviders s fallback =
     (if \<not> hasProviders then fallback
      else (\<lambda>target running. lifecycleEvictionFor s target (fallback target running)))"

section \<open>The contract of a swapper\<close>

text \<open>
  A swapper never evicts the model it makes room for, and it evicts only models the scheduler
  listed as running or, for a provider pool, models resident on the provider.
\<close>

locale swapper =
  fixes evictionFor :: "string \<Rightarrow> string list \<Rightarrow> string list"
    and resident :: "string \<Rightarrow> string set"
  assumes spares_target: "target \<notin> set (evictionFor target running)"
    and evicts_live: "set (evictionFor target running) \<subseteq> set running \<union> resident target"

text \<open>The policies over processes alone evict running models only, each once.\<close>

locale process_swapper = swapper evictionFor "\<lambda>_. {}" for evictionFor +
  assumes distinct_evictions: "distinct running \<Longrightarrow> distinct (evictionFor target running)"

text \<open>A provider overlay on some other swapper.\<close>

locale overlay = swapper fallback resident for fallback resident +
  fixes ls :: "'w lifecycleSwapper"

text \<open>What every active swap of a scheduler satisfies if every planned eviction does.\<close>

definition planned :: "(string \<Rightarrow> string list \<Rightarrow> bool) \<Rightarrow> 'w FIFO \<Rightarrow> bool" where
  "planned P s \<longleftrightarrow> (\<forall>(k, sw) \<in> set (active s). P k (evict sw))"

definition plans :: "(string \<Rightarrow> string list \<Rightarrow> bool) \<Rightarrow> 'w Effects \<Rightarrow> bool" where
  "plans P fx \<longleftrightarrow> (\<forall>w t running. P t (EvictionFor fx w t running))"

lemma plansD: "plans P fx \<Longrightarrow> P t (EvictionFor fx w t running)"
  by (simp add: plans_def)

lemma planned_mono: "planned P s \<Longrightarrow> set (active t) \<subseteq> set (active s) \<Longrightarrow> planned P t"
  unfolding planned_def by blast

lemma planned_active: "active t = active s \<Longrightarrow> planned P t = planned P s"
  by (simp add: planned_def)

lemma planned_joinSwap [simp]: "planned P (joinSwap m r s) = planned P s"
  by (auto simp: planned_def joinSwap_def split: prod.splits)

lemma admit_active: "active (snd (admit fx r s)) = active s"
proof -
  obtain ok s1 where eq: "sendAdmission fx r None s = (ok, s1)" by force
  have "active s1 = active s" using core_fields(4) [OF core_sendAdmission [of fx r None s]] unfolding eq by simp
  then show ?thesis using eq by (simp add: admit_def)
qed

lemma enqueue_active [simp]: "active (enqueue fx r s) = active s"
  by (simp add: enqueue_def Let_def onWorld_def broadcastQueuePositions_def split: option.split)

lemma startSwap_planned:
  assumes "planned P s" "P (Model r) ev"
  shows "planned P (startSwap fx r ev running s)"
proof -
  have "active (startSwap fx r ev running s) =
      AList.update (Model r) \<lparr>modelID = Model r, evict = ev, waiters = [r]\<rparr> (active s)"
    by (simp add: startSwap_def Let_def onWorld_def)
  moreover have "set (AList.update k v al) \<subseteq> insert (k, v) (set al)" for k :: string and v :: activeSwap and al
    by (induction al) auto
  ultimately show ?thesis using assms by (fastforce simp: planned_def)
qed

lemma drainLoop_planned:
  assumes "plans P fx"
  shows "drainLoop fx pending rem s = Some (rem', t) \<Longrightarrow> planned P s \<Longrightarrow> planned P t"
proof (induction pending arbitrary: rem s)
  case (Cons r pending)
  have q: "planned P (queueDone fx r s) = planned P s" by (rule planned_active) simp
  show ?case
  proof (cases "ModelState fx (world s) (Model r)")
    case None
    with Cons.prems(1) obtain u where "grantError fx r ErrNoLocalModelFound (queueDone fx r s) = Some u"
      "drainLoop fx pending rem u = Some (rem', t)" by (auto split: Option.bind_splits)
    then show ?thesis using Cons.IH Cons.prems(2) q planned_active [OF grantError_active] by blast
  next
    case (Some st)
    show ?thesis
    proof (cases "map_of (active s) (Model r)")
      case (Some sw)
      with Cons \<open>ModelState fx (world s) (Model r) = Some st\<close> q show ?thesis by simp
    next
      case None
      let ?running = "runningSet fx (Model r) s"
      let ?ev = "EvictionFor fx (world s) (Model r) ?running"
      let ?fast = "st = StateReady \<and> ?ev = [] \<and> \<not> collidesWith (Model r) ?ev (active s)"
      note step = Cons.prems(1) Some None
      consider (fast) ?fast | (wait) "\<not> ?fast" "collidesWith (Model r) ?ev (active s) \<or> conflictsWithInFlight ?ev (inFlight s)"
        | (swap) "\<not> ?fast" "\<not> collidesWith (Model r) ?ev (active s)" "\<not> conflictsWithInFlight ?ev (inFlight s)"
        by blast
      then show ?thesis
      proof cases
        case fast
        with step obtain u where u:
          "grantHandler fx r (Model r) (recordResidentAdmission fx (Model r) (queueDone fx r s)) = Some u"
          "drainLoop fx pending rem u = Some (rem', t)" by (auto simp: Let_def split: Option.bind_splits)
        have "planned P u" using Cons.prems(2) planned_active [OF grantHandler_active [OF u(1)]] by (simp add: planned_def)
        then show ?thesis using Cons.IH [OF u(2)] by blast
      next
        case wait
        with step have "drainLoop fx pending (rem @ [r]) s = Some (rem', t)" by (auto simp: Let_def split: if_splits)
        then show ?thesis using Cons.IH Cons.prems(2) by blast
      next
        case swap
        with step have "drainLoop fx pending rem (startSwap fx r ?ev ?running (queueDone fx r s)) = Some (rem', t)"
          by (simp add: Let_def split: if_splits)
        then show ?thesis using Cons.IH startSwap_planned [where P = P and ev = ?ev and r = r and s = "queueDone fx r s"] plansD [OF assms] Cons.prems(2) q by blast
      qed
    qed
  qed
qed simp

lemma drainQueue_planned:
  assumes "plans P fx" "drainQueue fx s = Some t" "planned P s"
  shows "planned P t"
proof (cases "queued s = []")
  case True
  then show ?thesis using assms by (simp add: drainQueue_def)
next
  case False
  obtain pending s1 where f: "fairOrder fx (queued s) s = (pending, s1)" by force
  have "active s1 = active s" using core_fields(4) [OF core_fairOrder [of fx "queued s" s]] f by simp
  then have p1: "planned P s1" using assms(3) by (simp add: planned_def)
  from assms(2) False f obtain rem s2 where d: "drainLoop fx pending [] s1 = Some (rem, s2)"
    and t: "t = broadcastQueuePositions (s2\<lparr>queued := rem\<rparr>)"
    by (auto simp: drainQueue_def split: Option.bind_splits)
  have "planned P s2" using drainLoop_planned [OF assms(1) d p1] .
  then show ?thesis by (simp add: t planned_def broadcastQueuePositions_def)
qed

lemma fold_opt_active:
  assumes "\<And>x s t. f x s = Some t \<Longrightarrow> active t = active s"
  shows "fold_opt f xs s = Some t \<Longrightarrow> active t = active s"
  by (induction xs arbitrary: s) (auto dest: assms split: Option.bind_splits)

lemma OnRequest_planned:
  assumes "plans P fx" "OnRequest fx r s = Some t" "planned P s"
  shows "planned P t"
proof (cases "ModelState fx (world s) (Model r)")
  case None
  with assms(2) have "t = rejectAdmission fx r ErrNoLocalModelFound s" by (simp add: OnRequest_def)
  then show ?thesis using assms(3) by (simp add: planned_def)
next
  case (Some st)
  obtain adm s1 where a: "admit fx r s = (adm, s1)" by force
  have p1: "planned P s1" using admit_active [of fx r s] a assms(3) by (simp add: planned_def)
  let ?running = "runningSet fx (Model r) s1"
  let ?ev = "EvictionFor fx (world s1) (Model r) ?running"
  have enq: "planned P (enqueue fx r s1)" using p1 by (simp add: planned_def)
  have swap: "planned P (startSwap fx r ?ev ?running s1)"
    using startSwap_planned [OF p1 plansD [OF assms(1)]] .
  have grant: "planned P u" if "grantHandler fx r (Model r) (recordResidentAdmission fx (Model r) s1) = Some u" for u
    using grantHandler_active [OF that] p1 by (simp add: planned_def)
  show ?thesis
    using assms(2) a Some p1 enq swap grant
    by (auto simp: OnRequest_def Let_def split: if_splits option.splits)
qed

lemma pruneQueue_active: "pruneQueue fx r qs b s = Some (kept, b', t) \<Longrightarrow> active t = active s"
proof (induction qs arbitrary: b s kept)
  case (Cons q qs)
  show ?case
  proof (cases "Respond q = r")
    case True
    with Cons.prems obtain u where "release (Model q) (queueDone fx q s) = Some u"
      "pruneQueue fx r qs True u = Some (kept, b', t)" by (auto split: Option.bind_splits)
    then show ?thesis using Cons.IH release_active by fastforce
  next
    case False
    with Cons show ?thesis by (fastforce split: Option.bind_splits)
  qed
qed simp

lemma pruneWaiters_active: "pruneWaiters r ws b s = Some (kept, b', t) \<Longrightarrow> active t = active s"
proof (induction ws arbitrary: b s kept)
  case (Cons w ws)
  show ?case
  proof (cases "Respond w = r")
    case True
    with Cons.prems obtain u where "release (Model w) s = Some u"
      "pruneWaiters r ws True u = Some (kept, b', t)" by (auto split: Option.bind_splits)
    then show ?thesis using Cons.IH release_active by fastforce
  next
    case False
    with Cons show ?thesis by (fastforce split: Option.bind_splits)
  qed
qed simp

lemma pruneSwaps_evicts:
  "pruneSwaps r act b s = Some (act', b', t) \<Longrightarrow>
   map (\<lambda>(k, sw). (k, evict sw)) act' = map (\<lambda>(k, sw). (k, evict sw)) act"
  by (induction r act b s arbitrary: act' b' t rule: pruneSwaps.induct)
    (fastforce split: Option.bind_splits)+

lemma planned_evicts:
  "planned P s \<longleftrightarrow> list_all (\<lambda>(k, ev). P k ev) (map (\<lambda>(k, sw). (k, evict sw)) (active s))"
  by (auto simp: planned_def list_all_iff)

lemma OnCancel_planned:
  assumes "OnCancel fx r s = Some t" "planned P s"
  shows "planned P t"
proof -
  obtain kept rm s1 act rm' s2 where 1: "pruneQueue fx (Respond r) (queued s) False s = Some (kept, rm, s1)"
    and 2: "pruneSwaps (Respond r) (active s1) rm (s1\<lparr>queued := kept\<rparr>) = Some (act, rm', s2)"
    and t: "t = (if rm' then broadcastQueuePositions (s2\<lparr>active := act\<rparr>) else s2\<lparr>active := act\<rparr>)"
    using assms(1) by (auto simp: OnCancel_def Let_def split: Option.bind_splits)
  have "active t = act" by (simp add: t broadcastQueuePositions_def)
  then show ?thesis using pruneSwaps_evicts [OF 2] pruneQueue_active [OF 1] assms(2)
    by (simp add: planned_evicts)
qed

lemma delete_subset: "set (AList.delete k al) \<subseteq> set al"
  by (auto simp: AList.delete_eq)

lemma OnSwapDone_planned:
  assumes "plans P fx" "OnSwapDone fx m e s = Some t" "planned P s"
  shows "planned P t"
proof (cases "map_of (active s) m")
  case None
  then show ?thesis using assms by (simp add: OnSwapDone_def)
next
  case (Some sw)
  let ?s = "s\<lparr>active := AList.delete m (active s)\<rparr>"
  obtain u where u: "fold_opt (answerWaiter fx m e) (waiters sw) ?s = Some u" "drainQueue fx u = Some t"
    using assms(2) Some by (auto simp: OnSwapDone_def split: Option.bind_splits)
  have "active u = active ?s"
    by (rule fold_opt_active [OF _ u(1)])
      (auto simp: answerWaiter_def grantError_active grantHandler_active split: option.splits)
  then have "planned P u" using planned_mono [OF assms(3), of u] by (simp add: delete_subset)
  then show ?thesis by (rule drainQueue_planned [OF assms(1) u(2)])
qed

lemma OnServeDone_planned:
  assumes "plans P fx" "OnServeDone fx m s = Some t" "planned P s"
  shows "planned P t"
proof -
  obtain u where u: "release m (s\<lparr>inFlight := bump m (-1) (inFlight s)\<rparr>) = Some u"
    and t: "(if inFlight u m \<le> 0 then drainQueue fx (u\<lparr>inFlight := (inFlight u)(m := 0)\<rparr>) else Some u) = Some t"
    using assms(2) by (auto simp: OnServeDone_def split: Option.bind_splits)
  have "planned P u" using release_active [OF u] assms(3) by (simp add: planned_def)
  then show ?thesis using t drainQueue_planned [OF assms(1)] by (auto simp: planned_def split: if_splits)
qed

lemma unloadSwap_active: "unloadSwap fx e i s = Some t \<Longrightarrow> set (active t) \<subseteq> set (active s)"
  using delete_subset fold_opt_active [of "\<lambda>w. grantError fx w e", OF grantError_active]
  by (fastforce simp: unloadSwap_def split: option.splits Option.bind_splits)

lemma dropQueued_active: "dropQueued fx e ts ws s = Some (kept, t) \<Longrightarrow> active t = active s"
proof (induction ws arbitrary: s kept)
  case (Cons w ws)
  show ?case
  proof (cases "List.member ts (Model w)")
    case True
    with Cons.prems obtain u where "grantError fx w e (queueDone fx w s) = Some u"
      "dropQueued fx e ts ws u = Some (kept, t)" by (auto split: Option.bind_splits)
    then show ?thesis using Cons.IH grantError_active by fastforce
  next
    case False
    with Cons show ?thesis by (fastforce split: Option.bind_splits)
  qed
qed simp

lemma OnUnload_planned:
  assumes "plans P fx" "OnUnload fx ts to s = Some t" "planned P s"
  shows "planned P t"
proof -
  let ?e = "ErrText (name s @ '': model unloaded'')"
  obtain s1 kept s2 where 1: "fold_opt (unloadSwap fx ?e) (remdups ts) s = Some s1"
    and 2: "dropQueued fx ?e ts (queued s1) s1 = Some (kept, s2)"
    and 3: "drainQueue fx (onWorld (StopProcesses fx to ts) (s2\<lparr>queued := kept\<rparr>)) = Some t"
    using assms(2) by (auto simp: OnUnload_def Let_def split: Option.bind_splits)
  have "set (active s1) \<subseteq> set (active s)"
    using 1 by (rule fold_opt_inv [where P = "\<lambda>u. set (active u) \<subseteq> set (active s)"])
      (auto dest: unloadSwap_active)
  then have "planned P s2" using dropQueued_active [OF 2] assms(3) planned_mono [of P s s2] by simp
  then have "planned P (onWorld (StopProcesses fx to ts) (s2\<lparr>queued := kept\<rparr>))"
    by (simp add: planned_def onWorld_def)
  then show ?thesis by (rule drainQueue_planned [OF assms(1) 3])
qed

lemma sched_reach_planned:
  assumes "plans P fx"
  shows "sched_reach fx s \<Longrightarrow> planned P s"
proof (induction rule: sched_reach.induct)
  case (start nm prio mods pls w)
  then show ?case by (simp add: planned_def NewFIFOWithLifecycle_def)
next
  case (event s ev s')
  then show ?case
    using OnRequest_planned [OF assms] OnCancel_planned OnSwapDone_planned [OF assms]
      OnServeDone_planned [OF assms] OnUnload_planned [OF assms]
    by (cases ev) (simp_all, blast+)
next
  case (environment s w p)
  then show ?case by (simp add: planned_def)
qed

context swapper
begin

text \<open>A scheduler driven by the swapper never runs a swap that evicts its own target.\<close>

lemma active_spares_target:
  assumes "\<And>w t running. EvictionFor fx w t running = evictionFor t running"
    "sched_reach fx s" "(k, sw) \<in> set (active s)"
  shows "k \<notin> set (evict sw)"
proof -
  have "plans (\<lambda>t ev. t \<notin> set ev) fx" using assms(1) spares_target by (simp add: plans_def)
  from sched_reach_planned [OF this assms(2)] assms(3) show ?thesis by (auto simp: planned_def)
qed

text \<open>An eviction plan over an empty running set touches the provider's residents only.\<close>

lemma idle_evictions: "set (evictionFor t []) \<subseteq> resident t - {t}"
  using spares_target evicts_live [of t "[]"] by auto

end

context process_swapper
begin

text \<open>A process swapper starts a model from rest without stopping anything.\<close>

lemma starts_from_rest: "evictionFor t [] = []"
  using idle_evictions [of t] by simp

text \<open>Planning twice never asks for more than the running models once.\<close>

lemma eviction_bound: "distinct running \<Longrightarrow> length (evictionFor t running) \<le> length running"
proof -
  assume d: "distinct running"
  have "card (set (evictionFor t running)) \<le> card (set running)"
    using evicts_live [of t running] by (intro card_mono) auto
  then show ?thesis using distinct_evictions [OF d, of t] d by (simp add: distinct_card)
qed

end

end
