(* ===== verification/Swapper_Props.thy ===== *)
theory Swapper_Props
  imports Swapper
begin

text \<open>The eviction policies satisfy the swapper contract; what each of them evicts exactly.\<close>

section \<open>Groups\<close>

definition groupEvicts :: "groupSwapper \<Rightarrow> string \<Rightarrow> string \<Rightarrow> bool" where
  "groupEvicts p target m \<longleftrightarrow> m \<noteq> target \<and>
     (if groupOf p m = groupOf p target then Swap (groupCfg p (groupOf p target))
      else Exclusive (groupCfg p (groupOf p target)) \<and> \<not> Persistent (groupCfg p (groupOf p m)))"

lemma considerEvict_eq:
  "considerEvict p target m result = (if groupEvicts p target m \<and> m \<notin> set result then result @ [m] else result)"
  by (auto simp: considerEvict_def groupEvicts_def Let_def)

lemma fold_considerEvict:
  "distinct result \<Longrightarrow> distinct (fold (considerEvict p target) running result) \<and>
   set (fold (considerEvict p target) running result) = set result \<union> {m \<in> set running. groupEvicts p target m}"
  by (induction running arbitrary: result) (auto simp: considerEvict_eq)

lemma groupEvictionFor_spec:
  "distinct (groupEvictionFor p target running)"
  "set (groupEvictionFor p target running) = {m \<in> set running. groupEvicts p target m}"
  using fold_considerEvict [of "[]" p target running] by (simp_all add: groupEvictionFor_def)

interpretation group_sw: process_swapper "groupEvictionFor p" for p
  by unfold_locales (auto simp: groupEvictionFor_spec groupEvicts_def)

section \<open>Matrix\<close>

lemma Solve_spares_target:
  "target \<notin> set (Evict (Solve p target running costs))"
proof (cases "target \<in> set running")
  case True
  then show ?thesis by (simp add: Solve_def split: prod.split)
next
  case False
  have "set (missing e running s) \<subseteq> set running" for e s by (auto simp: missing_def)
  with False show ?thesis by (auto simp: Solve_def Let_def split: option.splits)
qed

lemma Solve_evicts_running:
  "set (Evict (Solve p target running costs)) \<subseteq> set running \<and>
   (distinct running \<longrightarrow> distinct (Evict (Solve p target running costs)))"
  by (auto simp: Solve_def missing_def Let_def split: option.splits prod.splits)

interpretation matrix_sw: process_swapper "\<lambda>target running. Evict (solverSolve s target running)" for s
  by unfold_locales (simp_all add: solverSolve_def Solve_spares_target Solve_evicts_running)

text \<open>The cached decision is the decision of its arguments.\<close>

definition cache_current :: "matrixSwapper \<Rightarrow> bool" where
  "cache_current p \<longleftrightarrow>
     (lastValid p \<longrightarrow> lastResult p = solverSolve (solver p) (lastTarget p) (lastRunning p))"

lemma msSolve_ok:
  assumes "cache_current p"
  shows "fst (msSolve target running p) = solverSolve (solver p) target running"
    and "cache_current (snd (msSolve target running p))"
    and "solver (snd (msSolve target running p)) = solver p"
  using assms by (auto simp: msSolve_def cache_current_def Let_def)

datatype planner_call = AskEviction string "string list" | AskStart string "string list"

text \<open>The answers of a cached swapper to a sequence of planner calls.\<close>

fun answers :: "planner_call list \<Rightarrow> matrixSwapper \<Rightarrow> string list list" where
  "answers [] p = []"
| "answers (AskEviction t r # cs) p = (let (e, p') = msEvictionFor t r p in e # answers cs p')"
| "answers (AskStart t r # cs) p = answers cs (msOnSwapStart t r p)"

fun uncached :: "matrixSolver \<Rightarrow> planner_call list \<Rightarrow> string list list" where
  "uncached s [] = []"
| "uncached s (AskEviction t r # cs) = Evict (solverSolve s t r) # uncached s cs"
| "uncached s (AskStart t r # cs) = uncached s cs"

lemma answers_uncached:
  "cache_current p \<Longrightarrow> solver p = s \<Longrightarrow> answers cs p = uncached s cs"
proof (induction cs arbitrary: p)
  case (Cons c cs)
  show ?case
  proof (cases c)
    case (AskEviction t r)
    obtain d p' where e: "msSolve t r p = (d, p')" by force
    have "d = solverSolve s t r" "cache_current p'" "solver p' = s"
      using msSolve_ok [OF Cons.prems(1), of t r] Cons.prems(2) by (simp_all add: e)
    then show ?thesis using AskEviction e Cons.IH by (simp add: msEvictionFor_def)
  next
    case (AskStart t r)
    have "cache_current (snd (msSolve t r p))" "solver (snd (msSolve t r p)) = s"
      using msSolve_ok [OF Cons.prems(1), of t r] Cons.prems(2) by simp_all
    then show ?thesis using AskStart Cons.IH by (simp add: msOnSwapStart_def)
  qed
qed simp

text \<open>C17: Caching the last decision changes no answer: for every sequence of planner calls, in
  whatever order targets and running sets come, the matrix swapper answers what solving each
  call afresh would answer.\<close>

theorem matrix_cache_transparent:
  "answers cs (newMatrixSwapper p costs) = uncached \<lparr>program = p, evictCosts = costs\<rparr> cs"
  by (rule answers_uncached) (simp_all add: newMatrixSwapper_def cache_current_def)

section \<open>Lifecycle pools\<close>

definition sortable :: "candidate set" where
  "sortable = {c. cresidency c = ResidencyTransient \<or> cresidency c = ResidencyPreferred}"

lemma residency_distinct: "ResidencyPreferred \<noteq> ResidencyTransient"
  by (simp add: residency_defs)

lemma evictsBefore_order:
  assumes "x \<in> sortable" "y \<in> sortable" "z \<in> sortable" "evictsBefore x y" "\<not> evictsBefore z y"
  shows "evictsBefore x z"
proof -
  have c: "cid y < cid x \<Longrightarrow> \<not> cid y < cid z \<Longrightarrow> cid z < cid x" by (meson le_less_trans not_less)
  from assms residency_distinct c show ?thesis
    unfolding evictsBefore_def sortable_def by (simp split: if_splits)
qed

lemma evictsBefore_asym: "evictsBefore x y \<Longrightarrow> x \<in> sortable \<Longrightarrow> y \<in> sortable \<Longrightarrow> \<not> evictsBefore y x"
  using residency_distinct by (auto simp: evictsBefore_def sortable_def split: if_splits)

lemma cid_candidateOf [simp]: "cid (candidateOf mods i) = i"
  by (simp add: candidateOf_def Let_def)

lemma capacityEvictions_spares:
  assumes "target \<notin> set residents" "target \<notin> set policy"
  shows "target \<notin> set (capacityEvictions mods cap residents occ policy)"
proof -
  let ?s = "sortBy evictsBefore (filter evictable (map (candidateOf mods) (filter (\<lambda>i. i \<notin> set policy) residents)))"
  have sub: "cid ` set ?s \<subseteq> set residents" by auto
  have "set (map cid (take n ?s)) \<subseteq> set residents" for n
    using order_trans [OF image_mono [OF set_take_subset [of n ?s]] sub] by simp
  then have "target \<notin> set (map cid (take n ?s))" for n using assms(1) by blast
  then show ?thesis using assms(2) by (simp add: capacityEvictions_def Let_def)
qed

definition sortedCandidates :: "(string \<rightharpoonup> ModelConfig) \<Rightarrow> string list \<Rightarrow> string list \<Rightarrow> candidate list" where
  "sortedCandidates mods residents policy =
     sortBy evictsBefore (filter evictable (map (candidateOf mods) (filter (\<lambda>i. i \<notin> set policy) residents)))"

lemma sortedCandidates_ids:
  "mset (map cid (sortedCandidates mods residents policy)) =
     mset (filter (\<lambda>i. evictable (candidateOf mods i)) (filter (\<lambda>i. i \<notin> set policy) residents))"
proof -
  have "map cid (filter evictable (map (candidateOf mods) xs)) = filter (\<lambda>i. evictable (candidateOf mods i)) xs" for xs
    by (induction xs) auto
  then show ?thesis unfolding sortedCandidates_def by (metis mset_map mset_sortBy)
qed

lemma capacityEvictions_distinct:
  assumes "distinct residents" "distinct policy"
  shows "distinct (capacityEvictions mods cap residents occ policy)"
proof -
  let ?ids = "map cid (sortedCandidates mods residents policy)"
  note ids = sortedCandidates_ids [of mods residents policy]
  have "distinct ?ids" using mset_eq_imp_distinct_iff [OF ids] assms(1) by simp
  moreover have "set ?ids \<inter> set policy = {}" using mset_eq_setD [OF ids] by auto
  ultimately have "distinct (policy @ take n ?ids)" for n
    using assms(2) set_take_subset [of n ?ids] by auto
  then show ?thesis using assms(2)
    by (simp add: capacityEvictions_def Let_def take_map sortedCandidates_def)
qed

text \<open>What the capacity policy adds, on every branch.\<close>

lemma capacityEvictions_branches:
  fixes mods residents policy
  defines "freed \<equiv> filter (\<lambda>i. i \<in> set policy) residents"
    and "cands \<equiv> filter (\<lambda>i. i \<notin> set policy \<and> evictable (candidateOf mods i)) residents"
  assumes "distinct residents" "\<forall>i\<in>set residents. cresidency (candidateOf mods i) \<in>
      {ResidencyHardPinned, ResidencyPreferred, ResidencyTransient, ResidencyExternal}"
  shows "\<exists>added. capacityEvictions mods cap residents occ policy = policy @ added \<and> distinct added \<and>
      set added \<subseteq> set cands \<and>
      int (length added) = (if occ - int (length freed) < cap then 0
                            else if occ - int (length freed) - cap + 1 \<le> int (length cands)
                            then occ - int (length freed) - cap + 1 else 0) \<and>
      (\<forall>i\<in>set added. \<forall>j\<in>set cands - set added.
         \<not> evictsBefore (candidateOf mods j) (candidateOf mods i))"
proof -
  let ?cs = "sortedCandidates mods residents policy"
  let ?need = "occ - int (length freed) - cap + 1"
  have cs: "set ?cs = candidateOf mods ` set cands"
    by (auto simp: sortedCandidates_def cands_def)
  have ids: "mset (map cid ?cs) = mset cands"
    using sortedCandidates_ids [of mods residents policy] by (simp add: cands_def filter_filter conj_commute)
  then have len: "length ?cs = length cands" by (metis length_map size_mset)
  have dist: "distinct (map cid ?cs)" "set (map cid ?cs) = set cands"
    using mset_eq_imp_distinct_iff [OF ids] mset_eq_setD [OF ids] assms(3) by (auto simp: cands_def)
  have "set ?cs \<subseteq> sortable"
    using assms(4) by (auto simp: cs cands_def sortable_def evictable_def)
  then have "set (filter evictable (map (candidateOf mods) (filter (\<lambda>i. i \<notin> set policy) residents))) \<subseteq> sortable"
    by (simp add: sortedCandidates_def)
  then have sorted: "sorted_wrt (\<lambda>a b. \<not> evictsBefore b a) ?cs"
    unfolding sortedCandidates_def
  proof (intro sorted_sortBy [where S = sortable])
    show "evictsBefore x z" if "x \<in> sortable" "y \<in> sortable" "z \<in> sortable" "evictsBefore x y" "\<not> evictsBefore z y"
      for x y z using evictsBefore_order that by blast
    show "\<not> evictsBefore y x" if "x \<in> sortable" "y \<in> sortable" "evictsBefore x y" for x y
      using evictsBefore_asym that by blast
  qed
  have whole: "c = candidateOf mods (cid c)" if "c \<in> set ?cs" for c using that cs by auto
  show ?thesis
  proof (cases "?need \<le> 0 \<or> int (length cands) < ?need")
    case True
    then have "capacityEvictions mods cap residents occ policy = policy"
      using len by (auto simp: capacityEvictions_def Let_def freed_def sortedCandidates_def [symmetric])
    with True show ?thesis by (intro exI [of _ "[]"]) auto
  next
    case False
    let ?n = "nat ?need"
    let ?added = "map cid (take ?n ?cs)"
    have n: "?n \<le> length ?cs" using False len by linarith
    have eq: "capacityEvictions mods cap residents occ policy = policy @ ?added"
      using False len by (auto simp: capacityEvictions_def Let_def freed_def sortedCandidates_def [symmetric])
    have split: "?cs = take ?n ?cs @ drop ?n ?cs" by simp
    have sub: "set ?added \<subseteq> set cands"
      using dist(2) image_mono [OF set_take_subset [of ?n ?cs], of cid] by simp
    have rank: "\<not> evictsBefore b a" if "a \<in> set (take ?n ?cs)" "b \<in> set (drop ?n ?cs)" for a b
      using sorted that by (subst (asm) split) (auto simp: sorted_wrt_append simp del: append_take_drop_id)
    have "\<not> evictsBefore (candidateOf mods j) (candidateOf mods i)"
      if i: "i \<in> set ?added" and j: "j \<in> set cands - set ?added" for i j
    proof -
      obtain a where a: "a \<in> set (take ?n ?cs)" "i = cid a" using i by auto
      have "candidateOf mods j \<in> set ?cs" using j cs by auto
      moreover have "candidateOf mods j \<notin> set (take ?n ?cs)" using j by force
      ultimately have "candidateOf mods j \<in> set (drop ?n ?cs)" using split by (metis Un_iff set_append)
      then show ?thesis using rank [OF a(1)] whole [OF in_set_takeD [OF a(1)]] a(2) by simp
    qed
    moreover have "distinct ?added" using dist(1) by (simp add: take_map [symmetric] distinct_take)
    moreover have "int (length ?added) = ?need" using n False by simp
    ultimately show ?thesis using eq sub False by (intro exI [of _ ?added]) auto
  qed
qed

lemma LLM_resident: "set (ResidentLLMAliases pool m) \<subseteq> set (ResidentAliases pool m)"
  by (auto simp: ResidentLLMAliases_def ResidentAliases_def)

definition poolResidents :: "'w lifecycleSwapper \<Rightarrow> string \<Rightarrow> string set" where
  "poolResidents ls target =
     (case lsModels ls target of
        None \<Rightarrow> {}
      | Some c \<Rightarrow> (case ManagerForModel target (lsRegistry ls) of
                    None \<Rightarrow> {} | Some m \<Rightarrow> set (ResidentLLMAliases (LifecyclePool c) m)))"

lemma lifecycle_spares_target:
  "target \<notin> set policy \<Longrightarrow> target \<notin> set (lifecycleEvictionFor s target policy)"
proof -
  assume "target \<notin> set policy"
  moreover have "target \<notin> set (ResidentLLMAliases p m)" if "target \<notin> set (ResidentAliases p m)"
    for p and m :: "'a Manager" using that LLM_resident by blast
  ultimately show ?thesis
    by (auto simp: lifecycleEvictionFor_def capacityEvictions_spares split: option.split)
qed

lemma capacityEvictions_within:
  "set (capacityEvictions mods cap residents occ policy) \<subseteq> set policy \<union> set residents"
  using capacityEvictions_spares [of _ residents policy mods cap occ] by blast

lemma lifecycle_within:
  "set (lifecycleEvictionFor s target policy) \<subseteq> set policy \<union> poolResidents s target"
  using capacityEvictions_within
  by (auto simp: lifecycleEvictionFor_def poolResidents_def split: option.splits if_splits)

sublocale overlay \<subseteq> lifecycle: swapper
    "\<lambda>target running. lifecycleEvictionFor ls target (fallback target running)"
    "\<lambda>target. resident target \<union> poolResidents ls target"
proof unfold_locales
  show "target \<notin> set (lifecycleEvictionFor ls target (fallback target running))" for target running
    by (rule lifecycle_spares_target [OF spares_target])
  show "set (lifecycleEvictionFor ls target (fallback target running)) \<subseteq>
      set running \<union> (resident target \<union> poolResidents ls target)" for target running
    using lifecycle_within [of ls target "fallback target running"] evicts_live [of target running] by blast
qed

interpretation group_overlay: overlay "groupEvictionFor p" "\<lambda>_. {}" ls for p ls
  by unfold_locales

interpretation matrix_overlay: overlay "\<lambda>target running. Evict (solverSolve s target running)" "\<lambda>_. {}" ls for s ls
  by unfold_locales

text \<open>The eviction policies a router is built with.\<close>

datatype 'w policy =
    GroupPolicy groupSwapper
  | MatrixPolicy matrixSolver
  | WithPools "'w policy" "'w lifecycleSwapper"

fun policyEvictionFor :: "'w policy \<Rightarrow> string \<Rightarrow> string list \<Rightarrow> string list" where
  "policyEvictionFor (GroupPolicy p) t r = groupEvictionFor p t r"
| "policyEvictionFor (MatrixPolicy s) t r = Evict (solverSolve s t r)"
| "policyEvictionFor (WithPools q ls) t r = lifecycleEvictionFor ls t (policyEvictionFor q t r)"

fun policyResident :: "'w policy \<Rightarrow> string \<Rightarrow> string set" where
  "policyResident (WithPools q ls) t = policyResident q t \<union> poolResidents ls t"
| "policyResident _ t = {}"

interpretation any_sw: swapper "policyEvictionFor q" "policyResident q" for q
proof (induction q)
  case (GroupPolicy p)
  show ?case using group_sw.swapper_axioms by (simp add: swapper_def)
next
  case (MatrixPolicy s)
  show ?case using matrix_sw.swapper_axioms by (simp add: swapper_def)
next
  case (WithPools q ls)
  show ?case
    unfolding swapper_def policyEvictionFor.simps policyResident.simps
    using lifecycle_spares_target [OF swapper.spares_target [OF WithPools]]
      lifecycle_within [of ls _ "policyEvictionFor q _ _"] swapper.evicts_live [OF WithPools] by blast
qed

section \<open>Properties\<close>

text \<open>A group router evicts exactly the running models the group settings name: siblings when
  the target's group swaps, members of other non-persistent groups when it is exclusive; never
  the target, and each model once.\<close>

theorem group_eviction_exact:
  "distinct (groupEvictionFor p target running) \<and>
   (\<forall>m. m \<in> set (groupEvictionFor p target running) \<longleftrightarrow>
      m \<in> set running \<and> m \<noteq> target \<and>
      (if groupOf p m = groupOf p target then Swap (groupCfg p (groupOf p target))
       else Exclusive (groupCfg p (groupOf p target)) \<and> \<not> Persistent (groupCfg p (groupOf p m))))"
  by (auto simp: groupEvictionFor_spec groupEvicts_def)

text \<open>Whatever eviction policy the router is configured with (groups, a matrix, provider pools
  on top of either), in every reachable state of the scheduler no running swap evicts the model
  it is loading.\<close>

theorem swaps_spare_their_target:
  assumes "\<forall>w t running. EvictionFor fx w t running = policyEvictionFor q t running"
    "sched_reach fx s" "(k, sw) \<in> set (active s)"
  shows "k \<notin> set (evict sw)"
  by (rule any_sw.active_spares_target [OF _ assms(2,3)]) (use assms(1) in blast)

definition swapGroup :: groupSwapper where
  "swapGroup = \<lparr>modelToGroup = [''a'' \<mapsto> ''g'', ''b'' \<mapsto> ''g''],
     groups = [''g'' \<mapsto> \<lparr>Swap = True, Exclusive = True, Persistent = False, Members = [''a'', ''b'']\<rparr>]\<rparr>"

definition groupFx :: "recorder Effects" where
  "groupFx = recFx\<lparr>EvictionFor := (\<lambda>w. groupEvictionFor swapGroup)\<rparr>"

definition groupSwapping :: "recorder FIFO" where
  "groupSwapping = the (handle groupFx (EvRequest (mkReq ''b'' 1)) fresh)"

lemma groupSwapping_reach: "sched_reach groupFx groupSwapping"
  unfolding groupSwapping_def fresh_def by (rule sched_reach_run [OF sched_reach.start]) simp

lemma groupSwapping_active: "map_of (active groupSwapping) ''b'' = Some \<lparr>modelID = ''b'', evict = [''a''], waiters = [mkReq ''b'' 1]\<rparr>"
  by code_simp

theorem swaps_spare_their_target_witness: "''b'' \<notin> set [''a'']"
proof -
  have "\<forall>w t running. EvictionFor groupFx w t running = policyEvictionFor (GroupPolicy swapGroup) t running"
    by (simp add: groupFx_def)
  from swaps_spare_their_target [OF this groupSwapping_reach map_of_SomeD [OF groupSwapping_active]] show ?thesis by simp
qed

text \<open>C13: A provider pool makes exactly the room it needs: loading a non-resident target adds to the
  policy's evictions as many resident LLMs as exceed the capacity by one after the policy's own
  evictions, only evictable ones, transient and less important ones first; when there are too
  few evictable residents it adds none.\<close>

theorem pool_makes_exact_room:
  fixes ls target policy manager cfg pool
  defines "residents \<equiv> ResidentLLMAliases (LifecyclePool cfg) manager"
    and "e \<equiv> (\<lambda>i. candidateOf (lsModels ls) i)"
  defines "occ \<equiv> OccupiedLLM manager - int (length (filter (\<lambda>i. i \<in> set policy) residents))"
    and "cands \<equiv> filter (\<lambda>i. i \<notin> set policy \<and> evictable (e i)) residents"
  assumes "lsModels ls target = Some cfg" "Provider cfg \<noteq> []" "lsPools ls (LifecyclePool cfg) = Some pool"
    "ManagerForModel target (lsRegistry ls) = Some manager"
    "target \<notin> set (ResidentAliases (LifecyclePool cfg) manager)"
    "distinct (map fst (bindings manager))"
    "\<forall>i\<in>set residents. cresidency (e i) \<in>
      {ResidencyHardPinned, ResidencyPreferred, ResidencyTransient, ResidencyExternal}"
  shows "\<exists>added. lifecycleEvictionFor ls target policy = policy @ added \<and> distinct added \<and> set added \<subseteq> set cands \<and>
      int (length added) = (if occ < Capacity pool then 0
                            else if occ - Capacity pool + 1 \<le> int (length cands) then occ - Capacity pool + 1 else 0) \<and>
      (\<forall>i\<in>set added. \<forall>j\<in>set cands - set added. \<not> evictsBefore (e j) (e i))"
proof -
  have "distinct residents"
    unfolding residents_def ResidentLLMAliases_def Let_def
    using assms(10) by (simp add: distinct_map_filter)
  moreover have "lifecycleEvictionFor ls target policy =
      capacityEvictions (lsModels ls) (Capacity pool) residents (OccupiedLLM manager) policy"
    using assms(5-9) by (simp add: lifecycleEvictionFor_def residents_def)
  ultimately show ?thesis
    using capacityEvictions_branches [of residents "lsModels ls" "Capacity pool" "OccupiedLLM manager" policy] assms(11)
    unfolding e_def occ_def cands_def by simp
qed

text \<open>A pool of capacity one, held by a transient model, asked for a second one.\<close>

definition poolModel :: "string \<Rightarrow> ModelConfig" where
  "poolModel pm = zeroModelConfig\<lparr>Provider := ''p'', ProviderModel := pm, LifecyclePool := ''pool'',
     Residency := ResidencyTransient\<rparr>"

definition poolOne :: LifecyclePoolConfig where
  "poolOne = noPool\<lparr>poolProvider := ''p'', Capacity := 1\<rparr>"

definition busyManager :: "unit Manager" where
  "busyManager = (newManager ''p'' [(''x'', poolModel ''X''), (''y'', poolModel ''Y'')] [(''pool'', poolOne)] ())
     \<lparr>health := noHealth\<lparr>AllModelsLoaded := [\<lparr>rmName = ''X'', rmType = ''llm'', rmStatus = ''ready'',
        rmPinned = False, rmLoaded = None\<rparr>]\<rparr>,
      mstates := [''x'' \<mapsto> Ready, ''y'' \<mapsto> Unloaded]\<rparr>"

definition busyPool :: "unit lifecycleSwapper" where
  "busyPool = \<lparr>lsModels = [''x'' \<mapsto> poolModel ''X'', ''y'' \<mapsto> poolModel ''Y''], lsPools = [''pool'' \<mapsto> poolOne],
     lsRegistry = \<lparr>managers = [(''p'', busyManager)], managerOf = [''x'' \<mapsto> ''p'', ''y'' \<mapsto> ''p'']\<rparr>\<rparr>"

theorem pool_makes_exact_room_witness:
  "\<exists>added. lifecycleEvictionFor busyPool ''y'' [] = [] @ added \<and> distinct added \<and> int (length added) = 1"
proof -
  have r: "ResidentLLMAliases (LifecyclePool (poolModel ''Y'')) busyManager = [''x'']" by code_simp
  have o: "OccupiedLLM busyManager = 1" by code_simp
  have e: "evictable (candidateOf (lsModels busyPool) ''x'')" by code_simp
  have c: "cresidency (candidateOf (lsModels busyPool) ''x'') = ResidencyTransient" by code_simp
  have k: "Capacity poolOne = 1" by code_simp
  have "lsModels busyPool ''y'' = Some (poolModel ''Y'')" "Provider (poolModel ''Y'') \<noteq> []"
    "lsPools busyPool (LifecyclePool (poolModel ''Y'')) = Some poolOne"
    "ManagerForModel ''y'' (lsRegistry busyPool) = Some busyManager"
    by (simp_all add: busyPool_def poolModel_def ManagerForModel_def)
  moreover have "''y'' \<notin> set (ResidentAliases (LifecyclePool (poolModel ''Y'')) busyManager)" by code_simp
  moreover have "distinct (map fst (bindings busyManager))" by code_simp
  ultimately show ?thesis
    using pool_makes_exact_room [of busyPool "''y''" "poolModel ''Y''" poolOne busyManager "[]"]
    by (auto simp: r o e c k)
qed

end
