(* ===== verification/Provider_Steps.thy ===== *)
theory Provider_Steps
  imports Provider_Manager
begin

text \<open>
  What every transition of the manager keeps: a property of the manager that survives interference
  and the few assignments transitions are made of survives the transitions. The locale states the
  assignments; its lemmas go through the transitions once.
\<close>

section \<open>The interface\<close>

locale manager_step =
  fixes cl :: "'w Lifecycle" and P :: "'w Manager \<Rightarrow> bool"
  assumes gap: "P m \<Longrightarrow> P (gap cl m)"
    and arrives: "P m \<Longrightarrow> P (loadArrives a m)" and leaves: "P m \<Longrightarrow> P (loadLeaves a m)"
    and bookkeeping: "P (m\<lparr>mworld := w\<rparr>) = P m" "P (m\<lparr>coalesced := c\<rparr>) = P m" "P (m\<lparr>owned := ow\<rparr>) = P m"
      "P (m\<lparr>transitions := tr\<rparr>) = P m" "P (m\<lparr>lastError := le\<rparr>) = P m" "P (m\<lparr>timers := tm\<rparr>) = P m"
      "P (m\<lparr>health := he\<rparr>) = P m" "P (m\<lparr>healthy := hy\<rparr>) = P m" "P (m\<lparr>discovered := di\<rparr>) = P m"
      "P (m\<lparr>corrections := co\<rparr>) = P m" "P (m\<lparr>failures := fa\<rparr>) = P m"
    and states: "P m \<Longrightarrow> (\<And>a. f a \<noteq> mstates m a \<Longrightarrow> f a = Some Busy \<Longrightarrow> 0 < mactive m a) \<Longrightarrow> P (m\<lparr>mstates := f\<rparr>)"
    and forget: "P m \<Longrightarrow> P (m\<lparr>displaced := (displaced m)(t := [])\<rparr>)"
begin

lemmas frame [simp] = bookkeeping

lemma keep_state: "P m \<Longrightarrow> s \<noteq> Busy \<Longrightarrow> mstates m = g \<Longrightarrow> P (m\<lparr>mstates := g(a \<mapsto> s)\<rparr>)"
  by (rule states) (auto split: if_splits)

lemma keep_call:
  assumes "call cl f m = (r, m')" "P m"
  shows "P m'"
proof -
  obtain u w where "f (mworld (gap cl m)) = (u, w)" by force
  then have "m' = gap cl ((gap cl m)\<lparr>mworld := w\<rparr>)" using assms(1) by (simp add: call_def Let_def)
  then show ?thesis using gap assms(2) by simp
qed

lemma keep_snd_call: "P m \<Longrightarrow> P (snd (call cl f m))"
  using keep_call [OF surjective_pairing] by auto

lemma keep_observeBinding: "P m \<Longrightarrow> P (observeBinding h ab m)"
proof -
  assume m: "P m"
  obtain a b where ab: "ab = (a, b)" by force
  have "observed h b \<noteq> Busy" by (simp add: observed_def split: option.split)
  then have "0 < mactive m a" if "nextState h m a b = Busy" using that by (auto simp: nextState_def split: if_splits)
  then have "P ((m\<lparr>corrections := c\<rparr>)\<lparr>mstates := (mstates m)(a \<mapsto> nextState h m a b)\<rparr>)" for c
    using m by (intro states) (auto split: if_splits)
  then show ?thesis by (simp add: observeBinding_def ab Let_def)
qed

lemma keep_applyHealth: "P m \<Longrightarrow> P (applyHealth h m)"
proof -
  have "P m \<Longrightarrow> P (fold (observeBinding h) bs m)" for bs
    by (induction bs arbitrary: m) (simp_all add: keep_observeBinding)
  then show "P m \<Longrightarrow> ?thesis" by (simp add: applyHealth_def)
qed

lemma keep_unhealthy: "P m \<Longrightarrow> P (unhealthy e m)"
  by (simp add: unhealthy_def)

lemma keep_setFailed: "P m \<Longrightarrow> P (setFailed a e m)"
  by (simp add: setFailed_def keep_state)

lemma keep_setTransition: "P m \<Longrightarrow> P (setTransition a t m)"
  by (auto simp: setTransition_def Let_def intro!: keep_state)

lemma keep_reconcile:
  assumes "reconcileLocked cl d m = (r, m')" "P m"
  shows "P m'"
proof -
  obtain h m1 where c: "call cl (clHealth cl) m = (h, m1)" by force
  have m1: "P m1" by (rule keep_call [OF c assms(2)])
  obtain ds m2 where c2: "call cl (clDiscover cl) m1 = (ds, m2)" by force
  have m2: "P m2" by (rule keep_call [OF c2 m1])
  show ?thesis
    using assms(1) c c2 m1 m2 keep_applyHealth keep_unhealthy
    by (auto simp: reconcileLocked_def split: sum.splits option.splits if_splits)
qed

lemma keep_snd_reconcile: "P m \<Longrightarrow> P (snd (reconcileLocked cl d m))"
  using keep_reconcile [OF surjective_pairing] by auto

section \<open>Transitions\<close>

lemma keep_loadLocked:
  assumes "loadLocked cl a b m = (r, m')" "P m"
  shows "P m'"
  using assms
  by (auto simp: loadLocked_def Let_def split: prod.splits option.splits if_splits
      intro!: keep_setFailed keep_setTransition gap dest!: keep_reconcile keep_call)

lemma keep_Load: "Load cl a m = (r, m') \<Longrightarrow> P m \<Longrightarrow> P m'"
  by (auto simp: Load_def split: option.splits prod.splits dest!: keep_loadLocked intro: leaves gap arrives)

lemma keep_Unload: "Unload cl a m = (r, m') \<Longrightarrow> P m \<Longrightarrow> P m'"
  by (auto simp: Unload_def Let_def split: option.splits prod.splits if_splits
      intro!: keep_setFailed keep_setTransition gap keep_state dest!: keep_reconcile keep_call)

lemma keep_forgetBindings: "P m \<Longrightarrow> P (fold forgetBinding bs m)"
proof (induction bs arbitrary: m)
  case (Cons ab bs)
  have "P (forgetBinding ab m)" if "P m" for m
  proof -
    obtain a b where ab: "ab = (a, b)" by force
    let ?n = "m\<lparr>owned := (owned m)(a := False), mstates := (mstates m)(a \<mapsto> Unloaded), transitions := (transitions m)(a := None)\<rparr>"
    have "P ?n" using that by (simp add: keep_state)
    from forget [OF this, of a] show ?thesis by (simp add: forgetBinding_def ab)
  qed
  then show ?case using Cons by simp
qed simp

lemma keep_UnloadAll: "UnloadAll cl m = (r, m') \<Longrightarrow> P m \<Longrightarrow> P m'"
  by (auto simp: UnloadAll_def Let_def split: option.splits prod.splits
      intro!: keep_forgetBindings gap dest!: keep_reconcile keep_call)

lemma keep_resume: "resumeDemandedTransient cl t b m = (r, m') \<Longrightarrow> P m \<Longrightarrow> P m'"
  by (auto simp: resumeDemandedTransient_def Let_def split: option.splits prod.splits if_splits
      intro!: keep_setFailed gap keep_state dest!: keep_reconcile keep_call)

lemma keep_restoreAttempts: "restoreAttempts cl t b item mc n e m = (r, m') \<Longrightarrow> P m \<Longrightarrow> P m'"
proof (induction n arbitrary: e m)
  case (Suc n)
  obtain r1 m1 where 1: "resumeDemandedTransient cl t b m = (r1, m1)" by force
  have m1: "P m1" by (rule keep_resume [OF 1 Suc.prems(2)])
  obtain r2 m2 where 2: "call cl (clLoad cl (ProviderModel mc) (WasPinned item \<or> Residency mc = ResidencyPreferred)) m1 = (r2, m2)"
    by force
  have m2: "P m2" by (rule keep_call [OF 2 m1])
  show ?case using Suc 1 2 m1 m2 by (auto split: bool.splits option.splits if_splits)
qed simp

lemma keep_restoreItems: "restoreItems cl t b items m = (r, m') \<Longrightarrow> P m \<Longrightarrow> P m'"
proof (induction items arbitrary: m)
  case (Cons item items)
  obtain r1 m1' where 1: "resumeDemandedTransient cl t b m = (r1, m1')" by force
  let ?m1 = "gap cl m1'"
  have m1': "P m1'" and m1: "P ?m1" using keep_resume [OF 1 Cons.prems(2)] gap by blast+
  show ?case
  proof (cases "r1 \<or> Binding (dAlias item) ?m1 = None")
    case True
    then show ?thesis using Cons 1 m1 m1' by (cases r1) (auto simp: Let_def split: option.splits)
  next
    case False
    then obtain mc where mc: "Binding (dAlias item) ?m1 = Some mc" "\<not> r1" by auto
    obtain at m2 where 2: "restoreAttempts cl t b item mc 3 (ErrText []) ?m1 = (at, m2)" by force
    have m2: "P m2" by (rule keep_restoreAttempts [OF 2 m1])
    obtain e m3' where 3: "reconcileLocked cl False m2 = (e, m3')" by force
    have m3: "P (gap cl m3')" by (rule gap [OF keep_reconcile [OF 3 m2]])
    have undo: "P (snd (resumeDemandedTransient cl t b (snd (reconcileLocked cl False
        (snd (call cl f (snd (call cl g (gap cl m3')))))))))" for f g :: "'w \<Rightarrow> error option \<times> 'w"
      by (rule keep_resume [OF surjective_pairing]) (intro keep_snd_reconcile keep_snd_call m3)
    show ?thesis using Cons.prems Cons.IH [of "gap cl m3'"] 1 2 3 mc m1 m2 m3 undo
      by (auto simp: Let_def keep_setFailed split: option.splits attempt.splits if_splits bool.splits)
  qed
qed simp

lemma keep_unloadTransient: "unloadTransient cl t b m = (r, m') \<Longrightarrow> P m \<Longrightarrow> P m'"
  by (auto simp: unloadTransient_def split: prod.splits option.splits if_splits
      dest!: keep_call dest: keep_reconcile)

lemma keep_finishRestore: "P m \<Longrightarrow> P (finishRestore t ds m)"
proof -
  assume m: "P m"
  let ?n = "m\<lparr>displaced := (displaced m)(t := [])\<rparr>"
  have "P (?n\<lparr>transitions := (transitions m)(t := None), mstates := (mstates m)(t \<mapsto> Unloaded)\<rparr>)"
    by (rule keep_state) (use forget [OF m] in simp_all)
  then show ?thesis by (simp add: finishRestore_def)
qed

lemma keep_restoreDisplaced: "P m \<Longrightarrow> P (restoreDisplaced cl t ds m)"
proof -
  assume m: "P m"
  define b where "b = (case Binding t m of Some c \<Rightarrow> c | None \<Rightarrow> zeroModelConfig)"
  obtain e m1 where 1: "unloadTransient cl t b m = (e, m1)" by force
  obtain ok m2 where 2: "restoreItems cl t b ds m1 = (ok, m2)" by force
  have m1: "P m1" by (rule keep_unloadTransient [OF 1 m])
  have m2: "P m2" by (rule keep_restoreItems [OF 2 m1])
  show ?thesis
    using 1 2 keep_setFailed [OF m1] m2 keep_finishRestore [OF gap [OF m2]]
    by (cases e; cases ok) (simp_all add: restoreDisplaced_def Let_def b_def [symmetric])
qed

lemma keep_restoreDraining: "P m \<Longrightarrow> P (restoreDraining cl t ds m)"
proof -
  assume m: "P m"
  have d: "P (gap cl (m\<lparr>mstates := (mstates m)(t \<mapsto> Draining)\<rparr>))" by (intro gap keep_state m) simp_all
  obtain e m1 where 1: "reconcileLocked cl False (gap cl (m\<lparr>mstates := (mstates m)(t \<mapsto> Draining)\<rparr>)) = (e, m1)"
    by force
  have m1: "P m1" by (rule keep_reconcile [OF 1 d])
  have g1: "P (gap cl m1)" by (rule gap [OF m1])
  have "P ((gap cl m1)\<lparr>mstates := (mstates (gap cl m1))(t \<mapsto> Ready), transitions := x\<rparr>)" for x
    using keep_state [OF g1, of Ready _ t] by simp
  moreover have "P (restoreDisplaced cl t ds
      (gap cl ((gap cl m1)\<lparr>mstates := (mstates (gap cl m1))(t \<mapsto> Draining)\<rparr>)))"
    by (intro keep_restoreDisplaced gap keep_state g1) simp_all
  ultimately show ?thesis using 1 keep_setFailed [OF m1]
    by (cases e) (simp_all add: restoreDraining_def Let_def)
qed

lemma keep_restore: "P m0 \<Longrightarrow> P (restore cl t m0)"
proof -
  assume "P m0"
  then have m: "P ((gap cl m0)\<lparr>timers := x\<rparr>)" for x using gap by simp
  then have "P (restoreDraining cl t ds ((gap cl m0)\<lparr>timers := x, transitions := y\<rparr>))" for ds x y
    by (intro keep_restoreDraining) simp
  then show ?thesis using m by (simp add: restore_def Let_def)
qed

end

end
