(* ===== verification/Provider_Props.thy ===== *)
theory Provider_Props
  imports Provider_Steps
begin

text \<open>
  What the provider manager keeps true whatever runs concurrently with its transitions, and what
  its transitions achieve. Interference changes leases, demand, queue counters, timers, displaced
  models and the split between ready and busy, and gives no lease on a model in any other state.
\<close>

section \<open>Interference\<close>

definition serving :: "'w Manager \<Rightarrow> string \<Rightarrow> bool" where
  "serving m a \<longleftrightarrow> mstates m a = Some Ready \<or> mstates m a = Some Busy"

definition rely :: "'w Manager \<Rightarrow> 'w Manager \<Rightarrow> bool" where
  "rely m m' \<longleftrightarrow> mname m' = mname m \<and> bindings m' = bindings m \<and> mpools m' = mpools m \<and> health m' = health m \<and>
     owned m' = owned m \<and> transitions m' = transitions m \<and>
     (\<forall>a. mstates m' a = mstates m a \<or> serving m a \<and> serving m' a) \<and>
     (\<forall>a. \<not> serving m a \<longrightarrow> mactive m' a \<le> mactive m a)"

lemma rely_refl [simp]: "rely m m"
  by (simp add: rely_def)

lemma rely_serving: "rely m m' \<Longrightarrow> serving m' a = serving m a"
  unfolding rely_def serving_def by metis

lemma rely_trans [trans]: "rely m m' \<Longrightarrow> rely m' m'' \<Longrightarrow> rely m m''"
proof -
  assume 1: "rely m m'" and 2: "rely m' m''"
  have "mstates m'' a = mstates m a \<or> serving m a \<and> serving m'' a" for a
  proof (cases "serving m a")
    case True
    then show ?thesis using rely_serving [OF 1] rely_serving [OF 2] by simp
  next
    case False
    then have "\<not> serving m' a" using rely_serving [OF 1] by simp
    then have "mstates m'' a = mstates m' a" "mstates m' a = mstates m a"
      using 1 2 False unfolding rely_def by metis+
    then show ?thesis by simp
  qed
  moreover have "mactive m'' a \<le> mactive m a" if "\<not> serving m a" for a
    using 1 2 that rely_serving [OF 1, of a] unfolding rely_def by (meson order_trans)
  ultimately show ?thesis using 1 2 by (simp add: rely_def)
qed

lemma rely_fields:
  assumes "rely m m'"
  shows "mname m' = mname m" "bindings m' = bindings m" "mpools m' = mpools m" "health m' = health m"
    "owned m' = owned m" "transitions m' = transitions m"
  using assms by (simp_all add: rely_def)

definition displaced_ok :: "displacedModel list \<Rightarrow> bool" where
  "displaced_ok ds \<longleftrightarrow> distinct (map dAlias ds) \<and> sorted_wrt (\<lambda>a b. \<not> displacedLess b a) ds"

definition mgr_ok :: "'w Manager \<Rightarrow> bool" where
  "mgr_ok m \<longleftrightarrow> (\<forall>a. 0 \<le> mactive m a \<and> 0 \<le> mqueued m a \<and> (mstates m a = Some Busy \<longrightarrow> 0 < mactive m a)) \<and>
     (\<forall>t. displaced_ok (displaced m t))"

lemma mgr_okD:
  assumes "mgr_ok m"
  shows "0 \<le> mactive m a" "0 \<le> mqueued m a" "mstates m a = Some Busy \<Longrightarrow> 0 < mactive m a"
    "displaced_ok (displaced m t)"
  using assms by (auto simp: mgr_ok_def)

lemma Acquire_ok: "mgr_ok m \<Longrightarrow> mgr_ok (snd (Acquire a m)) \<and> rely m (snd (Acquire a m))"
  by (auto simp: Acquire_def mgr_ok_def rely_def serving_def bump_apply add_nonneg_pos)

lemma Release_ok: "mgr_ok m \<Longrightarrow> mgr_ok (Release a m) \<and> rely m (Release a m)"
  by (auto simp: Release_def mgr_ok_def rely_def serving_def bump_apply Let_def split: option.splits)

lemma MQueueDelta_ok: "mgr_ok m \<Longrightarrow> mgr_ok (MQueueDelta a d m) \<and> rely m (MQueueDelta a d m)"
  by (auto simp: MQueueDelta_def mgr_ok_def rely_def serving_def bump_apply Let_def)

lemma displaceVictims_distinct:
  "distinct (map dAlias ds) \<Longrightarrow> set seen = set (map dAlias ds) \<Longrightarrow>
   distinct (map dAlias (displaceVictims m vs ds seen))"
  by (induction m vs ds seen rule: displaceVictims.induct) (auto split: option.splits)

lemma displacedLess_order:
  "displacedLess x y \<Longrightarrow> \<not> displacedLess z y \<Longrightarrow> displacedLess x z"
  "displacedLess x y \<Longrightarrow> \<not> displacedLess y x"
proof -
  have c: "dAlias y < dAlias x \<Longrightarrow> \<not> dAlias y < dAlias z \<Longrightarrow> dAlias z < dAlias x" for x y z
    by (meson le_less_trans not_less)
  show "displacedLess x y \<Longrightarrow> \<not> displacedLess z y \<Longrightarrow> displacedLess x z"
    unfolding displacedLess_def by (auto split: if_splits intro: less_le_trans)
  show "displacedLess x y \<Longrightarrow> \<not> displacedLess y x"
    unfolding displacedLess_def by (auto split: if_splits)
qed

lemma BeginSwap_ok: "mgr_ok m \<Longrightarrow> mgr_ok (BeginSwap t vs m) \<and> rely m (BeginSwap t vs m)"
proof -
  assume m: "mgr_ok m"
  let ?ds = "displaceVictims m vs (displaced m t) (map dAlias (displaced m t))"
  have "distinct (map dAlias ?ds)"
    using mgr_okD(4) [OF m] by (intro displaceVictims_distinct) (auto simp: displaced_ok_def)
  then have "distinct (map dAlias (sortBy displacedLess ?ds))"
    using mset_eq_imp_distinct_iff [of "map dAlias (sortBy displacedLess ?ds)" "map dAlias ?ds"] by simp
  moreover have "sorted_wrt (\<lambda>a b. \<not> displacedLess b a) (sortBy displacedLess ?ds)"
    by (rule sorted_sortBy [where S = UNIV]) (use displacedLess_order in blast)+
  ultimately show ?thesis using m
    by (auto simp: BeginSwap_def mgr_ok_def rely_def displaced_ok_def serving_def split: option.split)
qed

lemma loadArrives_ok: "mgr_ok m \<Longrightarrow> mgr_ok (loadArrives a m) \<and> rely m (loadArrives a m)"
  by (simp add: loadArrives_def mgr_ok_def rely_def serving_def)

lemma loadLeaves_ok: "mgr_ok m \<Longrightarrow> mgr_ok (loadLeaves a m) \<and> rely m (loadLeaves a m)"
  by (simp add: loadLeaves_def mgr_ok_def rely_def serving_def)

lemma interfere_ok: "mgr_ok m \<Longrightarrow> mgr_ok (interfere c m) \<and> rely m (interfere c m)"
  by (cases c) (simp_all add: Acquire_ok Release_ok MQueueDelta_ok BeginSwap_ok loadArrives_ok loadLeaves_ok)

lemma fold_interfere_ok: "mgr_ok m \<Longrightarrow> mgr_ok (fold interfere cs m) \<and> rely m (fold interfere cs m)"
proof (induction cs arbitrary: m)
  case (Cons c cs)
  from interfere_ok [OF Cons.prems] Cons.IH [of "interfere c m"] show ?case
    using rely_trans [of m "interfere c m"] by simp
qed simp

lemma mgr_ok_world [simp]: "mgr_ok (m\<lparr>mworld := w\<rparr>) = mgr_ok m"
  by (simp add: mgr_ok_def)

lemma rely_world [simp]: "rely m (m\<lparr>mworld := w\<rparr>)" "rely (m\<lparr>mworld := w\<rparr>) m' = rely m m'"
  by (simp_all add: rely_def serving_def)

lemma gap_ok: "mgr_ok m \<Longrightarrow> mgr_ok (gap cl m) \<and> rely m (gap cl m)"
proof -
  assume m: "mgr_ok m"
  obtain cs w where "Meanwhile cl (mworld m) = (cs, w)" by force
  then show ?thesis using fold_interfere_ok [of "m\<lparr>mworld := w\<rparr>" cs] m by (simp add: gap_def)
qed

lemma call_ok: "mgr_ok m \<Longrightarrow> mgr_ok (snd (call cl f m)) \<and> rely m (snd (call cl f m))"
  using gap_ok [of m cl] gap_ok [of "(gap cl m)\<lparr>mworld := w\<rparr>" cl for w]
  by (auto simp: call_def Let_def split: prod.split intro: rely_trans)

lemma call_eq_ok: "call cl f m = (r, m') \<Longrightarrow> mgr_ok m \<Longrightarrow> mgr_ok m' \<and> rely m m'"
  using call_ok [of m cl f] by simp

section \<open>Transitions preserve the invariant\<close>

text \<open>The invariant of the manager is one of the properties every transition keeps.\<close>

lemma mgr_ok_states:
  assumes "mgr_ok m" "\<And>a. f a \<noteq> mstates m a \<Longrightarrow> f a = Some Busy \<Longrightarrow> 0 < mactive m a"
  shows "mgr_ok (m\<lparr>mstates := f\<rparr>)"
proof -
  have "0 < mactive m a" if "f a = Some Busy" for a
    using assms that by (cases "f a = mstates m a") (auto simp: mgr_ok_def)
  then show ?thesis using assms(1) by (simp add: mgr_ok_def)
qed

interpretation inv: manager_step cl mgr_ok for cl
proof
  show "mgr_ok (m\<lparr>mstates := f\<rparr>)" if "mgr_ok m" "\<And>a. f a \<noteq> mstates m a \<Longrightarrow> f a = Some Busy \<Longrightarrow> 0 < mactive m a" for m f
    by (rule mgr_ok_states [OF that])
qed (simp_all add: gap_ok loadArrives_ok loadLeaves_ok, simp_all add: mgr_ok_def displaced_ok_def)

section \<open>Runs of a manager\<close>

datatype manager_event =
    EvReconcile bool
  | EvLoad string
  | EvUnloadModel string
  | EvUnloadAll
  | EvTimer string
  | EvConcurrent concurrent

fun manage :: "'w Lifecycle \<Rightarrow> manager_event \<Rightarrow> 'w Manager \<Rightarrow> 'w Manager" where
  "manage cl (EvReconcile d) m = snd (reconcileLocked cl d m)"
| "manage cl (EvLoad a) m = snd (Load cl a m)"
| "manage cl (EvUnloadModel a) m = snd (Unload cl a m)"
| "manage cl EvUnloadAll m = snd (UnloadAll cl m)"
| "manage cl (EvTimer t) m = restore cl t m"
| "manage cl (EvConcurrent c) m = interfere c m"

text \<open>A timer fires only while it is armed; the world may change between events.\<close>

inductive mgr_reach :: "'w Lifecycle \<Rightarrow> 'w Manager \<Rightarrow> bool" for cl :: "'w Lifecycle" where
  new: "mgr_reach cl (newManager n mods pls w)"
| event: "mgr_reach cl m \<Longrightarrow> (\<And>t. ev = EvTimer t \<Longrightarrow> timers m t \<noteq> None) \<Longrightarrow> mgr_reach cl (manage cl ev m)"
| world: "mgr_reach cl m \<Longrightarrow> mgr_reach cl (m\<lparr>mworld := w\<rparr>)"

inductive_cases mgr_reach_elim: "mgr_reach cl m"

lemma manage_ok: "mgr_ok m \<Longrightarrow> mgr_ok (manage cl ev m)"
proof (cases ev)
  case (EvReconcile d)
  then show "mgr_ok m \<Longrightarrow> ?thesis" using inv.keep_reconcile [OF surjective_pairing] by auto
next
  case (EvLoad a)
  then show "mgr_ok m \<Longrightarrow> ?thesis" using inv.keep_Load [OF surjective_pairing] by auto
next
  case (EvUnloadModel a)
  then show "mgr_ok m \<Longrightarrow> ?thesis" using inv.keep_Unload [OF surjective_pairing] by auto
next
  case EvUnloadAll
  then show "mgr_ok m \<Longrightarrow> ?thesis" using inv.keep_UnloadAll [OF surjective_pairing] by auto
qed (simp_all add: inv.keep_restore interfere_ok)

lemma newManager_ok: "mgr_ok (newManager n mods pls w)"
proof -
  have "fold (\<lambda>(a, b) st. st(a \<mapsto> Unloaded)) bs st a \<noteq> Some Busy" if "st a \<noteq> Some Busy"
    for bs :: "(string \<times> ModelConfig) list" and st a
    using that by (induction bs arbitrary: st) (auto split: prod.split)
  then show ?thesis by (simp add: newManager_def mgr_ok_def displaced_ok_def Let_def)
qed

lemma mgr_reach_ok: "mgr_reach cl m \<Longrightarrow> mgr_ok m"
  by (induction rule: mgr_reach.induct) (simp_all add: newManager_ok manage_ok)

section \<open>A simulated provider\<close>

text \<open>
  A provider that holds named models up to no limit, answers immediately, and rejects unloading
  a model it does not hold; it instantiates the client for the closed examples.
\<close>

record sim =
  held :: "(string \<times> bool) list"
  requests :: "string list"

definition ask :: "string \<Rightarrow> sim \<Rightarrow> sim" where
  "ask r w = w\<lparr>requests := requests w @ [r]\<rparr>"

definition simClient :: "sim Lifecycle" where
  "simClient = \<lparr>
     clHealth = (\<lambda>w. (Inr \<lparr>hStatus = ''ok'', AllModelsLoaded = map (\<lambda>(n, p). \<lparr>rmName = n, rmType = ''llm'',
        rmStatus = ''ready'', rmPinned = p, rmLoaded = None\<rparr>) (held w), MaxModels = Map.empty\<rparr>, w)),
     clDiscover = (\<lambda>w. (Inr (map fst (held w)), w)),
     clLoad = (\<lambda>n p w. (None, ask (''load '' @ n) (w\<lparr>held := filter (\<lambda>(k, q). k \<noteq> n) (held w) @ [(n, p)]\<rparr>))),
     clUnload = (\<lambda>n w. if map_of (held w) n = None
                        then (Some (ProviderError ''p'' ''not_loaded'' ''provider lifecycle request failed'' 503), ask (''unload '' @ n) w)
                        else (None, ask (''unload '' @ n) (w\<lparr>held := filter (\<lambda>(k, q). k \<noteq> n) (held w)\<rparr>))),
     clUnloadAll = (\<lambda>w. (None, w\<lparr>held := []\<rparr>)),
     clPin = (\<lambda>n p w. (None, w)), Cancelled = (\<lambda>w. False), Meanwhile = (\<lambda>w. ([], w))\<rparr>"

definition memberOf :: "string \<Rightarrow> string \<Rightarrow> ModelConfig" where
  "memberOf pm res = zeroModelConfig\<lparr>Provider := ''p'', ProviderModel := pm, LifecyclePool := ''pool'', Residency := res\<rparr>"

definition simPool :: LifecyclePoolConfig where
  "simPool = noPool\<lparr>poolProvider := ''p'', Capacity := 1, RestorePreferred := True, TransientIdleTTL := 60\<rparr>"

definition simManager :: "sim Manager" where
  "simManager = newManager ''p'' [(''main'', memberOf ''M'' ResidencyPreferred), (''side'', memberOf ''S'' ResidencyTransient)]
     [(''pool'', simPool)] \<lparr>held = [], requests = []\<rparr>"

text \<open>The preferred model is loaded, displaced by the transient one, which serves one request.\<close>

definition displacement :: "manager_event list" where
  "displacement = [EvLoad ''main'', EvConcurrent (ConcBeginSwap ''side'' [''main'']), EvUnloadModel ''main'', EvLoad ''side'',
     EvConcurrent (ConcAcquire ''side''), EvConcurrent (ConcRelease ''side'')]"

definition manageAll :: "manager_event list \<Rightarrow> sim Manager \<Rightarrow> sim Manager" where
  "manageAll evs m = fold (manage simClient) evs m"

text \<open>Evaluation of runs of the simulated provider.\<close>

lemma quiet_sim [simp]: "gap simClient m = m"
  by (simp add: gap_def simClient_def)

lemma sim_client:
  "clHealth simClient w = (Inr \<lparr>hStatus = ''ok'', AllModelsLoaded = map (\<lambda>(n, p). \<lparr>rmName = n, rmType = ''llm'',
     rmStatus = ''ready'', rmPinned = p, rmLoaded = None\<rparr>) (held w), MaxModels = Map.empty\<rparr>, w)"
  "clLoad simClient n p w = (None, ask (''load '' @ n) (w\<lparr>held := filter (\<lambda>(k, q). k \<noteq> n) (held w) @ [(n, p)]\<rparr>))"
  "clUnload simClient n w = (if map_of (held w) n = None
     then (Some (ProviderError ''p'' ''not_loaded'' ''provider lifecycle request failed'' 503), ask (''unload '' @ n) w)
     else (None, ask (''unload '' @ n) (w\<lparr>held := filter (\<lambda>(k, q). k \<noteq> n) (held w)\<rparr>)))"
  "clPin simClient n p w = (None, w)"
  by (simp_all add: simClient_def)

lemma call_sim: "call simClient f m = (case f (mworld m) of (r, w) \<Rightarrow> (r, m\<lparr>mworld := w\<rparr>))"
  by (simp add: call_def)

lemmas sim_defs = Let_def sim_client ask_def call_sim reconcileLocked_def validateLemonadeHealth_def applyHealth_def observeBinding_def
  nextState_def observed_def residentMap_def residentReady_def Load_def loadLocked_def loadArrives_def loadLeaves_def
  Unload_def Binding_def MState_def setTransition_def poolOf_def OccupiedLLM_def isLLM_def pinFor_def bump_def
  Acquire_def Release_def BeginSwap_def restore_def restoreDraining_def restoreDisplaced_def unloadTransient_def
  finishRestore_def resumeDemandedTransient_def hasDemand_def setFailed_def residency_defs
  simManager_def newManager_def memberOf_def simPool_def noPool_def noHealth_def zeroModelConfig_def displacement_def manageAll_def sortBy_def
  numeral_3_eq_3


section \<open>Properties\<close>

text \<open>C5: In every reachable state of a provider manager, whatever the provider answers and however
  leases, queue counters, loads and swaps interleave with its transitions: lease and queue
  counts are never negative, a busy model has a lease, and the models a transient one displaced
  are listed once each, in the order in which they will be restored.\<close>

theorem manager_invariant:
  assumes "mgr_reach cl m"
  shows "0 \<le> mactive m a \<and> 0 \<le> mqueued m a \<and> (mstates m a = Some Busy \<longrightarrow> 0 < mactive m a) \<and>
    distinct (map dAlias (displaced m t)) \<and>
    sorted_wrt (\<lambda>x y. dPriority x \<le> dPriority y) (displaced m t)"
proof -
  have ok: "mgr_ok m" by (rule mgr_reach_ok [OF assms])
  note D = mgr_okD [OF ok]
  have "sorted_wrt (\<lambda>x y. dPriority x \<le> dPriority y) (displaced m t)"
    using D(4) [of t] unfolding displaced_ok_def
    by (auto intro: sorted_wrt_mono_rel [rotated] simp: displacedLess_def split: if_splits)
  then show ?thesis using D [of a] D(4) [of t] by (simp add: displaced_ok_def)
qed

theorem manager_invariant_witness:
  "0 \<le> mactive (interfere (ConcAcquire ''main'') simManager) ''main''"
proof -
  have "mgr_reach simClient simManager" by (simp add: simManager_def mgr_reach.new)
  then have "mgr_reach simClient (manage simClient (EvConcurrent (ConcAcquire ''main'')) simManager)"
    by (rule mgr_reach.event) simp
  from manager_invariant [OF this] show ?thesis by simp
qed

lemma loadLocked_success:
  assumes "loadLocked cl a b m = (None, m')" "mgr_ok m"
  shows "serving m' a"
proof -
  obtain m1 where 1: "reconcileLocked cl False m = (None, m1)"
    using assms(1) by (auto simp: loadLocked_def split: prod.splits option.splits)
  have m1: "mgr_ok (gap cl m1)" using inv.gap [OF inv.keep_reconcile [OF 1 assms(2)]] .
  show ?thesis
  proof (cases "MState a (gap cl m1) = Some Ready")
    case True
    then show ?thesis using assms(1) 1 by (auto simp: loadLocked_def Let_def serving_def MState_def)
  next
    case False
    let ?t = "setTransition a ''loading'' (gap cl (gap cl m1))"
    obtain m2 where 2: "call cl (clLoad cl (ProviderModel b) (pinFor b)) ?t = (None, m2)"
      using assms(1) 1 False by (auto simp: loadLocked_def Let_def split: prod.splits option.splits if_splits)
    have m2: "mgr_ok m2" using inv.keep_call [OF 2 inv.keep_setTransition [OF inv.gap [OF m1]]] .
    obtain m3 where 3: "reconcileLocked cl False m2 = (None, m3)"
      using assms(1) 1 2 False by (auto simp: loadLocked_def Let_def split: prod.splits option.splits if_splits)
    have m3: "mgr_ok (gap cl m3)" using inv.gap [OF inv.keep_reconcile [OF 3 m2]] .
    have end_: "MState a (gap cl m3) = Some Ready" "mstates m' = mstates (gap cl (gap cl m3))"
      using assms(1) 1 2 3 False
      by (auto simp: loadLocked_def Let_def split: if_splits)
    have "serving (gap cl (gap cl m3)) a"
      using rely_serving [OF conjunct2 [OF gap_ok [OF m3]]] end_(1) by (simp add: serving_def MState_def)
    then show ?thesis using end_(2) by (simp add: serving_def)
  qed
qed

lemma Load_serving:
  assumes "Load cl a m = (None, m')" "mgr_ok m"
  shows "serving m' a"
proof -
  obtain b m1 where b: "Binding a m = Some b"
    and l: "loadLocked cl a b (gap cl (loadArrives a m)) = (None, m1)" and m': "m' = loadLeaves a (gap cl m1)"
    using assms(1) by (auto simp: Load_def split: option.splits prod.splits)
  have start: "mgr_ok (gap cl (loadArrives a m))" using inv.gap loadArrives_ok assms(2) by blast
  have m1: "mgr_ok m1" by (rule inv.keep_loadLocked [OF l start])
  have "serving m1 a" using loadLocked_success [OF l start] .
  then show ?thesis
    using rely_serving [OF conjunct2 [OF gap_ok [OF m1]], of cl a] m' loadLeaves_ok [OF inv.gap [OF m1]] rely_serving
    by blast
qed

text \<open>A load that reports success leaves the model ready or busy, although leases, other loads
  and swaps may interleave at every point where the manager's lock is free.\<close>

theorem Load_success_serves:
  assumes "Load cl a m = (None, m')" "mgr_ok m"
  shows "mstates m' a = Some Ready \<or> mstates m' a = Some Busy"
  using Load_serving [OF assms] by (simp add: serving_def)

theorem Load_success_serves_witness:
  "mstates (snd (Load simClient ''main'' simManager)) ''main'' = Some Ready \<or>
   mstates (snd (Load simClient ''main'' simManager)) ''main'' = Some Busy"
proof (rule Load_success_serves)
  have "fst (Load simClient ''main'' simManager) = None" by code_simp
  then show "Load simClient ''main'' simManager = (None, snd (Load simClient ''main'' simManager))"
    by (metis prod.collapse)
  show "mgr_ok simManager" unfolding simManager_def by (rule newManager_ok)
qed

text \<open>A full displacement is undone when the transient model falls idle: the preferred model is
  loaded again and pinned, the transient one is gone, and nothing is left to restore.\<close>

theorem restoration_cycle:
  "(let m = manageAll (displacement @ [EvTimer ''side'']) simManager in
    (held (mworld m), mstates m ''main'', mstates m ''side'', displaced m ''side'', transitions m ''side'')) =
   ([(''M'', True)], Some Ready, Some Unloaded, [], None)"
  by (simp add: sim_defs cong: let_weak_cong)

text \<open>Restoration always asks the provider to unload the transient model, also when it has just
  seen that the model is not loaded, because it overwrites the observed state before testing
  it: if the idle transient model is unloaded by hand before its timer fires, a provider that
  rejects the second unload leaves it failed and the preferred model is not restored.\<close>

theorem restoration_unloads_twice:
  "(let m = manageAll (displacement @ [EvUnloadModel ''side'', EvTimer ''side'']) simManager in
    (held (mworld m), drop 3 (requests (mworld m)), mstates m ''main'', mstates m ''side'')) =
   ([], [''unload S'', ''unload S''], Some Unloaded, Some Failed)"
  by (simp add: sim_defs cong: let_weak_cong)

end
