(* ===== verification/Go_Std.thy ===== *)
theory Go_Std
  imports Config_Types
begin

text \<open>
  What the configuration code uses of Go and its library: errors returned as values, loops that
  stop at the first error, \<^verbatim>\<open>strings.TrimSpace\<close> and its companions on byte strings, and the
  loops that drop what has been seen before. A function of type \<^verbatim>\<open>error\<close> returns an option
  (\<open>None\<close> is \<^verbatim>\<open>nil\<close>); one that also returns a value returns a sum with the error on the left.
\<close>

section \<open>Errors as values\<close>

definition bindE :: "'e + 'a \<Rightarrow> ('a \<Rightarrow> 'e + 'b) \<Rightarrow> 'e + 'b" where
  "bindE r f = (case r of Inl e \<Rightarrow> Inl e | Inr a \<Rightarrow> f a)"

text \<open>\<^verbatim>\<open>if err := check; err != nil { return err }\<close>, and then the rest.\<close>

definition unless :: "'e option \<Rightarrow> 'e + 'a \<Rightarrow> 'e + 'a" where
  "unless err r = (case err of Some e \<Rightarrow> Inl e | None \<Rightarrow> r)"

text \<open>A sequence of guards, each with the error it returns.\<close>

fun checks :: "(bool \<times> 'e) list \<Rightarrow> 'e option" where
  "checks [] = None"
| "checks ((bad, e) # cs) = (if bad then Some e else checks cs)"

text \<open>A loop whose body only checks, and a loop that carries a state.\<close>

fun firstErr :: "('a \<Rightarrow> 'e option) \<Rightarrow> 'a list \<Rightarrow> 'e option" where
  "firstErr f [] = None"
| "firstErr f (x # xs) = (case f x of Some e \<Rightarrow> Some e | None \<Rightarrow> firstErr f xs)"

fun foldE :: "('a \<Rightarrow> 's \<Rightarrow> 'e + 's) \<Rightarrow> 'a list \<Rightarrow> 's \<Rightarrow> 'e + 's" where
  "foldE f [] s = Inr s"
| "foldE f (x # xs) s = bindE (f x s) (foldE f xs)"

declare checks.simps(2) [simp del]

lemma bindE_Inr [simp]: "bindE r f = Inr b \<longleftrightarrow> (\<exists>a. r = Inr a \<and> f a = Inr b)"
  by (auto simp: bindE_def split: sum.splits)

lemma unless_Inr [simp]: "unless err r = Inr b \<longleftrightarrow> err = None \<and> r = Inr b"
  by (auto simp: unless_def split: option.splits)

lemma checks_None [simp]: "checks cs = None \<longleftrightarrow> (\<forall>c\<in>set cs. \<not> fst c)"
  by (induction cs rule: checks.induct) (auto simp: checks.simps(2))

lemma firstErr_None [simp]: "firstErr f xs = None \<longleftrightarrow> (\<forall>x\<in>set xs. f x = None)"
  by (induction xs) (auto split: option.splits)

lemma foldE_inv:
  assumes "foldE f xs s = Inr t" "P s"
    and "\<And>x s t. x \<in> set xs \<Longrightarrow> P s \<Longrightarrow> f x s = Inr t \<Longrightarrow> P t"
  shows "P t"
  using assms
proof (induction xs arbitrary: s)
  case (Cons x xs)
  from Cons.prems(1) obtain u where u: "f x s = Inr u" "foldE f xs u = Inr t" by auto
  with Cons.prems(2,3) have "P u" by (meson list.set_intros(1))
  with u(2) show ?case using Cons.IH Cons.prems(3) by (meson list.set_intros(2))
qed simp

text \<open>What one pass of the loop established for its element holds at the end when the later
  passes keep it; \<open>I\<close> is an invariant of all passes.\<close>

lemma foldE_each:
  assumes "foldE f xs s = Inr t" "x \<in> set xs" "I s"
    and I: "\<And>y s t. y \<in> set xs \<Longrightarrow> I s \<Longrightarrow> f y s = Inr t \<Longrightarrow> I t"
    and est: "\<And>s t. I s \<Longrightarrow> f x s = Inr t \<Longrightarrow> Q t"
    and keep: "\<And>y s t. y \<in> set xs \<Longrightarrow> I s \<Longrightarrow> Q s \<Longrightarrow> f y s = Inr t \<Longrightarrow> Q t"
  shows "Q t"
proof -
  obtain ys zs where xs: "xs = ys @ x # zs" using assms(2) by (meson split_list)
  have split: "foldE f (as @ bs) s = bindE (foldE f as s) (foldE f bs)" for as bs and s
    by (induction as arbitrary: s) (auto simp: bindE_def split: sum.splits)
  from assms(1) obtain u v where u: "foldE f ys s = Inr u" "f x u = Inr v" "foldE f zs v = Inr t"
    by (auto simp: xs split)
  have "I u"
  proof (rule foldE_inv [OF u(1), where P = I])
    show "I b" if "y \<in> set ys" "I a" "f y a = Inr b" for y a b using that I [of y a b] xs by simp
  qed (rule assms(3))
  have "I v \<and> Q v" using I [OF _ \<open>I u\<close> u(2)] est [OF \<open>I u\<close> u(2)] xs by simp
  have "I t \<and> Q t"
  proof (rule foldE_inv [OF u(3), where P = "\<lambda>s. I s \<and> Q s"])
    show "I v \<and> Q v" by fact
    show "I b \<and> Q b" if "y \<in> set zs" "I a \<and> Q a" "f y a = Inr b" for y a b
      using that I [of y a b] keep [of y a b] xs by simp
  qed
  then show ?thesis ..
qed

section \<open>Strings\<close>

text \<open>
  The white space of \<^verbatim>\<open>unicode.IsSpace\<close> in UTF-8. \<^verbatim>\<open>TrimSpace\<close> removes it from both ends; on a
  byte string a trailing encoded space is a suffix, whatever precedes it.
\<close>

definition spaceRunes :: "string list" where
  "spaceRunes = [
    [CHR 0x09], [CHR 0x0A], [CHR 0x0B], [CHR 0x0C], [CHR 0x0D], [CHR 0x20],
    [CHR 0xC2, CHR 0x85], [CHR 0xC2, CHR 0xA0], [CHR 0xE1, CHR 0x9A, CHR 0x80],
    [CHR 0xE2, CHR 0x80, CHR 0x80], [CHR 0xE2, CHR 0x80, CHR 0x81],
    [CHR 0xE2, CHR 0x80, CHR 0x82], [CHR 0xE2, CHR 0x80, CHR 0x83],
    [CHR 0xE2, CHR 0x80, CHR 0x84], [CHR 0xE2, CHR 0x80, CHR 0x85],
    [CHR 0xE2, CHR 0x80, CHR 0x86], [CHR 0xE2, CHR 0x80, CHR 0x87],
    [CHR 0xE2, CHR 0x80, CHR 0x88], [CHR 0xE2, CHR 0x80, CHR 0x89],
    [CHR 0xE2, CHR 0x80, CHR 0x8A], [CHR 0xE2, CHR 0x80, CHR 0xA8],
    [CHR 0xE2, CHR 0x80, CHR 0xA9], [CHR 0xE2, CHR 0x80, CHR 0xAF],
    [CHR 0xE2, CHR 0x81, CHR 0x9F], [CHR 0xE3, CHR 0x80, CHR 0x80]]"

fun hasPrefix :: "string \<Rightarrow> string \<Rightarrow> bool" where
  "hasPrefix s [] = True"
| "hasPrefix [] (p # ps) = False"
| "hasPrefix (c # cs) (p # ps) = (c = p \<and> hasPrefix cs ps)"

lemma hasPrefix_iff: "hasPrefix s p \<longleftrightarrow> take (length p) s = p"
  by (induction s p rule: hasPrefix.induct) auto

function trimFront :: "string list \<Rightarrow> string \<Rightarrow> string" where
  "trimFront cuts s =
     (case List.find (\<lambda>p. p \<noteq> [] \<and> hasPrefix s p) cuts of
        None \<Rightarrow> s | Some p \<Rightarrow> trimFront cuts (drop (length p) s))"
  by auto
termination
proof (relation "measure (length \<circ> snd)")
  fix cuts s p
  assume "List.find (\<lambda>p. p \<noteq> [] \<and> hasPrefix s p) cuts = Some p"
  then have "p \<noteq> []" "take (length p) s = p" by (auto simp: find_Some_iff hasPrefix_iff)
  then have "s \<noteq> []" by auto
  with \<open>p \<noteq> []\<close> show "((cuts, drop (length p) s), cuts, s) \<in> measure (length \<circ> snd)" by simp
qed simp

declare trimFront.simps [simp del]

definition trimSpace :: "string \<Rightarrow> string" where
  "trimSpace s = rev (trimFront (map rev spaceRunes) (rev (trimFront spaceRunes s)))"

text \<open>\<^verbatim>\<open>strings.TrimRight\<close> with a cut set of one byte.\<close>

definition TrimRight :: "string \<Rightarrow> char \<Rightarrow> string" where
  "TrimRight s c = rev (dropWhile (\<lambda>d. d = c) (rev s))"

text \<open>\<^verbatim>\<open>strings.ToLower\<close> on the ASCII letters.\<close>

definition lowerChar :: "char \<Rightarrow> char" where
  "lowerChar c = (if CHR ''A'' \<le> c \<and> c \<le> CHR ''Z'' then char_of (of_char c + 32 :: nat) else c)"

definition ToLower :: "string \<Rightarrow> string" where
  "ToLower = map lowerChar"

lemma trimFront_fixed: "List.find (\<lambda>p. p \<noteq> [] \<and> hasPrefix (trimFront cuts s) p) cuts = None"
proof (induction cuts s rule: trimFront.induct)
  case (1 cuts s)
  show ?case
  proof (cases "List.find (\<lambda>p. p \<noteq> [] \<and> hasPrefix s p) cuts")
    case None
    then show ?thesis by (subst trimFront.simps) simp
  next
    case (Some p)
    then show ?thesis using 1 [OF Some] by (subst trimFront.simps) simp
  qed
qed

lemma trimFront_idem [simp]: "trimFront cuts (trimFront cuts s) = trimFront cuts s"
  by (subst (1) trimFront.simps) (simp add: trimFront_fixed)

lemma TrimRight_last: "TrimRight s c \<noteq> [] \<Longrightarrow> last (TrimRight s c) \<noteq> c"
  using hd_dropWhile [of "\<lambda>d. d = c" "rev s"] by (simp add: TrimRight_def last_rev)

section \<open>Dropping what has been seen\<close>

fun unseen :: "'a list \<Rightarrow> 'a list \<Rightarrow> 'a list" where
  "unseen seen [] = []"
| "unseen seen (x # xs) = (if x \<in> set seen then unseen seen xs else x # unseen (x # seen) xs)"

lemma set_unseen [simp]: "set (unseen seen xs) = set xs - set seen"
  by (induction seen xs rule: unseen.induct) auto

lemma distinct_unseen [simp]: "distinct (unseen seen xs)"
  by (induction seen xs rule: unseen.induct) auto

section \<open>Sorted keys\<close>

text \<open>\<^verbatim>\<open>sort.Strings\<close> of the keys of a map: the loops that need a fixed order use it.\<close>

definition sortedKeys :: "(string \<times> 'v) list \<Rightarrow> string list" where
  "sortedKeys m = sort (map fst m)"

lemma set_sortedKeys [simp]: "set (sortedKeys m) = fst ` set m"
  by (simp add: sortedKeys_def)

text \<open>A map the code looks a key up in.\<close>

definition hasKey :: "string \<Rightarrow> (string \<times> 'v) list \<Rightarrow> bool" where
  "hasKey k m \<longleftrightarrow> map_of m k \<noteq> None"

lemma hasKey_iff: "hasKey k m \<longleftrightarrow> k \<in> fst ` set m"
  unfolding hasKey_def by (metis map_of_eq_None_iff)

end
