(* ===== verification/Config_Data.thy ===== *)
theory Config_Data
  imports Go_Std Matrix_Program
begin

text \<open>
  The decoded configuration of \<^verbatim>\<open>internal/config\<close> (\<^verbatim>\<open>config.go\<close>, \<^verbatim>\<open>provider.go\<close>, \<^verbatim>\<open>peer.go\<close>,
  \<^verbatim>\<open>selectors.go\<close>, \<^verbatim>\<open>matrix.go\<close>), the errors its loader returns and the name lookups every
  component uses. Maps the loader iterates over are association lists; \<open>aliases\<close> is only looked
  up. Durations are in nanoseconds. Of the settings only what the modelled code reads is kept.
\<close>

section \<open>Records\<close>

record SetEntry =
  entryName :: string
  entryDSL :: string

record MatrixConfig =
  Var :: "(string \<times> string) list"
  EvictCosts :: "(string \<times> int) list"
  Sets :: "SetEntry list"
  compiled :: "Program option"

record ProviderConfig =
  ProviderType :: string
  BaseURL :: string
  APIKeyEnv :: string
  AdminAPIKeyEnv :: string
  ManagementTimeout :: int
  ColdStartTimeout :: int
  DiscoveryInterval :: int
  ResolvedAPIKey :: string
  ResolvedAdminAPIKey :: string

record PeerConfig =
  PeerModels :: "string list"

record SelectorConfig =
  Strategy :: string
  Targets :: "string list"
  Spillover :: int

record ProfileConfig =
  Pins :: "(string \<times> string) list"

record RoutingConfig =
  SchedulerUse :: string
  Priority :: "(string \<times> int) list"
  RouterUse :: string
  SettingsGroups :: "(string \<times> GroupConfig) list"
  SettingsMatrix :: "MatrixConfig option"

record Config =
  cHealthCheckTimeout :: int
  LogToStdout :: string
  StorePath :: "string option"
  SessionID :: "string list"
  Every :: int
  GlobalTTL :: int
  cUnloadTimeout :: int
  Models :: "(string \<times> ModelConfig) list"
  Providers :: "(string \<times> ProviderConfig) list"
  LifecyclePools :: "(string \<times> LifecyclePoolConfig) list"
  Profiles :: "(string \<times> ProfileConfig) list"
  Selectors :: "(string \<times> SelectorConfig) list"
  Routing :: RoutingConfig
  Groups :: "(string \<times> GroupConfig) list"
  Matrix :: "MatrixConfig option"
  aliases :: "string \<rightharpoonup> string"
  StartPort :: int
  Preload :: "string list"
  cSendLoadingState :: bool
  RequiredAPIKeys :: "string list"
  Peers :: "(string \<times> PeerConfig) list"
  IgnorePaths :: "string list"

text \<open>A group's zero value has no members; the pool an absent name reads is all zero.\<close>

definition zeroPool :: LifecyclePoolConfig where
  "zeroPool = \<lparr>poolProvider = [], Capacity = 0, RestorePreferred = False, TransientIdleTTL = 0,
     ResidentFirst = False, MaxResidentBurst = 0, MaxResidentWait = 0\<rparr>"

section \<open>Errors\<close>

text \<open>One constructor per message, grouped by the part of the configuration; the arguments are those
  of its \<^verbatim>\<open>fmt.Errorf\<close>.\<close>

datatype provider_error =
    EmptyProviderName | UnsupportedProviderType string string | BaseURLNotAbsolute string
  | UnsupportedScheme string string | BaseURLForbiddenParts string | ProviderTimeoutsNotPositive string
  | APIKeyEnvNotSet string string | AdminAPIKeyEnvNotSet string string
  | EmptyPoolName | PoolUnknownProvider string string | PoolsShareProvider string string string
  | PoolCapacity string | PoolNegativeBound string | PoolStarves string

datatype model_error =
    ModelNeedsProvider | ModelUnknownProvider string | ModelNeedsProviderModel
  | ModelUnknownPool string | PoolOfOtherProvider string string string
  | UnsupportedResidency string | ProviderModelWithCmd | SameProviderModel string string
  | InvalidTTL int | InvalidModelUnloadTimeout int
  | InvalidModality string string | NegativeContext
  | ParamKeyIsModel string | ParamKeyIsAlias string string | InvalidProxy

datatype matrix_error =
    MatrixNoSets | BadVarKey string | VarUnknownModel string string
  | NonPositiveCost string int | CostUnknownModel string | MatrixCompile compile_error

datatype routing_error =
    LegacyAndRouting | MatrixNotSet | UnknownRouter string | GroupsAndMatrix
  | DuplicateMember string string | MemberInGroups string string string
  | UnknownScheduler string | PriorityUnknownModel string

datatype peer_error =
    PeerAmbiguous string string string string string
  | ModelIsPeerFQN string | AliasOfModelIsPeerFQN string string | AliasIsPeerFQN string
  | SelectorIsPeerFQN string | PinIsPeerFQN string string

datatype selector_error =
    SelectorIsModel | SelectorIsAlias | StrategyRequired | UnknownStrategy string
  | SelectorNoTargets | SelectorChaining nat string | SelectorUnknownModel nat string
  | WarmTargetNotLocal nat | SpilloverNotPositive | SpilloverDuplicate string
  | SpilloverNoCommonSet | SpilloverNotInGroup string | SpilloverSwapGroup | SpilloverGroups

datatype config_error =
    PerformanceTooFrequent int
  | BadStartPort | BadGlobalTTL | BadUnloadTimeout
  | StoreError string
  | ProviderProblem provider_error
  | BadLogToStdout
  | DuplicateAlias string string
  | ModelProblem string model_error
  | PoolTooSmall string int int
  | RoutingProblem routing_error
  | MatrixProblem matrix_error
  | EmptyAPIKey | APIKeyWithSpace nat
  | PeerProblem peer_error
  | EmptySelectorName | SelectorProblem string selector_error
  | EmptyProfileName | ProfileNoPins string | EmptyPinName string | PinUnknownModel string string string

section \<open>Looking models up\<close>

definition RealModelName :: "Config \<Rightarrow> string \<Rightarrow> string option" where
  "RealModelName c search =
     (if hasKey search (Models c) then Some search
      else case aliases c search of Some name \<Rightarrow> Some name | None \<Rightarrow> None)"

definition FindConfig :: "Config \<Rightarrow> string \<Rightarrow> (ModelConfig \<times> string) option" where
  "FindConfig c modelName =
     (case RealModelName c modelName of
        None \<Rightarrow> None
      | Some realName \<Rightarrow>
          Some (case map_of (Models c) realName of Some m \<Rightarrow> m | None \<Rightarrow> zeroModelConfig, realName))"

section \<open>Peers\<close>

definition PeerModelFQN :: "string \<Rightarrow> string \<Rightarrow> string" where
  "PeerModelFQN peerID modelID = peerID @ ''/'' @ modelID"

text \<open>The peer and model pairs the nested loops of \<^verbatim>\<open>ResolvePeerModel\<close> visit: each model of a
  peer once.\<close>

definition peerPairs :: "Config \<Rightarrow> (string \<times> string) list" where
  "peerPairs c = concat (map (\<lambda>(peerID, peer). map (Pair peerID) (unseen [] (PeerModels peer))) (Peers c))"

text \<open>One scan: a second match ends it without a result (\<open>None\<close>), otherwise it ends with the last
  match, if any.\<close>

fun scanPeers :: "(string \<times> string \<Rightarrow> bool) \<Rightarrow> (string \<times> string) list \<Rightarrow> (string \<times> string) option \<Rightarrow>
    (string \<times> string) option option" where
  "scanPeers matches [] found = Some found"
| "scanPeers matches (pm # rest) found =
     (if \<not> matches pm then scanPeers matches rest found
      else case found of
             Some other \<Rightarrow> if other \<noteq> pm then None else scanPeers matches rest (Some pm)
           | None \<Rightarrow> scanPeers matches rest (Some pm))"

definition ResolvePeerModel :: "Config \<Rightarrow> string \<Rightarrow> (string \<times> string) option" where
  "ResolvePeerModel c search =
     (case scanPeers (\<lambda>(peerID, model). PeerModelFQN peerID model = search) (peerPairs c) None of
        None \<Rightarrow> None
      | Some (Some pm) \<Rightarrow> Some pm
      | Some None \<Rightarrow>
          (case scanPeers (\<lambda>(peerID, model). model = search) (peerPairs c) None of
             None \<Rightarrow> None
           | Some found \<Rightarrow> found))"

definition ResolveBaseModel :: "Config \<Rightarrow> string \<Rightarrow> string option" where
  "ResolveBaseModel c search =
     (case RealModelName c search of
        Some realName \<Rightarrow> Some realName
      | None \<Rightarrow> (case ResolvePeerModel c search of Some _ \<Rightarrow> Some search | None \<Rightarrow> None))"

text \<open>A scan finds a pair exactly when it is the only one that matches.\<close>

lemma scanPeers_found:
  "scanPeers P pms found = Some (Some pm) \<longleftrightarrow>
     (\<forall>q\<in>set pms \<union> set_option found. (P q \<or> found = Some q) \<longrightarrow> q = pm) \<and>
     (found = Some pm \<or> pm \<in> set pms \<and> P pm)"
  by (induction P pms found rule: scanPeers.induct) (auto split: option.splits)

lemma scanPeers_nothing:
  "scanPeers P pms None = Some None \<longleftrightarrow> (\<forall>q\<in>set pms. \<not> P q)"
proof -
  have some: "scanPeers P qs (Some x) \<noteq> Some None" for qs x
    by (induction P qs "Some x" arbitrary: x rule: scanPeers.induct) auto
  show ?thesis by (induction pms) (simp_all add: some)
qed

lemma set_peerPairs: "(i, m) \<in> set (peerPairs c) \<longleftrightarrow> (\<exists>p. (i, p) \<in> set (Peers c) \<and> m \<in> set (PeerModels p))"
  by (auto simp: peerPairs_def)

lemma RealModelName_model: "hasKey m (Models c) \<Longrightarrow> RealModelName c m = Some m"
  by (simp add: RealModelName_def)

end
