(* ===== verification/Matrix_Config.thy ===== *)
theory Matrix_Config
  imports Config_Data Matrix_Props
begin

text \<open>
  \<^verbatim>\<open>internal/config/matrix.go\<close>: validation and compilation of the matrix block, and the eviction
  costs it resolves for the solver. \<open>Compile\<close> takes the iteration order of Go maps as its first
  argument, as in the matrix program itself.
\<close>

section \<open>Validation\<close>

text \<open>The regular expression \<^verbatim>\<open>^[a-zA-Z0-9.-]{1,32}$\<close>.\<close>

definition varKeyPattern :: "string \<Rightarrow> bool" where
  "varKeyPattern k \<longleftrightarrow> 1 \<le> length k \<and> length k \<le> 32 \<and>
     list_all (\<lambda>c. (CHR ''a'' \<le> c \<and> c \<le> CHR ''z'') \<or> (CHR ''A'' \<le> c \<and> c \<le> CHR ''Z'') \<or>
       (CHR ''0'' \<le> c \<and> c \<le> CHR ''9'') \<or> c = CHR ''.'' \<or> c = CHR ''-'') k"

definition resolveMatrixModel :: "string \<Rightarrow> (string \<times> string) list \<Rightarrow> (string \<times> ModelConfig) list \<Rightarrow> string option" where
  "resolveMatrixModel ident vars mods =
     (case map_of vars ident of
        Some modelName \<Rightarrow> Some modelName
      | None \<Rightarrow> if hasKey ident mods then Some ident else None)"

definition matrixDefinitions :: "MatrixConfig \<Rightarrow> Definition list" where
  "matrixDefinitions m = map (\<lambda>e. \<lparr>defName = entryName e, defDSL = entryDSL e\<rparr>) (Sets m)"

definition ValidateMatrix :: "(string list \<Rightarrow> string list) \<Rightarrow> MatrixConfig \<Rightarrow> (string \<times> ModelConfig) list \<Rightarrow>
    matrix_error + MatrixConfig" where
  "ValidateMatrix iter m mods =
     unless (checks [(Sets m = [], MatrixNoSets)])
    (unless (firstErr (\<lambda>(k, modelName). checks
               [(\<not> varKeyPattern k, BadVarKey k),
                (\<not> hasKey modelName mods, VarUnknownModel k modelName)]) (Var m))
    (unless (firstErr (\<lambda>(key, cost). checks
               [(cost \<le> 0, NonPositiveCost key cost),
                (resolveMatrixModel key (Var m) mods = None, CostUnknownModel key)]) (EvictCosts m))
    (case Compile iter (matrixDefinitions m) (\<lambda>ident. resolveMatrixModel ident (Var m) mods) of
       Inl e \<Rightarrow> Inl (MatrixCompile e)
     | Inr p \<Rightarrow> Inr (m\<lparr>compiled := Some p\<rparr>))))"

definition addCost :: "(string \<times> string) list \<Rightarrow> string \<times> int \<Rightarrow> (string \<rightharpoonup> int) \<Rightarrow> string \<rightharpoonup> int" where
  "addCost vars kc costs =
     (case kc of (key, cost) \<Rightarrow>
        (case map_of vars key of
           Some realName \<Rightarrow> costs(realName \<mapsto> cost)
         | None \<Rightarrow> costs(key \<mapsto> cost)))"

definition ResolvedEvictCosts :: "MatrixConfig \<Rightarrow> string \<rightharpoonup> int" where
  "ResolvedEvictCosts m = fold (addCost (Var m)) (EvictCosts m) Map.empty"

section \<open>What an accepted matrix guarantees\<close>

lemma ValidateMatrix_Inr:
  assumes "ValidateMatrix iter m mods = Inr m'"
  obtains p where "m' = m\<lparr>compiled := Some p\<rparr>"
    "Compile iter (matrixDefinitions m) (\<lambda>ident. resolveMatrixModel ident (Var m) mods) = Inr p"
    "\<forall>(k, c)\<in>set (EvictCosts m). 0 < c" "Sets m \<noteq> []" "\<forall>(k, n)\<in>set (Var m). hasKey n mods"
proof -
  from assms obtain p where p: "m' = m\<lparr>compiled := Some p\<rparr>"
    "Compile iter (matrixDefinitions m) (\<lambda>ident. resolveMatrixModel ident (Var m) mods) = Inr p"
    by (auto simp: ValidateMatrix_def split: sum.splits)
  moreover from assms have "\<forall>(k, c)\<in>set (EvictCosts m). 0 < c" "\<forall>(k, n)\<in>set (Var m). hasKey n mods"
    "Sets m \<noteq> []"
    by (force simp: ValidateMatrix_def split: sum.splits)+
  ultimately show thesis using that by blast
qed

lemma ResolvedEvictCosts_values:
  "ResolvedEvictCosts m n = Some c \<Longrightarrow> \<exists>k. (k, c) \<in> set (EvictCosts m)"
proof -
  have "fold (addCost vs) kcs costs n = Some c \<Longrightarrow> costs n = Some c \<or> (\<exists>k. (k, c) \<in> set kcs)"
    for vs kcs costs
    by (induction kcs arbitrary: costs) (force simp: addCost_def split: option.splits if_splits)+
  then show "ResolvedEvictCosts m n = Some c \<Longrightarrow> \<exists>k. (k, c) \<in> set (EvictCosts m)"
    unfolding ResolvedEvictCosts_def by fastforce
qed

lemma accepted_costs_positive:
  assumes "ValidateMatrix iter m mods = Inr m'"
  shows "1 \<le> evictionCost (ResolvedEvictCosts m') n"
proof -
  obtain p where p: "m' = m\<lparr>compiled := Some p\<rparr>" "\<forall>(k, c)\<in>set (EvictCosts m). 0 < c"
    using ValidateMatrix_Inr [OF assms] by metis
  show ?thesis
  proof (cases "ResolvedEvictCosts m' n")
    case (Some c)
    then obtain k where "(k, c) \<in> set (EvictCosts m)" using ResolvedEvictCosts_values [of m' n c] p(1) by auto
    with p(2) Some show ?thesis by (auto simp: evictionCost_def)
  qed (simp add: evictionCost_def)
qed

lemma matrix_decision:
  assumes "Compile iter defs resolve = Inr p" "\<forall>xs. set (iter xs) = set xs" "target \<notin> set running"
    "\<forall>m\<in>set running. 0 \<le> evictionCost costs m" "S \<in> combos p" "target \<in> S"
  defines "d \<equiv> Solve p target running costs"
  shows "TotalCost d \<le> lostCost costs running S \<and> TotalCost d = sum_list (map (evictionCost costs) (Evict d))"
proof -
  have ok: "program_ok p" using Compile_ok [OF assms(1)] assms(2) by blast
  from Solve_spec [OF ok assms(3) _ refl, of costs] assms(4-6) show ?thesis
    unfolding d_def combos_def lostCost_def by auto
qed

lemma positive_sum_zero:
  fixes f :: "'a \<Rightarrow> int"
  assumes "\<And>x. 1 \<le> f x"
  shows "sum_list (map f xs) = 0 \<longleftrightarrow> xs = []"
proof (cases xs)
  case (Cons y ys)
  have "0 \<le> sum_list (map f ys)" using assms order_trans [OF zero_le_one] by (fastforce intro: sum_list_nonneg)
  then show ?thesis using Cons assms [of y] by auto
qed simp


definition smallMatrix :: MatrixConfig where
  "smallMatrix = \<lparr>Var = [(''v'', ''a'')], EvictCosts = [(''a'', 2), (''v'', 5)],
     Sets = [\<lparr>entryName = ''s'', entryDSL = ''v & b''\<rparr>, \<lparr>entryName = ''t'', entryDSL = ''c''\<rparr>], compiled = None\<rparr>"

definition abc :: "(string \<times> ModelConfig) list" where
  "abc = [(''a'', zeroModelConfig), (''b'', zeroModelConfig), (''c'', zeroModelConfig)]"

lemma smallMatrix_accepted: "case ValidateMatrix id smallMatrix abc of Inl _ \<Rightarrow> False | Inr _ \<Rightarrow> True"
  by code_simp

lemma smallMatrix_combos:
  "case Compile id (matrixDefinitions smallMatrix) (\<lambda>i. resolveMatrixModel i (Var smallMatrix) abc) of
     Inl _ \<Rightarrow> False | Inr p \<Rightarrow> combos p = {{''a'', ''b''}, {''c''}}"
  unfolding combos_def by code_simp


section \<open>Costs named twice\<close>

text \<open>A model may be given a cost under its own name and under a variable; both are accepted,
  and the one the loop over the map meets last is used, so the resolved cost depends on the
  iteration order of a Go map.\<close>

theorem evict_costs_depend_on_map_order:
  "case (ValidateMatrix id smallMatrix abc, ValidateMatrix id (smallMatrix\<lparr>EvictCosts := rev (EvictCosts smallMatrix)\<rparr>) abc) of
     (Inr m, Inr m') \<Rightarrow> distinct (map fst (EvictCosts m)) \<and> set (EvictCosts m) = set (EvictCosts m') \<and>
       ResolvedEvictCosts m ''a'' = Some 5 \<and> ResolvedEvictCosts m' ''a'' = Some 2
   | _ \<Rightarrow> False"
  by code_simp

end
