(* ===== verification/Config_Load.thy ===== *)
theory Config_Load
  imports Matrix_Config
begin

text \<open>
  \<^verbatim>\<open>LoadConfigFromReader\<close> of \<^verbatim>\<open>internal/config/load.go\<close> from the decoded document to the
  normalised configuration, with \<^verbatim>\<open>AddDefaultGroupToConfig\<close> and the capability check: one
  definition per section of the function, composed in its order. YAML decoding and macro
  expansion come before and are not modelled. \<open>Env\<close> is what the loader asks of its surroundings:
  \<^verbatim>\<open>url.Parse\<close>, the process environment, the file system, and the order of map iterations.
\<close>

record URL =
  Scheme :: string
  Host :: string
  HasUser :: bool
  RawQuery :: string
  Fragment :: string

datatype file_status = FileMissing | StatFailed string | IsDirectory | IsFile

record Env =
  parseURL :: "string \<Rightarrow> URL option"
  Getenv :: "string \<Rightarrow> string"
  Stat :: "string \<Rightarrow> file_status"
  accessError :: "string \<Rightarrow> string option"
  Dir :: "string \<Rightarrow> string"
  mapOrder :: "string list \<Rightarrow> string list"

section \<open>Limits and defaults\<close>

definition second :: int where "second = 1000000000"

definition DEFAULT_UNLOAD_TIMEOUT :: int where "DEFAULT_UNLOAD_TIMEOUT = 10"
definition DEFAULT_GROUP_ID :: string where "DEFAULT_GROUP_ID = ''(default)''"
definition MODEL_CONFIG_DEFAULT_TTL :: int where "MODEL_CONFIG_DEFAULT_TTL = - 1"

definition DefaultUpstreamIgnorePaths :: "string list" where
  "DefaultUpstreamIgnorePaths = [''.*'' @ [CHR 0x5C] @ ''.(js|json|css|png|gif|jpg|jpeg|ico|txt)$'']"

text \<open>\<^verbatim>\<open>normalizeHeaderNames\<close>: the state is the result so far and the keys seen.\<close>

definition headerStep :: "string \<Rightarrow> string list \<times> string list \<Rightarrow> string list \<times> string list" where
  "headerStep rawName st =
     (case st of (normalized, seen) \<Rightarrow>
        let name = trimSpace rawName; key = ToLower name in
        if name = [] then st
        else if key \<in> set seen then st
        else (normalized @ [name], key # seen))"

definition normalizeHeaderNames :: "string list \<Rightarrow> string list" where
  "normalizeHeaderNames names = fst (fold headerStep names ([], []))"

text \<open>The POSIX variant.\<close>

definition validateStorePath :: "Env \<Rightarrow> string \<Rightarrow> string option" where
  "validateStorePath env path =
     (if trimSpace path = [] then Some ''store.path must not be empty''
      else case Stat env path of
             StatFailed e \<Rightarrow> Some (''store.path: '' @ e)
           | FileMissing \<Rightarrow>
               (case accessError env (Dir env path) of
                  Some e \<Rightarrow> Some (''store.path: directory '' @ Dir env path @ '' is not writable: '' @ e)
                | None \<Rightarrow> None)
           | IsDirectory \<Rightarrow> Some (''store.path: '' @ path @ '' is a directory, not a file'')
           | IsFile \<Rightarrow>
               (case accessError env path of
                  Some e \<Rightarrow> Some (''store.path: '' @ path @ '' is not writable: '' @ e)
                | None \<Rightarrow> None))"

definition PerformanceValidate :: "int \<Rightarrow> config_error option" where
  "PerformanceValidate every = (if every < 5 * second then Some (PerformanceTooFrequent every) else None)"

definition applyLimits :: "Env \<Rightarrow> Config \<Rightarrow> config_error + Config" where
  "applyLimits env c0 =
     (let c1 = (if cHealthCheckTimeout c0 < 15 then c0\<lparr>cHealthCheckTimeout := 15\<rparr> else c0);
          c = (if Every c1 = 0 then c1\<lparr>Every := 5 * second\<rparr> else c1) in
      unless (PerformanceValidate (Every c))
     (unless (checks [(StartPort c < 1, BadStartPort), (GlobalTTL c < 0, BadGlobalTTL),
                      (cUnloadTimeout c < 0, BadUnloadTimeout)])
     (let d = (if cUnloadTimeout c = 0 then c\<lparr>cUnloadTimeout := DEFAULT_UNLOAD_TIMEOUT\<rparr> else c);
          e = d\<lparr>SessionID := normalizeHeaderNames (SessionID d)\<rparr> in
      unless (case StorePath e of
                None \<Rightarrow> None | Some path \<Rightarrow> map_option StoreError (validateStorePath env path))
     (Inr e))))"

section \<open>Providers and pools\<close>

definition ProviderTypeLemonade :: string where "ProviderTypeLemonade = ''lemonade''"

definition checkProvider :: "Env \<Rightarrow> string \<Rightarrow> ProviderConfig \<Rightarrow> provider_error option" where
  "checkProvider env i p =
     (let u = parseURL env (BaseURL p) in
      checks
        [(trimSpace i = [], EmptyProviderName),
         (ProviderType p \<noteq> ProviderTypeLemonade, UnsupportedProviderType i (ProviderType p)),
         (u = None \<or> Scheme (the u) = [] \<or> Host (the u) = [], BaseURLNotAbsolute i),
         (Scheme (the u) \<noteq> ''http'' \<and> Scheme (the u) \<noteq> ''https'', UnsupportedScheme i (Scheme (the u))),
         (HasUser (the u) \<or> RawQuery (the u) \<noteq> [] \<or> Fragment (the u) \<noteq> [], BaseURLForbiddenParts i),
         (ManagementTimeout p \<le> 0 \<or> ColdStartTimeout p \<le> 0 \<or> DiscoveryInterval p \<le> 0,
          ProviderTimeoutsNotPositive i),
         (APIKeyEnv p \<noteq> [] \<and> Getenv env (APIKeyEnv p) = [], APIKeyEnvNotSet i (APIKeyEnv p)),
         (AdminAPIKeyEnv p \<noteq> [] \<and> Getenv env (AdminAPIKeyEnv p) = [], AdminAPIKeyEnvNotSet i (AdminAPIKeyEnv p))])"

definition resolveProvider :: "Env \<Rightarrow> ProviderConfig \<Rightarrow> ProviderConfig" where
  "resolveProvider env p =
     (let p1 = (if APIKeyEnv p \<noteq> [] then p\<lparr>ResolvedAPIKey := Getenv env (APIKeyEnv p)\<rparr> else p);
          p2 = (if AdminAPIKeyEnv p1 \<noteq> [] then p1\<lparr>ResolvedAdminAPIKey := Getenv env (AdminAPIKeyEnv p1)\<rparr> else p1) in
      p2\<lparr>BaseURL := TrimRight (BaseURL p2) (CHR ''/'')\<rparr>)"

text \<open>The pool loop carries \<^verbatim>\<open>providerPools\<close>, from provider to the pool that uses it.\<close>

definition checkPool :: "(string \<times> ProviderConfig) list \<Rightarrow> string \<times> LifecyclePoolConfig \<Rightarrow>
    (string \<rightharpoonup> string) \<Rightarrow> provider_error + (string \<rightharpoonup> string)" where
  "checkPool providers ip providerPools =
     (case ip of (i, pool) \<Rightarrow>
        unless (checks
          [(trimSpace i = [], EmptyPoolName),
           (\<not> hasKey (poolProvider pool) providers, PoolUnknownProvider i (poolProvider pool)),
           (providerPools (poolProvider pool) \<noteq> None,
            PoolsShareProvider (the (providerPools (poolProvider pool))) i (poolProvider pool)),
           (Capacity pool < 1, PoolCapacity i),
           (TransientIdleTTL pool < 0 \<or> MaxResidentWait pool < 0 \<or> MaxResidentBurst pool < 0, PoolNegativeBound i),
           (ResidentFirst pool \<and> MaxResidentWait pool = 0 \<and> MaxResidentBurst pool = 0, PoolStarves i)])
        (Inr (providerPools(poolProvider pool \<mapsto> i))))"

definition validateProviders :: "Env \<Rightarrow> Config \<Rightarrow> provider_error + Config" where
  "validateProviders env c =
     unless (firstErr (\<lambda>(i, p). checkProvider env i p) (Providers c))
     (let c' = c\<lparr>Providers := map (\<lambda>(i, p). (i, resolveProvider env p)) (Providers c)\<rparr> in
      bindE (foldE (checkPool (Providers c')) (LifecyclePools c') Map.empty) (\<lambda>_. Inr c'))"

definition logSettings :: "Config \<Rightarrow> config_error + Config" where
  "logSettings c =
     (let c' = (if IgnorePaths c = [] then c\<lparr>IgnorePaths := DefaultUpstreamIgnorePaths\<rparr> else c) in
      unless (checks [(LogToStdout c' \<notin> {''proxy'', ''upstream'', ''both'', ''none''}, BadLogToStdout)]) (Inr c'))"

section \<open>Aliases\<close>

definition addAlias :: "string \<Rightarrow> string \<Rightarrow> (string \<rightharpoonup> string) \<Rightarrow> config_error + (string \<rightharpoonup> string)" where
  "addAlias modelName alias al =
     (if al alias \<noteq> None then Inl (DuplicateAlias alias modelName) else Inr (al(alias \<mapsto> modelName)))"

definition populateAliases :: "Config \<Rightarrow> config_error + Config" where
  "populateAliases c =
     bindE (foldE (\<lambda>(modelName, m). foldE (addAlias modelName) (Aliases m)) (Models c) Map.empty)
       (\<lambda>al. Inr (c\<lparr>aliases := al\<rparr>))"

section \<open>Models\<close>

definition modelOf :: "Config \<Rightarrow> string \<Rightarrow> ModelConfig" where
  "modelOf c i = (case map_of (Models c) i of Some m \<Rightarrow> m | None \<Rightarrow> zeroModelConfig)"

definition CapabilitiesValidate :: "ModelCapConfig \<Rightarrow> model_error option" where
  "CapabilitiesValidate cap =
     (let bad = (\<lambda>ms. List.find (\<lambda>m. m \<notin> {''text'', ''audio'', ''image''}) ms) in
      checks [(bad (capIn cap) \<noteq> None, InvalidModality ''in'' (the (bad (capIn cap)))),
              (bad (capOut cap) \<noteq> None, InvalidModality ''out'' (the (bad (capOut cap)))),
              (Context cap < 0, NegativeContext)])"

text \<open>The loop at the end of \<^verbatim>\<open>normalizeProviderModel\<close> compares with the models as they are in the
  configuration.\<close>

definition normalizeProviderModel :: "Config \<Rightarrow> string \<Rightarrow> ModelConfig \<Rightarrow> model_error + ModelConfig" where
  "normalizeProviderModel c i m =
     (if Provider m = []
      then unless (checks [(ProviderModel m \<noteq> [] \<or> LifecyclePool m \<noteq> [] \<or> Residency m \<noteq> [], ModelNeedsProvider)])
             (Inr m)
      else
        let provider = map_of (Providers c) (Provider m); pool = map_of (LifecyclePools c) (LifecyclePool m) in
        unless (checks
          [(provider = None, ModelUnknownProvider (Provider m)),
           (ProviderModel m = [], ModelNeedsProviderModel),
           (pool = None, ModelUnknownPool (LifecyclePool m)),
           (poolProvider (the pool) \<noteq> Provider m,
            PoolOfOtherProvider (LifecyclePool m) (poolProvider (the pool)) (Provider m)),
           (Residency m \<noteq> [] \<and> Residency m \<notin> {ResidencyHardPinned, ResidencyPreferred, ResidencyTransient, ResidencyExternal},
            UnsupportedResidency (Residency m)),
           (Cmd m \<noteq> [] \<or> CmdStop m \<noteq> [], ProviderModelWithCmd)])
        (let m' = m\<lparr>Residency := (if Residency m = [] then ResidencyTransient else Residency m),
                    Proxy := BaseURL (the provider), CheckEndpoint := ''/api/v1/health'',
                    UseModelName := ProviderModel m\<rparr> in
         unless (firstErr (\<lambda>(otherID, other). checks
             [(otherID \<noteq> i \<and> Provider other = Provider m' \<and> ProviderModel other = ProviderModel m',
               SameProviderModel otherID (ProviderModel m'))]) (Models c))
         (Inr m')))"

definition registerParamKey :: "Config \<Rightarrow> string \<Rightarrow> string \<Rightarrow> (string \<rightharpoonup> string) \<times> ModelConfig \<Rightarrow>
    model_error + (string \<rightharpoonup> string) \<times> ModelConfig" where
  "registerParamKey c modelId key st =
     (case st of (al, m) \<Rightarrow>
        if key = modelId then Inr st
        else if hasKey key (Models c) then Inl (ParamKeyIsModel key)
        else case al key of
               Some existingModel \<Rightarrow>
                 if existingModel \<noteq> modelId then Inl (ParamKeyIsAlias key existingModel) else Inr st
             | None \<Rightarrow> Inr (al(key \<mapsto> modelId), m\<lparr>Aliases := Aliases m @ [key]\<rparr>))"

definition modelTimeouts :: "Config \<Rightarrow> ModelConfig \<Rightarrow> model_error + ModelConfig" where
  "modelTimeouts c m0 =
     (let m = (if UnloadAfter m0 = MODEL_CONFIG_DEFAULT_TTL then m0\<lparr>UnloadAfter := GlobalTTL c\<rparr> else m0) in
      unless (checks [(UnloadAfter m < 0, InvalidTTL (UnloadAfter m)),
                      (UnloadTimeout m < 0, InvalidModelUnloadTimeout (UnloadTimeout m))])
      (Inr (if UnloadTimeout m = 0 then m\<lparr>UnloadTimeout := cUnloadTimeout c\<rparr> else m)))"

definition normalizeModel :: "Env \<Rightarrow> string \<Rightarrow> Config \<Rightarrow> config_error + Config" where
  "normalizeModel env modelId c =
     (case
        bindE (normalizeProviderModel c modelId ((modelOf c modelId)\<lparr>HealthCheckTimeout := cHealthCheckTimeout c\<rparr>)) (\<lambda>m1.
        bindE (modelTimeouts c m1) (\<lambda>m2.
        unless (CapabilitiesValidate (Capabilities m2))
       (bindE (foldE (registerParamKey c modelId) (SetParamsByID m2) (aliases c, m2)) (\<lambda>(al, m3).
        unless (checks [(parseURL env (Proxy m3) = None, InvalidProxy)])
       (let m4 = (if SendLoadingState m3 = None then m3\<lparr>SendLoadingState := Some (cSendLoadingState c)\<rparr> else m3) in
        Inr (c\<lparr>aliases := al, Models := AList.update modelId m4 (Models c)\<rparr>))))))
      of Inl e \<Rightarrow> Inl (ModelProblem modelId e) | Inr c' \<Rightarrow> Inr c')"

definition normalizeModels :: "Env \<Rightarrow> Config \<Rightarrow> config_error + Config" where
  "normalizeModels env c = foldE (normalizeModel env) (sortedKeys (Models c)) c"

text \<open>\<^verbatim>\<open>desired\<close> counts the models that must stay resident, per pool.\<close>

definition staysResident :: "ModelConfig \<Rightarrow> bool" where
  "staysResident m \<longleftrightarrow> Provider m \<noteq> [] \<and> (Residency m = ResidencyHardPinned \<or> Residency m = ResidencyPreferred)"

definition desired :: "Config \<Rightarrow> counter" where
  "desired c = fold (\<lambda>(i, m) d. if staysResident m then bump (LifecyclePool m) 1 d else d) (Models c) (\<lambda>_. 0)"

definition validateLifecycleResidency :: "Config \<Rightarrow> config_error option" where
  "validateLifecycleResidency c =
     firstErr (\<lambda>poolName.
         let count = desired c poolName;
             capacity = Capacity (case map_of (LifecyclePools c) poolName of Some p \<Rightarrow> p | None \<Rightarrow> zeroPool) in
         checks [(count > capacity, PoolTooSmall poolName capacity count)])
       (unseen [] (map (LifecyclePool \<circ> snd) (filter (staysResident \<circ> snd) (Models c))))"

end
