(* ===== verification/Config_Routing.thy ===== *)
theory Config_Routing
  imports Config_Load
begin

text \<open>
  The second half of \<^verbatim>\<open>LoadConfigFromReader\<close>: routing (\<^verbatim>\<open>load.go\<close>, \<^verbatim>\<open>AddDefaultGroupToConfig\<close>),
  priorities, preloads, API keys, the namespaces of peers (\<^verbatim>\<open>peer.go\<close>), selectors
  (\<^verbatim>\<open>selectors.go\<close>) and profiles, and the composition of all sections.
\<close>

section \<open>Groups\<close>

definition inSomeGroup :: "(string \<times> GroupConfig) list \<Rightarrow> string \<Rightarrow> bool" where
  "inSomeGroup gs modelName \<longleftrightarrow> list_ex (\<lambda>(_, g). modelName \<in> set (Members g)) gs"

definition defaultMembers :: "Config \<Rightarrow> string list" where
  "defaultMembers c =
     sort (if Groups c = [] then map fst (Models c)
           else filter (\<lambda>modelName. \<not> inSomeGroup (Groups c) modelName) (map fst (Models c)))"

definition AddDefaultGroupToConfig :: "Config \<Rightarrow> Config" where
  "AddDefaultGroupToConfig c =
     c\<lparr>Groups := AList.update DEFAULT_GROUP_ID
        \<lparr>Swap = True, Exclusive = True, Persistent = False, Members = defaultMembers c\<rparr> (Groups c)\<rparr>"

text \<open>One pass of the member loop: \<^verbatim>\<open>prevSet\<close> and \<^verbatim>\<open>memberUsage\<close>.\<close>

definition checkMember :: "string \<Rightarrow> string \<Rightarrow> string list \<times> (string \<rightharpoonup> string) \<Rightarrow>
    routing_error + string list \<times> (string \<rightharpoonup> string)" where
  "checkMember groupID member st =
     (case st of (prevSet, memberUsage) \<Rightarrow>
        unless (checks
          [(member \<in> set prevSet, DuplicateMember member groupID),
           (memberUsage member \<noteq> None, MemberInGroups member (the (memberUsage member)) groupID)])
        (Inr (member # prevSet, memberUsage(member \<mapsto> groupID))))"

definition checkGroup :: "string \<times> GroupConfig \<Rightarrow> (string \<rightharpoonup> string) \<Rightarrow> routing_error + (string \<rightharpoonup> string)" where
  "checkGroup ig memberUsage =
     (case ig of (groupID, g) \<Rightarrow>
        bindE (foldE (checkMember groupID) (Members g) ([], memberUsage)) (\<lambda>(_, usage). Inr usage))"

section \<open>Routing\<close>

text \<open>The top-level keys and the routing block exclude each other; the chosen one is copied.\<close>

definition chooseRouter :: "Config \<Rightarrow> routing_error + Config" where
  "chooseRouter c =
     (let rtr = Routing c;
          hasTopLevel = (Matrix c \<noteq> None \<or> Groups c \<noteq> []);
          hasRouting = (RouterUse rtr \<noteq> [] \<or> SettingsMatrix rtr \<noteq> None \<or> SettingsGroups rtr \<noteq> []) in
      unless (checks [(hasTopLevel \<and> hasRouting, LegacyAndRouting)])
     (bindE
       (if hasTopLevel then Inr c
        else if RouterUse rtr = ''matrix''
        then unless (checks [(SettingsMatrix rtr = None, MatrixNotSet)]) (Inr (c\<lparr>Matrix := SettingsMatrix rtr\<rparr>))
        else if RouterUse rtr = ''group'' \<or> RouterUse rtr = [] then Inr (c\<lparr>Groups := SettingsGroups rtr\<rparr>)
        else Inl (UnknownRouter (RouterUse rtr)))
       (\<lambda>d. unless (checks [(Matrix d \<noteq> None \<and> Groups d \<noteq> [], GroupsAndMatrix)]) (Inr d))))"

definition validateRouter :: "Env \<Rightarrow> Config \<Rightarrow> config_error + Config" where
  "validateRouter env c =
     (case Matrix c of
        Some m \<Rightarrow>
          (case ValidateMatrix (mapOrder env) m (Models c) of
             Inl e \<Rightarrow> Inl (MatrixProblem e)
           | Inr m' \<Rightarrow> Inr (c\<lparr>Matrix := Some m'\<rparr>))
      | None \<Rightarrow>
          (let d = AddDefaultGroupToConfig c in
           case foldE checkGroup (Groups d) Map.empty of
             Inl e \<Rightarrow> Inl (RoutingProblem e)
           | Inr _ \<Rightarrow> Inr d))"

definition canonicalRouting :: "Config \<Rightarrow> routing_error + Config" where
  "canonicalRouting c =
     (let rtr = (Routing c)\<lparr>RouterUse := (if Matrix c \<noteq> None then ''matrix'' else ''group''),
                            SettingsMatrix := Matrix c, SettingsGroups := Groups c,
                            SchedulerUse := (if SchedulerUse (Routing c) = [] then ''fifo'' else SchedulerUse (Routing c))\<rparr>;
          d = c\<lparr>Routing := rtr\<rparr> in
      unless (checks [(SchedulerUse rtr \<noteq> ''fifo'', UnknownScheduler (SchedulerUse rtr))])
     (unless (firstErr (\<lambda>(modelID, _). checks [(RealModelName d modelID = None, PriorityUnknownModel modelID)]) (Priority rtr))
     (Inr d)))"

section \<open>Preloads and API keys\<close>

definition cleanPreload :: "Config \<Rightarrow> string list \<Rightarrow> string list" where
  "cleanPreload c ids =
     concat (map (\<lambda>raw. let modelID = trimSpace raw in
                    if modelID = [] then []
                    else case RealModelName c modelID of Some real \<Rightarrow> [real] | None \<Rightarrow> []) ids)"

definition preloadBefore :: "Config \<Rightarrow> string \<Rightarrow> string \<Rightarrow> bool" where
  "preloadBefore c i j =
     (let mi = modelOf c i; mj = modelOf c j in
      if ResidencyPriority mi \<noteq> ResidencyPriority mj then ResidencyPriority mi < ResidencyPriority mj
      else i < j)"

definition preferredModels :: "Config \<Rightarrow> string list" where
  "preferredModels c = sortBy (preloadBefore c) (map fst (filter (staysResident \<circ> snd) (Models c)))"

definition appendPreferredPreloads :: "Config \<Rightarrow> string list \<Rightarrow> string list" where
  "appendPreferredPreloads c current = current @ unseen current (preferredModels c)"

definition preloads :: "Config \<Rightarrow> Config" where
  "preloads c = c\<lparr>Preload := appendPreferredPreloads c (cleanPreload c (Preload c))\<rparr>"

definition checkAPIKeys :: "Config \<Rightarrow> config_error option" where
  "checkAPIKeys c =
     firstErr (\<lambda>(i, apikey). checks [(apikey = [], EmptyAPIKey), (CHR '' '' \<in> set apikey, APIKeyWithSpace i)])
       (enumerate 0 (RequiredAPIKeys c))"

section \<open>Peer names\<close>

text \<open>The name table \<^verbatim>\<open>fqnTargets\<close>, built peer by peer in the order of their IDs.\<close>

definition addFQN :: "string \<times> string \<Rightarrow> (string \<times> (string \<times> string)) list \<Rightarrow>
    peer_error + (string \<times> (string \<times> string)) list" where
  "addFQN pm targets =
     (case pm of (peerID, modelID) \<Rightarrow>
        let fqn = PeerModelFQN peerID modelID in
        case map_of targets fqn of
          Some (p, m) \<Rightarrow> Inl (PeerAmbiguous fqn p m peerID modelID)
        | None \<Rightarrow> Inr ((fqn, pm) # targets))"

definition sortedPairs :: "Config \<Rightarrow> (string \<times> string) list" where
  "sortedPairs c =
     concat (map (\<lambda>peerID. case map_of (Peers c) peerID of
                     None \<Rightarrow> [] | Some peer \<Rightarrow> map (Pair peerID) (unseen [] (PeerModels peer)))
              (sortedKeys (Peers c)))"

definition reservedName :: "Config \<Rightarrow> string \<Rightarrow> peer_error option" where
  "reservedName c fqn =
     (case checks [(hasKey fqn (Models c), ModelIsPeerFQN fqn)] of
        Some e \<Rightarrow> Some e
      | None \<Rightarrow>
     (case firstErr (\<lambda>(modelID, m). checks [(fqn \<in> set (Aliases m), AliasOfModelIsPeerFQN modelID fqn)]) (Models c) of
        Some e \<Rightarrow> Some e
      | None \<Rightarrow>
     (case checks [(aliases c fqn \<noteq> None, AliasIsPeerFQN fqn), (hasKey fqn (Selectors c), SelectorIsPeerFQN fqn)] of
        Some e \<Rightarrow> Some e
      | None \<Rightarrow>
          firstErr (\<lambda>(profileID, profile). checks [(hasKey fqn (Pins profile), PinIsPeerFQN profileID fqn)]) (Profiles c))))"

definition ValidatePeerNamespace :: "Config \<Rightarrow> peer_error option" where
  "ValidatePeerNamespace c =
     (case foldE addFQN (sortedPairs c) [] of
        Inl e \<Rightarrow> Some e
      | Inr fqnTargets \<Rightarrow> firstErr (reservedName c) (sortedKeys fqnTargets))"

section \<open>Selectors\<close>

text \<open>\<^verbatim>\<open>groupOf\<close> of \<^verbatim>\<open>validateSpilloverCoexistence\<close>; an absent model reads the empty name.\<close>

definition assignMembers :: "string \<times> GroupConfig \<Rightarrow> (string \<rightharpoonup> string) \<Rightarrow> (string \<rightharpoonup> string)" where
  "assignMembers ig t = (case ig of (groupID, g) \<Rightarrow> fold (\<lambda>member t. t(member \<mapsto> groupID)) (Members g) t)"

definition memberGroup :: "(string \<times> GroupConfig) list \<Rightarrow> string \<Rightarrow> string" where
  "memberGroup gs m =
     (case fold assignMembers gs Map.empty m of
        Some g \<Rightarrow> g | None \<Rightarrow> [])"

definition groupSwaps :: "(string \<times> GroupConfig) list \<Rightarrow> string \<Rightarrow> bool" where
  "groupSwaps gs groupID = (case map_of gs groupID of Some g \<Rightarrow> Swap g | None \<Rightarrow> False)"

definition validateSpilloverCoexistence :: "Config \<Rightarrow> string list \<Rightarrow> selector_error option" where
  "validateSpilloverCoexistence c targets =
     (if length targets \<le> 1 then None
      else if RouterUse (Routing c) = ''matrix''
      then (case SettingsMatrix (Routing c) of
              Some m \<Rightarrow> (case compiled m of
                          Some p \<Rightarrow> if CanContainAll p targets then None else Some SpilloverNoCommonSet
                        | None \<Rightarrow> Some SpilloverNoCommonSet)
            | None \<Rightarrow> Some SpilloverNoCommonSet)
      else
        let gs = SettingsGroups (Routing c); groupID = memberGroup gs (hd targets) in
        checks
          [(groupID = [], SpilloverNotInGroup (hd targets)),
           (groupSwaps gs groupID, SpilloverSwapGroup),
           (list_ex (\<lambda>target. memberGroup gs target \<noteq> groupID) (tl targets), SpilloverGroups)])"

definition checkTarget :: "Config \<Rightarrow> SelectorConfig \<Rightarrow> nat \<times> string \<Rightarrow> selector_error option" where
  "checkTarget c sel it =
     (case it of (i, target) \<Rightarrow>
        checks
          [(hasKey target (Selectors c), SelectorChaining i target),
           (ResolveBaseModel c target = None, SelectorUnknownModel i target),
           (Strategy sel = ''warm'' \<and> RealModelName c target = None, WarmTargetNotLocal i)])"

text \<open>\<^verbatim>\<open>resolvedTargets\<close> and \<^verbatim>\<open>localTargets\<close> of a spillover selector.\<close>

definition resolvedTarget :: "Config \<Rightarrow> string \<Rightarrow> string" where
  "resolvedTarget c target =
     (case RealModelName c target of
        Some realName \<Rightarrow> realName
      | None \<Rightarrow> (case ResolvePeerModel c target of
                   Some (peerID, modelID) \<Rightarrow> PeerModelFQN peerID modelID
                 | None \<Rightarrow> PeerModelFQN [] []))"

definition localTargets :: "Config \<Rightarrow> string list \<Rightarrow> string list" where
  "localTargets c targets =
     concat (map (\<lambda>target. case RealModelName c target of Some realName \<Rightarrow> [realName] | None \<Rightarrow> []) targets)"

fun firstDuplicate :: "string list \<Rightarrow> string list \<Rightarrow> string option" where
  "firstDuplicate seen [] = None"
| "firstDuplicate seen (t # ts) = (if t \<in> set seen then Some t else firstDuplicate (t # seen) ts)"

definition checkSpillover :: "Config \<Rightarrow> SelectorConfig \<Rightarrow> selector_error option" where
  "checkSpillover c sel =
     (let resolved = map (resolvedTarget c) (Targets sel) in
      case checks
        [(Spillover sel < 1, SpilloverNotPositive),
         (firstDuplicate [] resolved \<noteq> None, SpilloverDuplicate (the (firstDuplicate [] resolved)))] of
        Some e \<Rightarrow> Some e
      | None \<Rightarrow> validateSpilloverCoexistence c (localTargets c (Targets sel)))"

definition checkSelector :: "Config \<Rightarrow> string \<Rightarrow> SelectorConfig \<Rightarrow> selector_error option" where
  "checkSelector c selectorID sel =
     (case checks
        [(hasKey selectorID (Models c), SelectorIsModel),
         (aliases c selectorID \<noteq> None, SelectorIsAlias),
         (Strategy sel = [], StrategyRequired),
         (Strategy sel \<notin> {''pin'', ''warm'', ''spillover''}, UnknownStrategy (Strategy sel)),
         (Targets sel = [], SelectorNoTargets)] of
        Some e \<Rightarrow> Some e
      | None \<Rightarrow>
     (case firstErr (checkTarget c sel) (enumerate 0 (Targets sel)) of
        Some e \<Rightarrow> Some e
      | None \<Rightarrow> if Strategy sel \<noteq> ''spillover'' then None else checkSpillover c sel))"

definition validateSelectors :: "Config \<Rightarrow> config_error option" where
  "validateSelectors c =
     firstErr (\<lambda>(selectorID, sel).
       if trimSpace selectorID = [] then Some EmptySelectorName
       else map_option (SelectorProblem selectorID) (checkSelector c selectorID sel)) (Selectors c)"

section \<open>Profiles\<close>

definition validateProfiles :: "Config \<Rightarrow> config_error option" where
  "validateProfiles c =
     firstErr (\<lambda>(profileName, profile).
       case checks [(trimSpace profileName = [], EmptyProfileName), (Pins profile = [], ProfileNoPins profileName)] of
         Some e \<Rightarrow> Some e
       | None \<Rightarrow>
           firstErr (\<lambda>(pin, target). checks
             [(trimSpace pin = [], EmptyPinName profileName),
              (target \<noteq> [] \<and> ResolveBaseModel c target = None \<and> \<not> hasKey target (Selectors c),
               PinUnknownModel profileName pin target)]) (Pins profile)) (Profiles c)"

section \<open>The whole load\<close>

definition wrapE :: "('e \<Rightarrow> config_error) \<Rightarrow> 'e + 'a \<Rightarrow> config_error + 'a" where
  "wrapE f r = (case r of Inl e \<Rightarrow> Inl (f e) | Inr a \<Rightarrow> Inr a)"

definition loadModels :: "Env \<Rightarrow> Config \<Rightarrow> config_error + Config" where
  "loadModels env c0 =
     bindE (applyLimits env c0) (\<lambda>c1.
     bindE (wrapE ProviderProblem (validateProviders env c1)) (\<lambda>c2.
     bindE (logSettings c2) (\<lambda>c3.
     bindE (populateAliases c3) (\<lambda>c4.
     bindE (normalizeModels env c4) (\<lambda>c5.
     unless (validateLifecycleResidency c5) (Inr c5))))))"

definition loadRouting :: "Env \<Rightarrow> Config \<Rightarrow> config_error + Config" where
  "loadRouting env c5 =
     bindE (wrapE RoutingProblem (chooseRouter c5)) (\<lambda>c6.
     bindE (validateRouter env c6) (\<lambda>c7.
     wrapE RoutingProblem (canonicalRouting c7)))"

definition LoadConfig :: "Env \<Rightarrow> Config \<Rightarrow> config_error + Config" where
  "LoadConfig env c0 =
     bindE (loadModels env c0) (\<lambda>c5.
     bindE (loadRouting env c5) (\<lambda>c8.
     let c9 = preloads c8 in
     unless (checkAPIKeys c9)
    (unless (map_option PeerProblem (ValidatePeerNamespace c9))
    (unless (validateSelectors c9)
    (unless (validateProfiles c9) (Inr c9))))))"

end
