(* ===== verification/Config_Models.thy ===== *)
theory Config_Models
  imports Config_Routing
begin

text \<open>
  What the loader guarantees of the models, pools and aliases of an accepted configuration: each
  section of the loader has one lemma for what it establishes and what it leaves alone, and the
  properties chain them.
\<close>

section \<open>Sections\<close>

lemma applyLimits_Inr:
  assumes "applyLimits env c0 = Inr c"
  shows "0 < cUnloadTimeout c \<and> 0 \<le> GlobalTTL c \<and> 1 \<le> StartPort c \<and> 15 \<le> cHealthCheckTimeout c"
  using assms by (auto simp: applyLimits_def Let_def DEFAULT_UNLOAD_TIMEOUT_def split: if_splits)

lemma applyLimits_frame:
  "applyLimits env c0 = Inr c \<Longrightarrow> Models c = Models c0 \<and> Groups c = Groups c0 \<and> Routing c = Routing c0"
  by (auto simp: applyLimits_def Let_def split: if_splits)

definition pool_ok :: "Config \<Rightarrow> LifecyclePoolConfig \<Rightarrow> bool" where
  "pool_ok c pool \<longleftrightarrow> hasKey (poolProvider pool) (Providers c) \<and> 1 \<le> Capacity pool \<and>
     0 \<le> TransientIdleTTL pool \<and> 0 \<le> MaxResidentWait pool \<and> 0 \<le> MaxResidentBurst pool \<and>
     (ResidentFirst pool \<longrightarrow> 0 < MaxResidentWait pool \<or> 0 < MaxResidentBurst pool)"

lemma checkPools:
  assumes "foldE (checkPool ps) pools used = Inr used'"
  shows "(\<forall>(i, pool)\<in>set pools. hasKey (poolProvider pool) ps \<and> 1 \<le> Capacity pool \<and> 0 \<le> TransientIdleTTL pool \<and>
      0 \<le> MaxResidentWait pool \<and> 0 \<le> MaxResidentBurst pool \<and>
      (ResidentFirst pool \<longrightarrow> 0 < MaxResidentWait pool \<or> 0 < MaxResidentBurst pool)) \<and>
    distinct (map (poolProvider \<circ> snd) pools) \<and> (\<forall>(i, pool)\<in>set pools. used (poolProvider pool) = None)"
  using assms
proof (induction pools arbitrary: used)
  case (Cons ip pools)
  obtain i pool where [simp]: "ip = (i, pool)" by force
  from Cons.prems obtain u where head: "checkPool ps (i, pool) used = Inr u"
    and rest: "foldE (checkPool ps) pools u = Inr used'" by auto
  have u: "u = used(poolProvider pool \<mapsto> i)" using head by (auto simp: checkPool_def)
  note IH = Cons.IH [OF rest]
  have "q \<noteq> poolProvider pool \<and> used q = None" if "(j, p) \<in> set pools" "q = poolProvider p" for j p q
    using IH that by (fastforce simp: u split: if_splits)
  then have "poolProvider pool \<notin> set (map (poolProvider \<circ> snd) pools)"
    "\<forall>(j, p)\<in>set pools. used (poolProvider p) = None" by force+
  then show ?case using IH head by (auto simp: checkPool_def)
qed simp

lemma validateProviders_Inr:
  assumes "validateProviders env c0 = Inr c"
  shows "(\<forall>(i, pool)\<in>set (LifecyclePools c). pool_ok c pool) \<and>
    distinct (map (poolProvider \<circ> snd) (LifecyclePools c)) \<and>
    cUnloadTimeout c = cUnloadTimeout c0 \<and> Models c = Models c0 \<and> Groups c = Groups c0 \<and> Routing c = Routing c0"
proof -
  from assms obtain u where c: "c = c0\<lparr>Providers := map (\<lambda>(i, p). (i, resolveProvider env p)) (Providers c0)\<rparr>"
    and u: "foldE (checkPool (Providers c)) (LifecyclePools c) Map.empty = Inr u"
    by (auto simp: validateProviders_def Let_def)
  from checkPools [OF u] c show ?thesis by (auto simp: pool_ok_def)
qed

lemma logSettings_Inr:
  "logSettings c0 = Inr c \<Longrightarrow> Providers c = Providers c0 \<and> LifecyclePools c = LifecyclePools c0 \<and>
     cUnloadTimeout c = cUnloadTimeout c0 \<and> Models c = Models c0 \<and> Groups c = Groups c0 \<and> Routing c = Routing c0"
  by (auto simp: logSettings_def Let_def split: if_splits)

lemma populateAliases_Inr:
  "populateAliases c0 = Inr c \<Longrightarrow> \<exists>al. c = c0\<lparr>aliases := al\<rparr>"
  by (auto simp: populateAliases_def)

section \<open>One model\<close>

definition provider_ok :: "Config \<Rightarrow> ModelConfig \<Rightarrow> bool" where
  "provider_ok c m \<longleftrightarrow>
     (if Provider m = [] then ProviderModel m = [] \<and> LifecyclePool m = [] \<and> Residency m = []
      else ProviderModel m \<noteq> [] \<and> Cmd m = [] \<and> CmdStop m = [] \<and> UseModelName m = ProviderModel m \<and>
        Residency m \<in> {ResidencyHardPinned, ResidencyPreferred, ResidencyTransient, ResidencyExternal} \<and>
        (\<exists>p pool. map_of (Providers c) (Provider m) = Some p \<and> Proxy m = BaseURL p \<and>
           map_of (LifecyclePools c) (LifecyclePool m) = Some pool \<and> poolProvider pool = Provider m))"

definition model_ok :: "Config \<Rightarrow> ModelConfig \<Rightarrow> bool" where
  "model_ok c m \<longleftrightarrow> 0 \<le> UnloadAfter m \<and> 0 < UnloadTimeout m \<and> SendLoadingState m \<noteq> None \<and> provider_ok c m"

definition sameBackend :: "ModelConfig \<Rightarrow> ModelConfig \<Rightarrow> bool" where
  "sameBackend m n \<longleftrightarrow> Provider m \<noteq> [] \<and> Provider m = Provider n \<and> ProviderModel m = ProviderModel n"

text \<open>The fields the later steps of the loop write do not matter to it.\<close>

lemma provider_ok_updates [simp]:
  "provider_ok c (m\<lparr>UnloadAfter := a\<rparr>) = provider_ok c m" "provider_ok c (m\<lparr>UnloadTimeout := a\<rparr>) = provider_ok c m"
  "provider_ok c (m\<lparr>Aliases := as\<rparr>) = provider_ok c m" "provider_ok c (m\<lparr>SendLoadingState := b\<rparr>) = provider_ok c m"
  by (simp_all add: provider_ok_def)

lemma sameBackend_updates [simp]:
  "sameBackend (m\<lparr>UnloadAfter := a\<rparr>) n = sameBackend m n" "sameBackend (m\<lparr>UnloadTimeout := a\<rparr>) n = sameBackend m n"
  "sameBackend (m\<lparr>Aliases := as\<rparr>) n = sameBackend m n" "sameBackend (m\<lparr>SendLoadingState := b\<rparr>) n = sameBackend m n"
  by (simp_all add: sameBackend_def)

lemma normalizeProviderModel_Inr:
  assumes "normalizeProviderModel c i m = Inr m'"
  shows "provider_ok c m' \<and> (\<forall>(j, n)\<in>set (Models c). j \<noteq> i \<longrightarrow> \<not> sameBackend m' n) \<and>
    UnloadAfter m' = UnloadAfter m \<and> UnloadTimeout m' = UnloadTimeout m \<and>
    Provider m' = Provider m \<and> ProviderModel m' = ProviderModel m \<and> Aliases m' = Aliases m \<and>
    SetParamsByID m' = SetParamsByID m \<and> SendLoadingState m' = SendLoadingState m"
  using assms
  by (auto simp: normalizeProviderModel_def provider_ok_def sameBackend_def Let_def split: if_splits)

lemma modelTimeouts_Inr:
  assumes "modelTimeouts c m = Inr m'" "0 < cUnloadTimeout c"
  shows "0 \<le> UnloadAfter m' \<and> 0 < UnloadTimeout m' \<and>
    m' = m\<lparr>UnloadAfter := UnloadAfter m', UnloadTimeout := UnloadTimeout m'\<rparr>"
  using assms by (cases m) (auto simp: modelTimeouts_def Let_def split: if_splits)

section \<open>Aliases\<close>

definition alias_ok :: "Config \<Rightarrow> bool" where
  "alias_ok c \<longleftrightarrow> (\<forall>a i. aliases c a = Some i \<longrightarrow> hasKey i (Models c)) \<and>
     (\<forall>i m. map_of (Models c) i = Some m \<longrightarrow> (\<forall>a\<in>set (Aliases m). aliases c a = Some i))"

definition grows :: "('k \<rightharpoonup> 'v) \<Rightarrow> ('k \<rightharpoonup> 'v) \<Rightarrow> bool" where
  "grows t u \<longleftrightarrow> (\<forall>k v. t k = Some v \<longrightarrow> u k = Some v)"

lemma growsD: "grows t u \<Longrightarrow> t k = Some v \<Longrightarrow> u k = Some v"
  by (simp add: grows_def)

lemma addAliases:
  assumes "foldE (addAlias i) as al = Inr al'"
  shows "grows al al' \<and> (\<forall>a\<in>set as. al' a = Some i) \<and> (\<forall>a j. al' a = Some j \<longrightarrow> al a = Some j \<or> j = i)"
  using assms
proof (induction as arbitrary: al)
  case (Cons a as)
  from Cons.prems obtain u where u: "addAlias i a al = Inr u" "foldE (addAlias i) as u = Inr al'" by auto
  then have "al a = None" "u = al(a \<mapsto> i)" by (auto simp: addAlias_def split: if_splits)
  note IH = Cons.IH [OF u(2)]
  from \<open>al a = None\<close> \<open>u = al(a \<mapsto> i)\<close> have "u a = Some i" "grows al u"
    by (auto simp: grows_def)
  moreover have "al b = Some j \<or> j = i" if "u b = Some j" for b j
    using that \<open>u = al(a \<mapsto> i)\<close> by (auto split: if_splits)
  ultimately show ?case using IH by (simp add: grows_def) blast
qed (simp add: grows_def)

lemma populateAliases_ok:
  assumes "populateAliases c0 = Inr c"
  shows "alias_ok c"
proof -
  let ?f = "\<lambda>(modelName, m). foldE (addAlias modelName) (Aliases m)"
  from assms obtain al where al: "foldE ?f (Models c0) Map.empty = Inr al" and c: "c = c0\<lparr>aliases := al\<rparr>"
    by (auto simp: populateAliases_def)
  have step: "grows s t \<and> (\<forall>a\<in>set (Aliases m). t a = Some i) \<and> (\<forall>a j. t a = Some j \<longrightarrow> s a = Some j \<or> j = i)"
    if "?f (i, m) s = Inr t" for i m s t using addAliases that by auto
  have "\<forall>a i. al a = Some i \<longrightarrow> hasKey i (Models c0)"
  proof (rule foldE_inv [OF al])
    fix im s t assume "im \<in> set (Models c0)" "\<forall>a i. s a = Some i \<longrightarrow> hasKey i (Models c0)" "?f im s = Inr t"
    moreover obtain i m where "im = (i, m)" by force
    moreover have "hasKey i (Models c0)" if "(i, m) \<in> set (Models c0)" for i m
      using that by (force simp: hasKey_iff)
    ultimately show "\<forall>a i. t a = Some i \<longrightarrow> hasKey i (Models c0)" using step [of i m s t] by blast
  qed simp
  moreover have "al a = Some i" if "(i, m) \<in> set (Models c0)" "a \<in> set (Aliases m)" for i m a
  proof (rule foldE_each [OF al that(1), where I = "\<lambda>_. True"])
    show "t a = Some i" if "?f (i, m) s = Inr t" for s t using step [OF that] \<open>a \<in> set (Aliases m)\<close> by blast
    show "t a = Some i" if "s a = Some i" "?f y s = Inr t" for y s t
      using step [of "fst y" "snd y" s t] that by (auto simp: grows_def)
  qed simp_all
  ultimately show ?thesis by (auto simp: alias_ok_def c dest: map_of_SomeD)
qed

lemma registerParamKeys:
  assumes "foldE (registerParamKey c i) keys (al, m) = Inr (al', m')" "\<forall>a\<in>set (Aliases m). al a = Some i"
  shows "grows al al' \<and> (\<forall>a j. al' a = Some j \<longrightarrow> al a = Some j \<or> j = i) \<and>
    (\<forall>a\<in>set (Aliases m'). al' a = Some i) \<and> (\<exists>as. m' = m\<lparr>Aliases := as\<rparr>) \<and>
    (\<forall>k\<in>set keys. k = i \<or> \<not> hasKey k (Models c) \<and> al' k = Some i)"
  using assms
proof (induction keys arbitrary: al m)
  case (Cons k keys)
  obtain al1 m1 where u: "registerParamKey c i k (al, m) = Inr (al1, m1)"
    "foldE (registerParamKey c i) keys (al1, m1) = Inr (al', m')" using Cons.prems(1) by auto
  have s: "grows al al1" "\<forall>a j. al1 a = Some j \<longrightarrow> al a = Some j \<or> j = i" "\<forall>a\<in>set (Aliases m1). al1 a = Some i"
    "\<exists>as. m1 = m\<lparr>Aliases := as\<rparr>" "k = i \<or> \<not> hasKey k (Models c) \<and> al1 k = Some i"
    using u(1) Cons.prems(2)
    by (auto simp: registerParamKey_def grows_def split: if_splits option.splits intro: exI [of _ "Aliases m1"])
  note IH = Cons.IH [OF u(2) s(3)]
  have "\<exists>as. m' = m\<lparr>Aliases := as\<rparr>" using IH s(4) by fastforce
  moreover have "al1 k = Some i \<Longrightarrow> al' k = Some i" using IH by (simp add: grows_def)
  moreover have "grows al al'" using IH s(1) by (simp add: grows_def)
  moreover have "al' a = Some j \<Longrightarrow> al a = Some j \<or> j = i" for a j using IH s(2) by blast
  moreover from s(5) have "k = i \<or> \<not> hasKey k (Models c) \<and> al' k = Some i"
    using \<open>al1 k = Some i \<Longrightarrow> al' k = Some i\<close> by blast
  ultimately show ?case using IH by simp
qed (cases m', auto simp: grows_def)

section \<open>The model loop\<close>

lemma modelOf_key: "map_of (Models c) i = Some m \<Longrightarrow> modelOf c i = m"
  by (simp add: modelOf_def)

text \<open>What one pass does: it replaces the model and extends the aliases.\<close>

lemma normalizeModel_Inr:
  assumes "normalizeModel env i c = Inr c'" "0 < cUnloadTimeout c" "\<forall>a\<in>set (Aliases (modelOf c i)). aliases c a = Some i"
  obtains m al where "c' = c\<lparr>aliases := al, Models := AList.update i m (Models c)\<rparr>" "model_ok c m"
    "Provider m = Provider (modelOf c i)" "ProviderModel m = ProviderModel (modelOf c i)"
    "\<forall>(j, n)\<in>set (Models c). j \<noteq> i \<longrightarrow> \<not> sameBackend m n"
    "grows (aliases c) al" "\<forall>a j. al a = Some j \<longrightarrow> aliases c a = Some j \<or> j = i"
    "\<forall>a\<in>set (Aliases m). al a = Some i"
    "\<forall>k\<in>set (SetParamsByID m). k = i \<or> \<not> hasKey k (Models c) \<and> al k = Some i"
proof -
  let ?m0 = "(modelOf c i)\<lparr>HealthCheckTimeout := cHealthCheckTimeout c\<rparr>"
  from assms(1) obtain m1 m2 al m3 where
    m1: "normalizeProviderModel c i ?m0 = Inr m1" and m2: "modelTimeouts c m1 = Inr m2" and
    m3: "foldE (registerParamKey c i) (SetParamsByID m2) (aliases c, m2) = Inr (al, m3)" and
    c': "c' = c\<lparr>aliases := al, Models := AList.update i
        (if SendLoadingState m3 = None then m3\<lparr>SendLoadingState := Some (cSendLoadingState c)\<rparr> else m3) (Models c)\<rparr>"
    by (auto simp: normalizeModel_def Let_def split: sum.splits prod.splits)
  note p = normalizeProviderModel_Inr [OF m1]
  note t = modelTimeouts_Inr [OF m2 assms(2)]
  obtain a b where m2': "m2 = m1\<lparr>UnloadAfter := a, UnloadTimeout := b\<rparr>" "0 \<le> a" "0 < b"
    using t by blast
  have "\<forall>a\<in>set (Aliases m2). aliases c a = Some i" using p assms(3) m2'(1) by simp
  note r = registerParamKeys [OF m3 this]
  then obtain as where m3': "m3 = m2\<lparr>Aliases := as\<rparr>" by blast
  let ?m = "if SendLoadingState m3 = None then m3\<lparr>SendLoadingState := Some (cSendLoadingState c)\<rparr> else m3"
  show thesis
  proof (rule that [OF c'])
    show "model_ok c ?m" using p m2' by (simp add: m3' model_ok_def)
    show "\<forall>(j, n)\<in>set (Models c). j \<noteq> i \<longrightarrow> \<not> sameBackend ?m n"
      using p by (simp add: m3' m2'(1))
  qed (use p r m2' m3' in simp_all)
qed

definition loop_inv :: "string set \<Rightarrow> Config \<Rightarrow> bool" where
  "loop_inv K c \<longleftrightarrow> 0 < cUnloadTimeout c \<and> alias_ok c \<and> fst ` set (Models c) = K"

definition settled :: "string \<Rightarrow> Config \<Rightarrow> bool" where
  "settled i c \<longleftrightarrow> (\<exists>m. map_of (Models c) i = Some m \<and> model_ok c m \<and>
     (\<forall>j n. j \<noteq> i \<longrightarrow> map_of (Models c) j = Some n \<longrightarrow> \<not> sameBackend m n) \<and>
     (\<forall>k\<in>set (SetParamsByID m). k = i \<or> \<not> hasKey k (Models c) \<and> aliases c k = Some i))"

lemma model_ok_cong: "Providers c = Providers d \<Longrightarrow> LifecyclePools c = LifecyclePools d \<Longrightarrow> model_ok c m = model_ok d m"
  by (simp add: model_ok_def provider_ok_def)

lemma loop_inv_modelOf:
  assumes "loop_inv K c" "i \<in> K"
  shows "map_of (Models c) i = Some (modelOf c i)" "\<forall>a\<in>set (Aliases (modelOf c i)). aliases c a = Some i"
proof -
  have "hasKey i (Models c)" using assms by (simp add: hasKey_iff loop_inv_def)
  then show *: "map_of (Models c) i = Some (modelOf c i)" by (auto simp: hasKey_def modelOf_def)
  show "\<forall>a\<in>set (Aliases (modelOf c i)). aliases c a = Some i"
    using assms(1) * by (auto simp: loop_inv_def alias_ok_def)
qed

lemma loop_inv_step:
  assumes "loop_inv K c" "i \<in> K" "normalizeModel env i c = Inr c'"
  shows "loop_inv K c' \<and> settled i c' \<and> (\<forall>j. settled j c \<longrightarrow> settled j c') \<and>
    Providers c' = Providers c \<and> LifecyclePools c' = LifecyclePools c \<and> Groups c' = Groups c \<and> Routing c' = Routing c"
proof -
  note m0 = loop_inv_modelOf [OF assms(1,2)]
  have "0 < cUnloadTimeout c" using assms(1) by (simp add: loop_inv_def)
  from normalizeModel_Inr [OF assms(3) this m0(2)] obtain m al where
    c': "c' = c\<lparr>aliases := al, Models := AList.update i m (Models c)\<rparr>" and m: "model_ok c m"
    and same: "Provider m = Provider (modelOf c i)" "ProviderModel m = ProviderModel (modelOf c i)"
    and uniq: "\<forall>(j, n)\<in>set (Models c). j \<noteq> i \<longrightarrow> \<not> sameBackend m n"
    and al: "grows (aliases c) al" "\<forall>a j. al a = Some j \<longrightarrow> aliases c a = Some j \<or> j = i"
      "\<forall>a\<in>set (Aliases m). al a = Some i"
    and keys: "\<forall>k\<in>set (SetParamsByID m). k = i \<or> \<not> hasKey k (Models c) \<and> al k = Some i" .
  have mo: "map_of (Models c') = (map_of (Models c))(i \<mapsto> m)" by (simp add: c' update_conv')
  have ac: "aliases c' = al" by (simp add: c')
  have "fst ` set (Models c') = insert i (fst ` set (Models c))" by (simp add: c' dom_update)
  then have K: "fst ` set (Models c') = K" "fst ` set (Models c) = K"
    using assms(1,2) by (auto simp: loop_inv_def)
  then have hk: "hasKey k (Models c') = hasKey k (Models c)" for k by (simp add: hasKey_iff)
  have "alias_ok c'" unfolding alias_ok_def
  proof (intro conjI allI impI ballI)
    fix a j assume "aliases c' a = Some j"
    then show "hasKey j (Models c')"
    proof -
      from \<open>aliases c' a = Some j\<close> al(2) have "aliases c a = Some j \<or> j = i" by (simp add: c')
      then have "j \<in> K" using assms(1,2) K(2) by (auto simp: loop_inv_def alias_ok_def hasKey_iff)
      then show ?thesis by (simp add: hasKey_iff K(1))
    qed
  next
    fix j n a assume "map_of (Models c') j = Some n" "a \<in> set (Aliases n)"
    then show "aliases c' a = Some j"
      using al(1,3) assms(1) by (auto simp: mo ac loop_inv_def alias_ok_def grows_def split: if_splits)
  qed
  then have "loop_inv K c'" using assms(1) K by (simp add: loop_inv_def c')
  moreover have ok: "model_ok c' n = model_ok c n" for n by (rule model_ok_cong) (simp_all add: c')
  then have "settled i c'" unfolding settled_def mo using m uniq keys
    by (auto simp: hk) (auto simp: c' dest: map_of_SomeD)
  moreover have "settled j c'" if "settled j c" "j \<noteq> i" for j
  proof -
    obtain n where n: "map_of (Models c) j = Some n" "model_ok c n"
      "\<forall>k p. k \<noteq> j \<longrightarrow> map_of (Models c) k = Some p \<longrightarrow> \<not> sameBackend n p"
      "\<forall>k\<in>set (SetParamsByID n). k = j \<or> \<not> hasKey k (Models c) \<and> aliases c k = Some j"
      using \<open>settled j c\<close> by (auto simp: settled_def)
    have "\<not> sameBackend n m" using n(3) [rule_format, of i] m0(1) that(2) same by (auto simp: sameBackend_def)
    then have "\<not> sameBackend n p" if "k \<noteq> j" "map_of (Models c') k = Some p" for k p
      using that n(3) by (auto simp: mo split: if_splits)
    moreover have "\<forall>k\<in>set (SetParamsByID n). k = j \<or> \<not> hasKey k (Models c') \<and> aliases c' k = Some j"
      using n(4) al(1) by (auto simp: hk ac grows_def)
    ultimately show ?thesis unfolding settled_def using n(1,2) that(2) by (auto simp: mo ok)
  qed
  ultimately show ?thesis by (auto simp: c')
qed

lemma normalizeModels_Inr:
  assumes "normalizeModels env c = Inr c'" "alias_ok c" "0 < cUnloadTimeout c"
  shows "alias_ok c' \<and> (\<forall>i. hasKey i (Models c') \<longrightarrow> settled i c') \<and>
    Providers c' = Providers c \<and> LifecyclePools c' = LifecyclePools c \<and> Groups c' = Groups c \<and>
    Routing c' = Routing c \<and> fst ` set (Models c') = fst ` set (Models c)"
proof -
  let ?K = "fst ` set (Models c)"
  have run: "foldE (normalizeModel env) (sortedKeys (Models c)) c = Inr c'"
    using assms(1) by (simp add: normalizeModels_def)
  define I where "I d \<longleftrightarrow> loop_inv ?K d \<and> Providers d = Providers c \<and> LifecyclePools d = LifecyclePools c \<and>
    Groups d = Groups c \<and> Routing d = Routing c" for d
  have I0: "I c" using assms(2,3) by (simp add: I_def loop_inv_def)
  have step: "I t" if "y \<in> set (sortedKeys (Models c))" "I s" "normalizeModel env y s = Inr t" for y s t
    using that loop_inv_step [of ?K s y env t] by (simp add: I_def)
  have "I c'" by (rule foldE_inv [where P = I, OF run I0]) (rule step)
  moreover have "settled i c'" if "i \<in> ?K" for i
  proof (rule foldE_each [OF run, where I = I and x = i and Q = "settled i"])
    show "settled i t" if "I s" "normalizeModel env i s = Inr t" for s t
      using that \<open>i \<in> ?K\<close> loop_inv_step [of ?K s i env t] by (simp add: I_def)
    show "settled i t" if "y \<in> set (sortedKeys (Models c))" "I s" "settled i s" "normalizeModel env y s = Inr t" for y s t
      using that loop_inv_step [of ?K s y env t] by (simp add: I_def)
  qed (use that in simp, rule I0, rule step)
  ultimately show ?thesis by (auto simp: I_def loop_inv_def hasKey_iff)
qed

section \<open>From the sections to the load\<close>

lemma wrapE_Inr [simp]: "wrapE f r = Inr a \<longleftrightarrow> r = Inr a"
  by (auto simp: wrapE_def split: sum.splits)

lemma loadModels_Inr:
  assumes "loadModels env c0 = Inr c"
  shows "alias_ok c \<and> (\<forall>i. hasKey i (Models c) \<longrightarrow> settled i c) \<and>
    (\<forall>(i, pool)\<in>set (LifecyclePools c). pool_ok c pool) \<and> distinct (map (poolProvider \<circ> snd) (LifecyclePools c)) \<and>
    validateLifecycleResidency c = None \<and>
    Groups c = Groups c0 \<and> Routing c = Routing c0 \<and> fst ` set (Models c) = fst ` set (Models c0)"
proof -
  from assms obtain c1 c2 c3 c4 where c1: "applyLimits env c0 = Inr c1" and c2: "validateProviders env c1 = Inr c2"
    and c3: "logSettings c2 = Inr c3" and c4: "populateAliases c3 = Inr c4" and c: "normalizeModels env c4 = Inr c"
    and res: "validateLifecycleResidency c = None"
    by (auto simp: loadModels_def)
  obtain al where al: "c4 = c3\<lparr>aliases := al\<rparr>" using populateAliases_Inr [OF c4] by blast
  note v = validateProviders_Inr [OF c2] and l = logSettings_Inr [OF c3] and lim = applyLimits_Inr [OF c1]
  have "0 < cUnloadTimeout c4" using v l lim by (simp add: al)
  note n = normalizeModels_Inr [OF c populateAliases_ok [OF c4] this]
  have "pool_ok c pool = pool_ok c2 pool" for pool using n l by (simp add: pool_ok_def al)
  then show ?thesis using v l n res applyLimits_frame [OF c1] by (simp add: al)
qed

lemma chooseRouter_frame:
  assumes "chooseRouter c = Inr d"
  shows "Models d = Models c \<and> Providers d = Providers c \<and> LifecyclePools d = LifecyclePools c \<and>
    aliases d = aliases c \<and> Peers d = Peers c \<and> Selectors d = Selectors c \<and> Preload d = Preload c \<and>
    \<not> (Matrix d \<noteq> None \<and> Groups d \<noteq> [])"
  using assms by (auto simp: chooseRouter_def Let_def split: if_splits)

lemma validateRouter_frame:
  assumes "validateRouter env c = Inr d"
  shows "Models d = Models c \<and> Providers d = Providers c \<and> LifecyclePools d = LifecyclePools c \<and>
    aliases d = aliases c \<and> Peers d = Peers c \<and> Selectors d = Selectors c \<and> Preload d = Preload c"
  using assms by (auto simp: validateRouter_def AddDefaultGroupToConfig_def Let_def split: option.splits sum.splits)

lemma canonicalRouting_frame:
  assumes "canonicalRouting c = Inr d"
  shows "Models d = Models c \<and> Providers d = Providers c \<and> LifecyclePools d = LifecyclePools c \<and>
    aliases d = aliases c \<and> Peers d = Peers c \<and> Selectors d = Selectors c \<and> Preload d = Preload c \<and>
    SettingsMatrix (Routing d) = Matrix c \<and> SettingsGroups (Routing d) = Groups c \<and>
    RouterUse (Routing d) = (if Matrix c \<noteq> None then ''matrix'' else ''group'')"
  using assms by (auto simp: canonicalRouting_def Let_def)

lemma loadRouting_frame:
  assumes "loadRouting env c = Inr d"
  shows "Models d = Models c \<and> Providers d = Providers c \<and> LifecyclePools d = LifecyclePools c \<and>
    aliases d = aliases c \<and> Peers d = Peers c \<and> Selectors d = Selectors c \<and> Preload d = Preload c"
proof -
  obtain c6 c7 where "chooseRouter c = Inr c6" "validateRouter env c6 = Inr c7" "canonicalRouting c7 = Inr d"
    using assms by (auto simp: loadRouting_def)
  then show ?thesis using chooseRouter_frame validateRouter_frame canonicalRouting_frame by metis
qed

lemma LoadConfig_Inr:
  assumes "LoadConfig env c0 = Inr c"
  obtains c5 c8 where "loadModels env c0 = Inr c5" "loadRouting env c5 = Inr c8" "c = preloads c8"
    "ValidatePeerNamespace c = None" "validateSelectors c = None"
  using assms by (auto simp: LoadConfig_def Let_def)

lemma preloads_frame [simp]:
  "Models (preloads c) = Models c" "Providers (preloads c) = Providers c" "LifecyclePools (preloads c) = LifecyclePools c"
  "aliases (preloads c) = aliases c" "Peers (preloads c) = Peers c" "Selectors (preloads c) = Selectors c"
  "Routing (preloads c) = Routing c"
  by (simp_all add: preloads_def)

text \<open>What the model half of the loader established holds of the result.\<close>

lemma LoadConfig_models:
  assumes "LoadConfig env c0 = Inr c"
  shows "alias_ok c \<and> (\<forall>i. hasKey i (Models c) \<longrightarrow> settled i c) \<and>
    (\<forall>(i, pool)\<in>set (LifecyclePools c). pool_ok c pool) \<and> distinct (map (poolProvider \<circ> snd) (LifecyclePools c)) \<and>
    validateLifecycleResidency c = None"
proof -
  from assms obtain c5 c8 where l: "loadModels env c0 = Inr c5" "loadRouting env c5 = Inr c8" "c = preloads c8"
    by (rule LoadConfig_Inr)
  have f: "Models c = Models c5" "Providers c = Providers c5" "LifecyclePools c = LifecyclePools c5" "aliases c = aliases c5"
    using loadRouting_frame [OF l(2)] by (simp_all add: l(3))
  have "alias_ok c = alias_ok c5" "pool_ok c = pool_ok c5"
    "validateLifecycleResidency c = validateLifecycleResidency c5"
    by (simp_all add: alias_ok_def pool_ok_def validateLifecycleResidency_def desired_def f fun_eq_iff)
  moreover have "settled i c = settled i c5" for i
    by (simp add: settled_def f model_ok_cong [OF f(2,3)])
  ultimately show ?thesis using loadModels_Inr [OF l(1)] by (simp add: f)
qed

lemma desired_count: "desired c p = int (length (filter (\<lambda>(i, m). staysResident m \<and> LifecyclePool m = p) (Models c)))"
proof -
  have "fold (\<lambda>(i, m) d. if staysResident m then bump (LifecyclePool m) 1 d else d) ms d p =
      d p + int (length (filter (\<lambda>(i, m). staysResident m \<and> LifecyclePool m = p) ms))"
    for ms :: "(string \<times> ModelConfig) list" and d
    by (induction ms arbitrary: d) (auto simp: bump_apply split: if_splits)
  then show ?thesis by (simp add: desired_def)
qed

section \<open>A sample configuration\<close>

text \<open>A provider with one pool holding a pinned and a transient model, a process model with an alias
  and a parameter key, a group of two, a spillover selector over that group and a peer.\<close>

definition sampleEnv :: Env where
  "sampleEnv = \<lparr>parseURL = (\<lambda>u. Some \<lparr>Scheme = ''http'', Host = ''h'', HasUser = False, RawQuery = [], Fragment = []\<rparr>),
     Getenv = (\<lambda>_. []), Stat = (\<lambda>_. IsFile), accessError = (\<lambda>_. None), Dir = id, mapOrder = id\<rparr>"

definition providerModel :: "string \<Rightarrow> string \<Rightarrow> ModelConfig" where
  "providerModel pm res = zeroModelConfig\<lparr>UnloadAfter := - 1, Provider := ''prov'', ProviderModel := pm,
     LifecyclePool := ''pool'', Residency := res\<rparr>"

definition processModel :: "string list \<Rightarrow> string list \<Rightarrow> ModelConfig" where
  "processModel as keys = zeroModelConfig\<lparr>UnloadAfter := - 1, Cmd := ''serve'', Proxy := ''http://h'',
     Aliases := as, SetParamsByID := keys\<rparr>"

definition samplePool :: LifecyclePoolConfig where
  "samplePool = \<lparr>poolProvider = ''prov'', Capacity = 1, RestorePreferred = True, TransientIdleTTL = 0,
     ResidentFirst = True, MaxResidentBurst = 8, MaxResidentWait = 0\<rparr>"

definition sampleProvider :: ProviderConfig where
  "sampleProvider = \<lparr>ProviderType = ''lemonade'', BaseURL = ''http://h/'', APIKeyEnv = [], AdminAPIKeyEnv = [],
     ManagementTimeout = 1, ColdStartTimeout = 1, DiscoveryInterval = 1, ResolvedAPIKey = [], ResolvedAdminAPIKey = []\<rparr>"

definition noRouting :: RoutingConfig where
  "noRouting = \<lparr>SchedulerUse = [], Priority = [], RouterUse = [], SettingsGroups = [], SettingsMatrix = None\<rparr>"

definition sampleConfig :: Config where
  "sampleConfig = \<lparr>cHealthCheckTimeout = 120, LogToStdout = ''proxy'', StorePath = None, SessionID = [],
     Every = 0, GlobalTTL = 0, cUnloadTimeout = 0,
     Models = [(''x'', processModel [''ex''] [''x:fast'']), (''y'', processModel [] []),
       (''pin'', providerModel ''m1'' ''hard-pinned''), (''tmp'', providerModel ''m2'' [])],
     Providers = [(''prov'', sampleProvider)], LifecyclePools = [(''pool'', samplePool)], Profiles = [],
     Selectors = [(''any'', \<lparr>Strategy = ''spillover'', Targets = [''x'', ''y'', ''far/m''], Spillover = 1\<rparr>)],
     Routing = noRouting,
     Groups = [(''g'', \<lparr>Swap = False, Exclusive = True, Persistent = False, Members = [''x'', ''y'']\<rparr>)],
     Matrix = None, aliases = Map.empty, StartPort = 5800, Preload = ['' tmp''], cSendLoadingState = False,
     RequiredAPIKeys = [], Peers = [(''far'', \<lparr>PeerModels = [''m'']\<rparr>)], IgnorePaths = []\<rparr>"

definition sampleLoaded :: Config where
  "sampleLoaded = (case LoadConfig sampleEnv sampleConfig of Inr c \<Rightarrow> c | Inl _ \<Rightarrow> sampleConfig)"

lemma sample_run:
  "case LoadConfig sampleEnv sampleConfig of
     Inl _ \<Rightarrow> False
   | Inr c \<Rightarrow> map (\<lambda>(i, m). (i, Aliases m, Residency m, UnloadTimeout m)) (Models c) =
         [(''x'', [''ex'', ''x:fast''], [], 10), (''y'', [], [], 10),
          (''pin'', [], ''hard-pinned'', 10), (''tmp'', [], ''transient'', 10)] \<and>
       Preload c = [''tmp'', ''pin''] \<and> LifecyclePools c = [(''pool'', samplePool)] \<and>
       RouterUse (Routing c) = ''group'' \<and> map fst (SettingsGroups (Routing c)) = [''g'', ''(default)''] \<and>
       Option.is_none (SettingsMatrix (Routing c)) \<and> Selectors c = Selectors sampleConfig \<and> Peers c = Peers sampleConfig \<and>
       map (staysResident \<circ> snd) (Models c) = [False, False, True, False]"
  by code_simp

lemma sample_loads: "LoadConfig sampleEnv sampleConfig = Inr sampleLoaded"
  using sample_run by (simp add: sampleLoaded_def split: sum.splits)

lemmas sampleLoaded_facts = sample_run [unfolded sample_loads sum.case]

section \<open>Properties\<close>

text \<open>C32: Every model of a configuration the loader accepts is well formed: it has settled
  timeouts, and it is either a process model without provider settings or a provider model with a
  known provider, a pool of that provider, a valid residency, the provider's address and no
  command; no two models stand for the same model of a provider.\<close>

theorem accepted_models_well_formed:
  assumes "LoadConfig env c0 = Inr c" "map_of (Models c) i = Some m"
  shows "model_ok c m \<and> (\<forall>j n. j \<noteq> i \<longrightarrow> map_of (Models c) j = Some n \<longrightarrow> \<not> sameBackend m n)"
proof -
  have "hasKey i (Models c)" using assms(2) by (simp add: hasKey_def)
  then have "settled i c" using LoadConfig_models [OF assms(1)] by blast
  then show ?thesis using assms(2) by (auto simp: settled_def)
qed

theorem accepted_models_well_formed_witness:
  "\<exists>m. map_of (Models sampleLoaded) ''tmp'' = Some m \<and> model_ok sampleLoaded m \<and> Residency m = ''transient''"
proof -
  obtain m where "map_of (Models sampleLoaded) ''tmp'' = Some m" "Residency m = ''transient''"
    using sampleLoaded_facts by (auto simp: map_eq_Cons_conv)
  with accepted_models_well_formed [OF sample_loads this(1)] show ?thesis by blast
qed

text \<open>C33: Every lifecycle pool of an accepted configuration belongs to a known provider no other
  pool uses, limits the waiting of cold requests when residents go first, and has room for all the
  models that must stay resident in it.\<close>

theorem accepted_pools_hold_their_residents:
  assumes "LoadConfig env c0 = Inr c" "map_of (LifecyclePools c) p = Some pool"
  shows "pool_ok c pool \<and> distinct (map (poolProvider \<circ> snd) (LifecyclePools c)) \<and>
    int (length (filter (\<lambda>(i, m). staysResident m \<and> LifecyclePool m = p) (Models c))) \<le> Capacity pool"
proof -
  note l = LoadConfig_models [OF assms(1)]
  have ok: "pool_ok c pool" using l map_of_SomeD [OF assms(2)] by fast
  have "desired c p \<le> Capacity pool"
  proof (cases "\<exists>(i, m)\<in>set (Models c). staysResident m \<and> LifecyclePool m = p")
    case True
    then have "p \<in> set (unseen [] (map (LifecyclePool \<circ> snd) (filter (staysResident \<circ> snd) (Models c))))" by force
    moreover have "validateLifecycleResidency c = None" using l by blast
    ultimately have "\<not> Capacity (case map_of (LifecyclePools c) p of None \<Rightarrow> zeroPool | Some q \<Rightarrow> q) < desired c p"
      unfolding validateLifecycleResidency_def firstErr_None Let_def by (auto simp del: set_unseen set_map)
    then show ?thesis using assms(2) by simp
  next
    case False
    then have "filter (\<lambda>(i, m). staysResident m \<and> LifecyclePool m = p) (Models c) = []"
      by (auto simp: filter_empty_conv)
    then have "desired c p = 0" by (simp add: desired_count)
    then show ?thesis using ok by (simp add: pool_ok_def)
  qed
  then show ?thesis using ok l by (simp add: desired_count)
qed

theorem accepted_pools_hold_their_residents_witness: "pool_ok sampleLoaded samplePool"
proof -
  have "map_of (LifecyclePools sampleLoaded) ''pool'' = Some samplePool" using sampleLoaded_facts by simp
  from accepted_pools_hold_their_residents [OF sample_loads this] show ?thesis by simp
qed

text \<open>Names resolve as the configuration says: whatever a name resolves to is a configured
  model; a model's alias resolves to that model unless it is itself a model ID, which then wins;
  and a parameter key always resolves to the model that declares it.\<close>

theorem names_resolve:
  assumes "LoadConfig env c0 = Inr c"
  shows "(\<forall>s i. RealModelName c s = Some i \<longrightarrow> hasKey i (Models c)) \<and>
    (\<forall>i m. map_of (Models c) i = Some m \<longrightarrow>
      (\<forall>a\<in>set (Aliases m). RealModelName c a = Some (if hasKey a (Models c) then a else i)) \<and>
      (\<forall>k\<in>set (SetParamsByID m). RealModelName c k = Some i))"
proof -
  note l = LoadConfig_models [OF assms(1)]
  have "RealModelName c k = Some i" if "map_of (Models c) i = Some m" "k \<in> set (SetParamsByID m)" for i m k
  proof -
    have i: "hasKey i (Models c)" using that(1) by (simp add: hasKey_def)
    then have "settled i c" using l by blast
    then have "k = i \<or> \<not> hasKey k (Models c) \<and> aliases c k = Some i" using that by (auto simp: settled_def)
    then show ?thesis using i by (auto simp: RealModelName_def)
  qed
  then show ?thesis using l by (auto simp: RealModelName_def alias_ok_def split: option.splits if_splits)
qed

theorem names_resolve_witness: "RealModelName sampleLoaded ''x:fast'' = Some ''x''"
proof -
  obtain m where m: "map_of (Models sampleLoaded) ''x'' = Some m" "''x:fast'' \<in> set (Aliases m)"
    "\<not> hasKey ''x:fast'' (Models sampleLoaded)"
    using sampleLoaded_facts by (auto simp: map_eq_Cons_conv hasKey_def)
  with names_resolve [OF sample_loads] show ?thesis by force
qed

end
