(* ===== verification/Config_Groups.thy ===== *)
theory Config_Groups
  imports Config_Models Swapper_Props
begin

text \<open>
  Groups, peers, selectors and preloads of an accepted configuration, and what they guarantee to
  the components built from it: the group router can be constructed, spillover targets can be
  resident together, and peer names are unambiguous.
\<close>

section \<open>The group table\<close>

lemma assignMembers_apply:
  "assignMembers (gid, g) t i = (if i \<in> set (Members g) then Some gid else t i)"
proof -
  have "fold (\<lambda>m t. t(m \<mapsto> gid)) ms t i = (if i \<in> set ms then Some gid else t i)" for ms
    by (induction ms arbitrary: t) auto
  then show ?thesis by (simp add: assignMembers_def)
qed

lemma addMembers_spec:
  "addMembers gid ms t = Inr t' \<Longrightarrow>
     (\<forall>m\<in>set ms. t m = None) \<and> (\<forall>i. t' i = (if i \<in> set ms then Some gid else t i))"
  by (induction gid ms t rule: addMembers.induct) (auto split: option.splits if_splits)

lemma groupTable_spec:
  "groupTable gs t = Inr t' \<Longrightarrow> t' = fold assignMembers gs t \<and>
     (\<forall>i g. t' i = Some g \<longleftrightarrow> t i = Some g \<or> (\<exists>gc. (g, gc) \<in> set gs \<and> i \<in> set (Members gc)))"
proof (induction gs t rule: groupTable.induct)
  case (2 gid g gs t)
  then obtain u where u: "addMembers gid (Members g) t = Inr u" "groupTable gs u = Inr t'"
    by (auto split: sum.splits)
  note m = addMembers_spec [OF u(1)]
  then have ua: "u = assignMembers (gid, g) t" by (auto simp: assignMembers_apply)
  note IH = "2.IH" [OF u]
  have "u i = Some h \<longleftrightarrow> t i = Some h \<or> h = gid \<and> i \<in> set (Members g)" for i h using m by auto
  then show ?case using IH by (auto simp: ua)
qed simp

lemma checkMembers:
  "foldE (checkMember gid) ms (prev, u) = Inr (prev', u') \<Longrightarrow> addMembers gid ms u = Inr u'"
proof (induction ms arbitrary: prev u)
  case (Cons m ms)
  then obtain p v where v: "checkMember gid m (prev, u) = Inr (p, v)" "foldE (checkMember gid) ms (p, v) = Inr (prev', u')"
    by auto
  from Cons.IH [OF v(2)] v(1) show ?case by (auto simp: checkMember_def)
qed simp

lemma checkGroups: "foldE checkGroup gs u = Inr u' \<Longrightarrow> groupTable gs u = Inr u'"
proof (induction gs arbitrary: u)
  case (Cons ig gs)
  obtain gid g where ig: "ig = (gid, g)" by force
  from Cons.prems obtain v where v: "checkGroup (gid, g) u = Inr v" "foldE checkGroup gs v = Inr u'"
    by (auto simp: ig)
  then have "addMembers gid (Members g) u = Inr v" by (auto simp: checkGroup_def dest: checkMembers)
  with Cons.IH [OF v(2)] show ?case by (simp add: ig)
qed simp

text \<open>The table the selectors are checked with is the router's.\<close>

lemma memberGroup_groupOf:
  "newGroupSwapper gs = Inr sw \<Longrightarrow> memberGroup gs m = groupOf sw m"
  by (auto simp: newGroupSwapper_def memberGroup_def groupOf_def dest!: groupTable_spec split: sum.splits)

section \<open>Routing\<close>

text \<open>The group settings the loader starts from: the legacy key or the routing block.\<close>

definition userGroups :: "Config \<Rightarrow> (string \<times> GroupConfig) list" where
  "userGroups c = (if Groups c \<noteq> [] then Groups c else SettingsGroups (Routing c))"

lemma chooseRouter_groups:
  "chooseRouter c = Inr d \<Longrightarrow> Matrix d = None \<Longrightarrow> Groups d = userGroups c"
  by (auto simp: chooseRouter_def userGroups_def Let_def split: if_splits)

text \<open>The two outcomes of the routing half of the loader.\<close>

lemma loadRouting_cases:
  assumes "loadRouting env c = Inr d"
  obtains (matrix) m m' where "RouterUse (Routing d) = ''matrix''" "SettingsMatrix (Routing d) = Some m'"
      "ValidateMatrix (mapOrder env) m (Models d) = Inr m'"
    | (group) u e where "RouterUse (Routing d) = ''group''" "foldE checkGroup (SettingsGroups (Routing d)) Map.empty = Inr u"
      "Groups e = userGroups c" "Models e = Models c" "SettingsGroups (Routing d) = Groups (AddDefaultGroupToConfig e)"
proof -
  obtain c6 c7 where r: "chooseRouter c = Inr c6" "validateRouter env c6 = Inr c7" "canonicalRouting c7 = Inr d"
    using assms by (auto simp: loadRouting_def)
  note f = chooseRouter_frame [OF r(1)] validateRouter_frame [OF r(2)] canonicalRouting_frame [OF r(3)]
  show thesis
  proof (cases "Matrix c6")
    case (Some m)
    then obtain m' where "ValidateMatrix (mapOrder env) m (Models c6) = Inr m'" "c7 = c6\<lparr>Matrix := Some m'\<rparr>"
      using r(2) by (auto simp: validateRouter_def split: sum.splits)
    then show thesis using matrix f by auto
  next
    case None
    then obtain u where "foldE checkGroup (Groups c7) Map.empty = Inr u" "c7 = AddDefaultGroupToConfig c6"
      using r(2) by (auto simp: validateRouter_def Let_def split: sum.splits)
    moreover have "Matrix c7 = None" using None calculation(2) by (simp add: AddDefaultGroupToConfig_def)
    ultimately show thesis using group [of u c6] chooseRouter_groups [OF r(1) None] f by auto
  qed
qed

section \<open>Groups\<close>

lemma update_new: "k \<notin> fst ` set al \<Longrightarrow> AList.update k v al = al @ [(k, v)]"
  by (induction al) auto

text \<open>The group router can always be built from an accepted configuration: no model is in two
  groups, and unless the user has a group with the name of the default group, every model is in
  one.\<close>

theorem accepted_groups_build_the_router:
  assumes "LoadConfig env c0 = Inr c" "RouterUse (Routing c) = ''group''"
  shows "\<exists>sw. newGroupSwapper (SettingsGroups (Routing c)) = Inr sw \<and>
    (\<forall>i g. modelToGroup sw i = Some g \<longleftrightarrow> (\<exists>gc. (g, gc) \<in> set (SettingsGroups (Routing c)) \<and> i \<in> set (Members gc))) \<and>
    (\<not> hasKey DEFAULT_GROUP_ID (userGroups c0) \<longrightarrow> (\<forall>i. hasKey i (Models c) \<longrightarrow> modelToGroup sw i \<noteq> None))"
proof -
  from assms(1) obtain c5 c8 where l: "loadModels env c0 = Inr c5" "loadRouting env c5 = Inr c8" "c = preloads c8"
    by (rule LoadConfig_Inr)
  let ?gs = "SettingsGroups (Routing c8)"
  from l(2) obtain u e where u: "foldE checkGroup ?gs Map.empty = Inr u" and
    e: "Groups e = userGroups c5" "Models e = Models c5" "?gs = Groups (AddDefaultGroupToConfig e)"
    using assms(2) by (cases rule: loadRouting_cases) (simp_all add: l(3))
  have ug: "userGroups c5 = userGroups c0" using loadModels_Inr [OF l(1)] by (simp add: userGroups_def)
  have keys: "hasKey i (Models c) = hasKey i (Models e)" for i
    using loadRouting_frame [OF l(2)] e(2) by (simp add: l(3))
  have t: "\<forall>i g. u i = Some g \<longleftrightarrow> (\<exists>gc. (g, gc) \<in> set ?gs \<and> i \<in> set (Members gc))"
    using groupTable_spec [OF checkGroups [OF u]] by (metis option.distinct(1))
  moreover have "u i \<noteq> None" if "\<not> hasKey DEFAULT_GROUP_ID (userGroups c0)" "hasKey i (Models c)" for i
  proof -
    have new: "DEFAULT_GROUP_ID \<notin> fst ` set (Groups e)" using that(1) by (simp add: e(1) ug hasKey_iff)
    have gs: "?gs = Groups e @ [(DEFAULT_GROUP_ID, \<lparr>Swap = True, Exclusive = True, Persistent = False, Members = defaultMembers e\<rparr>)]"
      using new by (simp add: e(3) AddDefaultGroupToConfig_def update_new)
    have i: "i \<in> fst ` set (Models e)" using that(2) keys by (simp add: hasKey_iff)
    have "\<exists>g gc. (g, gc) \<in> set ?gs \<and> i \<in> set (Members gc)"
    proof (cases "inSomeGroup (Groups e) i")
      case True
      then show ?thesis by (auto simp: inSomeGroup_def list_ex_iff gs)
    next
      case False
      then have "i \<in> set (defaultMembers e)" using i by (auto simp: defaultMembers_def)
      then show ?thesis by (force simp: gs)
    qed
    then show ?thesis using t by auto
  qed
  ultimately show ?thesis using checkGroups [OF u] by (simp add: newGroupSwapper_def l(3))
qed

theorem accepted_groups_build_the_router_witness:
  "\<exists>sw. newGroupSwapper (SettingsGroups (Routing sampleLoaded)) = Inr sw"
proof -
  have "RouterUse (Routing sampleLoaded) = ''group''" using sampleLoaded_facts by simp
  from accepted_groups_build_the_router [OF sample_loads this] show ?thesis by blast
qed

text \<open>A group the user gives the name of the default group is replaced by it.\<close>

definition shadowingGroups :: Config where
  "shadowingGroups = sampleConfig\<lparr>Groups := [(''(default)'', \<lparr>Swap = False, Exclusive = False, Persistent = True, Members = [''x'']\<rparr>)],
     Selectors := []\<rparr>"

text \<open>The default group overwrites a group of the same name that the user defined: the
  configuration is accepted, the user's settings are gone, and its members are in no group.\<close>

theorem default_group_overwrites:
  "case LoadConfig sampleEnv shadowingGroups of
     Inl _ \<Rightarrow> False
   | Inr c \<Rightarrow> SettingsGroups (Routing c) =
       [(''(default)'', \<lparr>Swap = True, Exclusive = True, Persistent = False, Members = [''pin'', ''tmp'', ''y'']\<rparr>)] \<and>
       hasKey ''x'' (Models c)"
  by code_simp

section \<open>Spillover selectors\<close>

lemma firstDuplicate_None: "firstDuplicate seen ts = None \<longleftrightarrow> distinct ts \<and> set ts \<inter> set seen = {}"
  by (induction seen ts rule: firstDuplicate.induct) auto

lemma checkSelectors:
  assumes "validateSelectors c = None" "(s, sel) \<in> set (Selectors c)"
  shows "checkSelector c s sel = None"
  using assms by (auto simp: validateSelectors_def split: if_splits)

lemma checkSelector_spillover:
  assumes "checkSelector c s sel = None" "Strategy sel = ''spillover''"
  shows "validateSpilloverCoexistence c (localTargets c (Targets sel)) = None \<and>
    distinct (map (resolvedTarget c) (Targets sel)) \<and> 1 \<le> Spillover sel"
  using assms by (auto simp: checkSelector_def checkSpillover_def Let_def firstDuplicate_None split: option.splits)

lemma groups_coexist:
  assumes "newGroupSwapper gs = Inr sw" "groupSwaps gs g = False" "g \<noteq> []" "memberGroup gs t1 = g" "memberGroup gs t2 = g"
  shows "t2 \<notin> set (groupEvictionFor sw t1 running)"
proof -
  have "groups sw = map_of gs" using assms(1) by (auto simp: newGroupSwapper_def split: sum.splits)
  then have "\<not> Swap (groupCfg sw g)" using assms(2)
    by (auto simp: groupCfg_def groupSwaps_def noGroup_def split: option.splits)
  then show ?thesis using assms(4,5) memberGroup_groupOf [OF assms(1)]
    by (auto simp: groupEvictionFor_spec groupEvicts_def)
qed



section \<open>Peer names\<close>

lemma addFQNs:
  "foldE addFQN pms targets = Inr targets' \<Longrightarrow>
     distinct (map (\<lambda>(p, m). PeerModelFQN p m) pms) \<and>
     fst ` set targets' = fst ` set targets \<union> (\<lambda>(p, m). PeerModelFQN p m) ` set pms \<and>
     (\<forall>(p, m)\<in>set pms. PeerModelFQN p m \<notin> fst ` set targets)"
proof (induction pms arbitrary: targets)
  case (Cons pm pms)
  obtain p m where pm: "pm = (p, m)" by force
  from Cons.prems obtain u where u: "addFQN (p, m) targets = Inr u" "foldE addFQN pms u = Inr targets'"
    by (auto simp: pm)
  then have "PeerModelFQN p m \<notin> fst ` set targets" "u = (PeerModelFQN p m, (p, m)) # targets"
    by (auto simp: addFQN_def Let_def map_of_eq_None_iff split: option.splits)
  note new = this and IH = Cons.IH [OF u(2)]
  have "\<forall>(q, n)\<in>set pms. PeerModelFQN q n \<noteq> PeerModelFQN p m \<and> PeerModelFQN q n \<notin> fst ` set targets"
    using IH by (auto simp: new(2))
  then show ?case using IH new by (auto simp: pm)
qed simp

lemma set_sortedPairs: "distinct (map fst (Peers c)) \<Longrightarrow> set (sortedPairs c) = set (peerPairs c)"
  by (force simp: sortedPairs_def peerPairs_def split: option.splits)

lemma scanPeers_unique:
  assumes "pm \<in> set pms" "P pm" "\<forall>q\<in>set pms. P q \<longrightarrow> q = pm"
  shows "scanPeers P pms None = Some (Some pm)"
  unfolding scanPeers_found using assms by blast

text \<open>The fully qualified name of every peer model of an accepted configuration resolves to
  exactly that peer and model, and no model ID, alias or selector takes it.\<close>

theorem peer_names_unambiguous:
  assumes "LoadConfig env c0 = Inr c" "distinct (map fst (Peers c))" "(i, peer) \<in> set (Peers c)" "m \<in> set (PeerModels peer)"
  shows "ResolvePeerModel c (PeerModelFQN i m) = Some (i, m) \<and>
    RealModelName c (PeerModelFQN i m) = None \<and> \<not> hasKey (PeerModelFQN i m) (Selectors c)"
proof -
  let ?fqn = "\<lambda>(p, m). PeerModelFQN p m"
  from assms(1) have v: "ValidatePeerNamespace c = None" by (rule LoadConfig_Inr)
  then obtain ts where ts: "foldE addFQN (sortedPairs c) [] = Inr ts" "\<forall>fqn\<in>set (sortedKeys ts). reservedName c fqn = None"
    by (auto simp: ValidatePeerNamespace_def split: sum.splits)
  note names = addFQNs [OF ts(1)]
  have set: "set (sortedPairs c) = set (peerPairs c)" by (rule set_sortedPairs [OF assms(2)])
  have im: "(i, m) \<in> set (peerPairs c)" using assms(3,4) by (auto simp: set_peerPairs)
  have "inj_on ?fqn (set (peerPairs c))" using names set by (simp add: distinct_map)
  then have uniq: "\<forall>q\<in>set (peerPairs c). ?fqn q = PeerModelFQN i m \<longrightarrow> q = (i, m)"
    using im by (metis (no_types, lifting) inj_onD case_prod_conv)
  have "scanPeers (\<lambda>q. ?fqn q = PeerModelFQN i m) (peerPairs c) None = Some (Some (i, m))"
    by (rule scanPeers_unique [OF im _ uniq]) simp
  then have "scanPeers (\<lambda>(p, n). PeerModelFQN p n = PeerModelFQN i m) (peerPairs c) None = Some (Some (i, m))"
    by (simp add: case_prod_unfold)
  then have "ResolvePeerModel c (PeerModelFQN i m) = Some (i, m)" by (simp add: ResolvePeerModel_def)
  moreover have "reservedName c (PeerModelFQN i m) = None"
  proof -
    have "?fqn (i, m) \<in> ?fqn ` set (sortedPairs c)" using im set by (metis imageI)
    also have "\<dots> = set (sortedKeys ts)" using names by simp
    finally have "PeerModelFQN i m \<in> set (sortedKeys ts)" by simp
    from bspec [OF ts(2) this] show ?thesis .
  qed
  ultimately show ?thesis by (auto simp: reservedName_def RealModelName_def split: option.splits)
qed

theorem peer_names_unambiguous_witness: "ResolvePeerModel sampleLoaded ''far/m'' = Some (''far'', ''m'')"
  using peer_names_unambiguous [OF sample_loads, of "''far''" "\<lparr>PeerModels = [''m'']\<rparr>" "''m''"] sampleLoaded_facts
  by (simp add: PeerModelFQN_def sampleConfig_def)

section \<open>Preloads\<close>

lemma sorted_unseen: "sorted_wrt P xs \<Longrightarrow> sorted_wrt P (unseen seen xs)"
  by (induction seen xs rule: unseen.induct) auto

text \<open>The models preloaded at start are those the user lists, by their real names, followed by
  every model that must stay resident and is not listed, each once, in the order of their residency
  priorities and, within one, of their names.\<close>

theorem preloads_cover_residents:
  assumes "LoadConfig env c0 = Inr c"
  shows "\<exists>listed rest. Preload c = listed @ rest \<and> (\<forall>i\<in>set listed. hasKey i (Models c)) \<and> distinct rest \<and>
    set rest = {i. \<exists>m. (i, m) \<in> set (Models c) \<and> staysResident m} - set listed \<and>
    sorted_wrt (\<lambda>i j. \<not> preloadBefore c j i) rest"
proof -
  from assms obtain c5 c8 where l: "c = preloads c8" by (rule LoadConfig_Inr)
  have al: "alias_ok c" using LoadConfig_models [OF assms] by blast
  let ?listed = "cleanPreload c8 (Preload c8)"
  have "RealModelName c8 = RealModelName c" by (simp add: l RealModelName_def fun_eq_iff)
  then have "\<forall>i\<in>set ?listed. hasKey i (Models c)"
    using al by (auto simp: cleanPreload_def Let_def RealModelName_def alias_ok_def split: if_splits option.splits)
  moreover have before: "preloadBefore c8 = preloadBefore c"
    by (simp add: l preloadBefore_def modelOf_def fun_eq_iff)
  have "sorted_wrt (\<lambda>i j. \<not> preloadBefore c j i) (preferredModels c8)"
    unfolding preferredModels_def before
    by (rule sorted_sortBy [where S = UNIV]) (auto simp: preloadBefore_def Let_def split: if_splits)
  then have "sorted_wrt (\<lambda>i j. \<not> preloadBefore c j i) (unseen ?listed (preferredModels c8))"
    by (rule sorted_unseen)
  moreover have "set (preferredModels c8) = {i. \<exists>m. (i, m) \<in> set (Models c) \<and> staysResident m}"
    by (force simp: preferredModels_def l)
  moreover have "Preload c = ?listed @ unseen ?listed (preferredModels c8)"
    by (simp add: l preloads_def appendPreferredPreloads_def)
  ultimately show ?thesis by (intro exI [of _ ?listed] exI [of _ "unseen ?listed (preferredModels c8)"]) simp
qed

theorem preloads_cover_residents_witness: "''pin'' \<in> set (Preload sampleLoaded)"
proof -
  obtain m where "(''pin'', m) \<in> set (Models sampleLoaded)" "staysResident m"
    using sampleLoaded_facts by (auto simp: map_eq_Cons_conv)
  with preloads_cover_residents [OF sample_loads] show ?thesis by fastforce
qed

end
