(* ===== verification/Selector.thy ===== *)
theory Selector
  imports Config_Groups
begin

text \<open>
  \<^verbatim>\<open>internal/server/selector.go\<close>: how a selector chooses the target of a request, and the tracker
  of spillover selectors with its in-flight counts. The tracker's mutex serialises its operations;
  the middleware reserves a target, forwards the request and releases the target when it returns.
\<close>

section \<open>State\<close>

record spilloverTarget =
  target :: string
  modelID :: string
  local_model :: bool

record spilloverState =
  spillover :: int
  targets :: "spilloverTarget list"
  inflight :: counter
  rr :: "64 word"

type_synonym tracker = "string \<rightharpoonup> spilloverState"
type_synonym running = "string \<rightharpoonup> ProcessState"

definition trackedTarget :: "Config \<Rightarrow> string \<Rightarrow> spilloverTarget" where
  "trackedTarget c t =
     (case RealModelName c t of
        Some m \<Rightarrow> \<lparr>target = t, modelID = m, local_model = True\<rparr>
      | None \<Rightarrow>
          (case ResolvePeerModel c t of
             Some (peerID, peerModelID) \<Rightarrow> \<lparr>target = t, modelID = PeerModelFQN peerID peerModelID, local_model = False\<rparr>
           | None \<Rightarrow> \<lparr>target = t, modelID = PeerModelFQN [] [], local_model = False\<rparr>))"

definition newTrackerState :: "Config \<Rightarrow> SelectorConfig \<Rightarrow> spilloverState" where
  "newTrackerState c sel =
     \<lparr>spillover = Spillover sel, targets = map (trackedTarget c) (Targets sel), inflight = (\<lambda>_. 0), rr = 0\<rparr>"

definition newSelectorSpilloverTracker :: "Config \<Rightarrow> tracker" where
  "newSelectorSpilloverTracker c =
     map_of (map (\<lambda>(i, sel). (i, newTrackerState c sel))
       (filter (\<lambda>(i, sel). Strategy sel = ''spillover'') (Selectors c)))"

section \<open>Strategies\<close>

definition strategyPin :: "SelectorConfig \<Rightarrow> error + string" where
  "strategyPin sel = (if Targets sel = [] then Inl (ErrText ''selector has no targets'') else Inr (hd (Targets sel)))"

definition stateOf :: "Config \<Rightarrow> running \<Rightarrow> string \<Rightarrow> ProcessState option" where
  "stateOf c run t = run (case RealModelName c t of Some m \<Rightarrow> m | None \<Rightarrow> [])"

definition strategyWarm :: "Config \<Rightarrow> SelectorConfig \<Rightarrow> running \<Rightarrow> error + string" where
  "strategyWarm c sel run =
     (if Targets sel = [] then Inl (ErrText ''selector has no targets'')
      else case List.find (\<lambda>t. stateOf c run t = Some StateReady) (Targets sel) of
             Some t \<Rightarrow> Inr t
           | None \<Rightarrow>
               (case List.find (\<lambda>t. stateOf c run t = Some StateStarting) (Targets sel) of
                  Some t \<Rightarrow> Inr t
                | None \<Rightarrow> Inr (hd (Targets sel))))"

text \<open>\<^verbatim>\<open>minimum\<close> starts from minus one, as the code does.\<close>

definition minimumStep :: "spilloverState \<Rightarrow> spilloverTarget \<Rightarrow> int \<Rightarrow> int" where
  "minimumStep s t least =
     (let count = inflight s (modelID t) in if least < 0 \<or> count < least then count else least)"

definition minimum :: "spilloverState \<Rightarrow> spilloverTarget list \<Rightarrow> int" where
  "minimum s ts = fold (minimumStep s) ts (- 1)"

definition reserve :: "spilloverTarget \<Rightarrow> spilloverState \<Rightarrow> string \<times> spilloverState" where
  "reserve t s = (target t, s\<lparr>inflight := bump (modelID t) 1 (inflight s)\<rparr>)"

definition reserveLeastBusy :: "spilloverTarget list \<Rightarrow> spilloverState \<Rightarrow> string \<times> spilloverState" where
  "reserveLeastBusy ts s =
     (let tied = filter (\<lambda>t. inflight s (modelID t) = minimum s ts) ts;
          t = tied ! (unat (rr s) mod length tied) in
      reserve t (s\<lparr>rr := rr s + 1\<rparr>))"

datatype target_class = Active | Cold | Leaving

definition availability :: "spilloverState \<Rightarrow> running \<Rightarrow> spilloverTarget \<Rightarrow> target_class" where
  "availability s run t =
     (if \<not> local_model t then (if inflight s (modelID t) > 0 then Active else Cold)
      else case run (modelID t) of
             Some StateStopping \<Rightarrow> Leaving
           | Some StateShutdown \<Rightarrow> Leaving
           | Some StateReady \<Rightarrow> Active
           | Some StateStarting \<Rightarrow> Active
           | _ \<Rightarrow> if inflight s (modelID t) > 0 then Active else Cold)"

definition chooseTarget :: "string \<Rightarrow> running \<Rightarrow> spilloverState \<Rightarrow> error + string \<times> spilloverState" where
  "chooseTarget selectorID run s =
     (let act = filter (\<lambda>t. availability s run t = Active) (targets s);
          cold = filter (\<lambda>t. availability s run t = Cold) (targets s) in
      if act = []
      then (if cold = []
            then Inl (ErrText (''selector \"'' @ selectorID @ ''\" has no available spillover targets''))
            else Inr (reserve (hd cold) s))
      else if minimum s act < spillover s then Inr (reserveLeastBusy act s)
      else if cold \<noteq> [] then Inr (reserve (hd cold) s)
      else Inr (reserveLeastBusy act s))"

definition strategySpillover :: "string \<Rightarrow> running \<Rightarrow> tracker \<Rightarrow> error + string \<times> tracker" where
  "strategySpillover selectorID run tr =
     (case tr selectorID of
        None \<Rightarrow> Inl (ErrText (''spillover selector \"'' @ selectorID @ ''\" is not configured''))
      | Some s \<Rightarrow>
          (case chooseTarget selectorID run s of
             Inl e \<Rightarrow> Inl e
           | Inr (t, s') \<Rightarrow> Inr (t, tr(selectorID \<mapsto> s'))))"

text \<open>\<^verbatim>\<open>release\<close>: the first target of that name with a count above zero.\<close>

fun releaseFirst :: "string \<Rightarrow> spilloverTarget list \<Rightarrow> counter \<Rightarrow> counter" where
  "releaseFirst tgt [] c = c"
| "releaseFirst tgt (t # ts) c =
     (if target t = tgt \<and> c (modelID t) > 0 then bump (modelID t) (- 1) c else releaseFirst tgt ts c)"

definition releaseTarget :: "string \<Rightarrow> spilloverState \<Rightarrow> spilloverState" where
  "releaseTarget tgt s = s\<lparr>inflight := releaseFirst tgt (targets s) (inflight s)\<rparr>"

definition release_spillover :: "string \<Rightarrow> string \<Rightarrow> tracker \<Rightarrow> tracker" where
  "release_spillover selectorID tgt tr =
     (case tr selectorID of None \<Rightarrow> tr | Some s \<Rightarrow> tr(selectorID \<mapsto> releaseTarget tgt s))"

section \<open>Choosing\<close>

text \<open>The selector of an unknown strategy is an error; spillover reserves in the tracker.\<close>

definition selectTarget :: "Config \<Rightarrow> running \<Rightarrow> string \<Rightarrow> SelectorConfig \<Rightarrow> tracker \<Rightarrow> error + string \<times> tracker" where
  "selectTarget c run selectorID sel tr =
     (if Strategy sel = ''pin'' then (case strategyPin sel of Inl e \<Rightarrow> Inl e | Inr t \<Rightarrow> Inr (t, tr))
      else if Strategy sel = ''warm'' then (case strategyWarm c sel run of Inl e \<Rightarrow> Inl e | Inr t \<Rightarrow> Inr (t, tr))
      else if Strategy sel = ''spillover'' then strategySpillover selectorID run tr
      else Inl (ErrText (''unknown selector strategy \"'' @ Strategy sel @ ''\"'')))"

end
