(* ===== verification/Selector_Props.thy ===== *)
theory Selector_Props
  imports Selector
begin

text \<open>
  Spillover selectors of an accepted configuration: the tracker as a transition system whose steps
  are choices under any process states and releases of targets still held, the exactness of its
  counts and the optimality of its choices.
\<close>

section \<open>The tracker as a transition system\<close>

text \<open>\<open>out\<close> holds the targets of the requests being served.\<close>

inductive tracked :: "Config \<Rightarrow> SelectorConfig \<Rightarrow> spilloverState \<Rightarrow> string list \<Rightarrow> bool" for c sel where
  fresh: "tracked c sel (newTrackerState c sel) []"
| choose: "tracked c sel s out \<Longrightarrow> chooseTarget i run s = Inr (t, s') \<Longrightarrow> tracked c sel s' (t # out)"
| release: "tracked c sel s out \<Longrightarrow> t \<in> set out \<Longrightarrow> tracked c sel (releaseTarget t s) (remove1 t out)"

definition tracker_ok :: "Config \<Rightarrow> SelectorConfig \<Rightarrow> spilloverState \<Rightarrow> string list \<Rightarrow> bool" where
  "tracker_ok c sel s out \<longleftrightarrow>
     targets s = map (trackedTarget c) (Targets sel) \<and> spillover s = Spillover sel \<and>
     set out \<subseteq> target ` set (targets s) \<and>
     (\<forall>t\<in>set (targets s). inflight s (modelID t) = int (count_list out (target t)))"

lemma trackedTarget_sel [simp]: "target (trackedTarget c t) = t" "modelID (trackedTarget c t) = resolvedTarget c t"
  by (auto simp: trackedTarget_def resolvedTarget_def split: option.splits)

section \<open>The least busy target\<close>

lemma minimum_fold:
  assumes "\<forall>t\<in>set ts. 0 \<le> inflight s (modelID t)" "0 \<le> least"
  shows "fold (minimumStep s) ts least \<le> least \<and>
    (\<forall>t\<in>set ts. fold (minimumStep s) ts least \<le> inflight s (modelID t)) \<and>
    (fold (minimumStep s) ts least = least \<or> (\<exists>t\<in>set ts. inflight s (modelID t) = fold (minimumStep s) ts least))"
  using assms
proof (induction ts arbitrary: least)
  case (Cons t ts)
  let ?least = "minimumStep s t least"
  have nxt: "0 \<le> ?least" "?least \<le> least" "?least \<le> inflight s (modelID t)"
    "?least = least \<or> ?least = inflight s (modelID t)"
    using Cons.prems by (auto simp: minimumStep_def Let_def)
  have "\<forall>t\<in>set ts. 0 \<le> inflight s (modelID t)" using Cons.prems(1) by simp
  note IH = Cons.IH [OF this nxt(1)]
  then have "fold (minimumStep s) ts ?least \<le> least" "fold (minimumStep s) ts ?least \<le> inflight s (modelID t)"
    using nxt by linarith+
  with IH nxt(4) show ?case by auto
qed simp

lemma minimum_attained:
  assumes "\<forall>t\<in>set ts. 0 \<le> inflight s (modelID t)" "ts \<noteq> []"
  shows "(\<exists>t\<in>set ts. inflight s (modelID t) = minimum s ts) \<and> (\<forall>t\<in>set ts. minimum s ts \<le> inflight s (modelID t))"
proof -
  obtain t us where ts: "ts = t # us" using assms(2) by (cases ts) auto
  have "minimum s ts = fold (minimumStep s) us (inflight s (modelID t))"
    by (simp add: minimum_def ts minimumStep_def)
  then show ?thesis using minimum_fold [of us s "inflight s (modelID t)"] assms(1) by (auto simp: ts)
qed

lemma reserveLeastBusy_spec:
  assumes "\<forall>t\<in>set ts. 0 \<le> inflight s (modelID t)" "ts \<noteq> []"
  shows "\<exists>t\<in>set ts. inflight s (modelID t) = minimum s ts \<and>
    reserveLeastBusy ts s = (target t, s\<lparr>rr := rr s + 1, inflight := bump (modelID t) 1 (inflight s)\<rparr>)"
proof -
  let ?tied = "filter (\<lambda>t. inflight s (modelID t) = minimum s ts) ts"
  have "?tied \<noteq> []" using minimum_attained [OF assms] by (auto simp: filter_empty_conv)
  then have "?tied ! (unat (rr s) mod length ?tied) \<in> set ?tied" by (intro nth_mem) simp
  then show ?thesis by (auto simp: reserveLeastBusy_def reserve_def Let_def)
qed

section \<open>One choice\<close>

lemma chooseTarget_spec:
  assumes "chooseTarget i run s = Inr (n, s')" "\<forall>t\<in>set (targets s). 0 \<le> inflight s (modelID t)" "1 \<le> spillover s"
  shows "\<exists>t\<in>set (targets s). target t = n \<and> availability s run t \<noteq> Leaving \<and>
    targets s' = targets s \<and> spillover s' = spillover s \<and> inflight s' = bump (modelID t) 1 (inflight s) \<and>
    (spillover s \<le> inflight s (modelID t) \<longrightarrow>
       (\<forall>u\<in>set (targets s). availability s run u \<noteq> Cold \<and>
          (availability s run u = Active \<longrightarrow> inflight s (modelID t) \<le> inflight s (modelID u)))) \<and>
    (availability s run t = Cold \<longrightarrow>
       (\<forall>u\<in>set (targets s). availability s run u = Active \<longrightarrow> spillover s \<le> inflight s (modelID u)))"
proof -
  define act where "act = filter (\<lambda>t. availability s run t = Active) (targets s)"
  define cold where "cold = filter (\<lambda>t. availability s run t = Cold) (targets s)"
  have idle: "inflight s (modelID t) = 0" if "t \<in> set cold" for t
    using that assms(2) by (fastforce simp: cold_def availability_def split: if_splits option.splits ProcessState.splits)
  have pos: "\<forall>t\<in>set act. 0 \<le> inflight s (modelID t)" using assms(2) by (simp add: act_def)
  note def = assms(1) [unfolded chooseTarget_def Let_def, folded act_def cold_def]
  consider (none) "act = []" "cold \<noteq> []" "(n, s') = reserve (hd cold) s"
    | (spill) "act \<noteq> []" "spillover s \<le> minimum s act" "cold \<noteq> []" "(n, s') = reserve (hd cold) s"
    | (low) "act \<noteq> []" "minimum s act < spillover s" "(n, s') = reserveLeastBusy act s"
    | (full) "act \<noteq> []" "cold = []" "(n, s') = reserveLeastBusy act s"
    using def by (auto split: if_splits)
  then show ?thesis
  proof cases
    case none
    then have "hd cold \<in> set cold" by simp
    with none idle assms(3) show ?thesis
      by (intro bexI [of _ "hd cold"]) (auto simp: reserve_def cold_def act_def filter_empty_conv)
  next
    case spill
    then have "hd cold \<in> set cold" by simp
    moreover have "\<forall>u\<in>set act. spillover s \<le> inflight s (modelID u)"
      using minimum_attained [OF pos spill(1)] spill(2) by fastforce
    ultimately show ?thesis using spill idle assms(3)
      by (intro bexI [of _ "hd cold"]) (auto simp: reserve_def cold_def act_def)
  next
    case low
    from reserveLeastBusy_spec [OF pos low(1)] low minimum_attained [OF pos low(1)] show ?thesis
      by (auto simp: act_def)
  next
    case full
    from reserveLeastBusy_spec [OF pos full(1)] full minimum_attained [OF pos full(1)] show ?thesis
      by (auto simp: act_def cold_def filter_empty_conv)
  qed
qed

section \<open>The counts are exact\<close>

lemma count_list_remove1:
  "t \<in> set out \<Longrightarrow> int (count_list (remove1 t out) u) = int (count_list out u) - (if u = t then 1 else 0)"
  by (induction out) auto

lemma releaseFirst_unique:
  assumes "u \<in> set ts" "target u = tgt" "0 < c (modelID u)" "\<forall>v\<in>set ts. target v = tgt \<longrightarrow> v = u"
  shows "releaseFirst tgt ts c = bump (modelID u) (- 1) c"
  using assms
proof (induction ts)
  case (Cons v ts)
  show ?case
  proof (cases "target v = tgt")
    case True
    then have "v = u" using Cons.prems(4) by simp
    then show ?thesis using True Cons.prems(3) by simp
  next
    case False
    then have "u \<in> set ts" using Cons.prems(1,2) by auto
    moreover have "\<forall>v\<in>set ts. target v = tgt \<longrightarrow> v = u" using Cons.prems(4) by simp
    ultimately have "releaseFirst tgt ts c = bump (modelID u) (- 1) c" using Cons.IH Cons.prems(2,3) by blast
    with False show ?thesis by simp
  qed
next
  case Nil
  from Nil.prems(1) show ?case by simp
qed

lemma tracked_ok:
  assumes "tracked c sel s out" "distinct (map (resolvedTarget c) (Targets sel))" "1 \<le> Spillover sel"
  shows "tracker_ok c sel s out"
  using assms(1)
proof (induction rule: tracked.induct)
  case fresh
  show ?case by (simp add: tracker_ok_def newTrackerState_def)
next
  case (choose s out i run n s')
  from choose.IH have ts: "targets s = map (trackedTarget c) (Targets sel)" "spillover s = Spillover sel"
    and out: "set out \<subseteq> target ` set (targets s)"
    and cnt: "\<forall>t\<in>set (targets s). inflight s (modelID t) = int (count_list out (target t))"
    by (auto simp: tracker_ok_def)
  have "\<forall>t\<in>set (targets s). 0 \<le> inflight s (modelID t)" using cnt by simp
  from chooseTarget_spec [OF choose.hyps(2) this] assms(3) obtain t where
    t: "t \<in> set (targets s)" "target t = n" "targets s' = targets s" "spillover s' = spillover s"
      "inflight s' = bump (modelID t) 1 (inflight s)"
    by (auto simp: ts(2))
  have "modelID u = modelID t \<longleftrightarrow> target u = target t" if "u \<in> set (targets s)" for u
    using that t(1) assms(2) by (auto simp: ts(1) distinct_map dest: inj_onD)
  then show ?case using t out cnt ts by (auto simp: tracker_ok_def bump_apply)
next
  case (release s out n)
  from release.IH have ts: "targets s = map (trackedTarget c) (Targets sel)" "spillover s = Spillover sel"
    and out: "set out \<subseteq> target ` set (targets s)"
    and cnt: "\<forall>t\<in>set (targets s). inflight s (modelID t) = int (count_list out (target t))"
    by (auto simp: tracker_ok_def)
  from release.hyps(2) out obtain u where u: "u \<in> set (targets s)" "target u = n" by auto
  have "count_list out n \<noteq> 0" using release.hyps(2) by (simp add: count_list_0_iff)
  then have pos: "0 < inflight s (modelID u)" using cnt u by simp
  have "releaseFirst n (targets s) (inflight s) = bump (modelID u) (- 1) (inflight s)"
    by (rule releaseFirst_unique [where u = u and c = "inflight s", OF u pos]) (use u ts in auto)
  moreover have "modelID v = modelID u \<longleftrightarrow> target v = target u" if "v \<in> set (targets s)" for v
    using that u(1) assms(2) by (auto simp: ts(1) distinct_map dest: inj_onD)
  moreover have "set (remove1 n out) \<subseteq> set out" by (rule set_remove1_subset)
  moreover have "int (count_list (remove1 n out) x) = int (count_list out x) - (if x = n then 1 else 0)" for x
    by (rule count_list_remove1 [OF release.hyps(2)])
  ultimately show ?case using u(2) out cnt ts \<open>count_list out n \<noteq> 0\<close>
    by (auto simp: tracker_ok_def releaseTarget_def bump_apply of_nat_diff)
qed

lemma accepted_selector:
  assumes "LoadConfig env c0 = Inr c" "(i, sel) \<in> set (Selectors c)" "Strategy sel = ''spillover''"
  shows "distinct (map (resolvedTarget c) (Targets sel)) \<and> 1 \<le> Spillover sel"
proof -
  from assms(1) have "validateSelectors c = None" by (rule LoadConfig_Inr)
  from checkSelector_spillover [OF checkSelectors [OF this assms(2)] assms(3)] show ?thesis by blast
qed

section \<open>A run\<close>

definition sampleSel :: SelectorConfig where
  "sampleSel = \<lparr>Strategy = ''spillover'', Targets = [''x'', ''y'', ''far/m''], Spillover = 1\<rparr>"

definition sampleRunning :: running where
  "sampleRunning = [''x'' \<mapsto> StateReady, ''y'' \<mapsto> StateStopping]"

text \<open>The first request goes to the running model; it is at its limit then, and the second one goes to
  the peer, the other local model being stopped at that moment.\<close>

lemma sample_choices:
  "case LoadConfig sampleEnv sampleConfig of
     Inl _ \<Rightarrow> False
   | Inr c \<Rightarrow>
       (case chooseTarget ''any'' sampleRunning (newTrackerState c sampleSel) of
          Inl _ \<Rightarrow> False
        | Inr (n, s) \<Rightarrow> n = ''x'' \<and>
            (case chooseTarget ''any'' sampleRunning s of
               Inl _ \<Rightarrow> False
             | Inr (m, s') \<Rightarrow> m = ''far/m'' \<and>
                 map (\<lambda>t. (target t, inflight s' (modelID t))) (targets s') = [(''x'', 1), (''y'', 0), (''far/m'', 1)]))"
  by code_simp

lemma sampleSel_listed: "(''any'', sampleSel) \<in> set (Selectors sampleLoaded)"
  using sampleLoaded_facts by (simp add: sampleConfig_def sampleSel_def)

lemma sample_tracked:
  obtains s s' where "tracked sampleLoaded sampleSel s [''x'']" "chooseTarget ''any'' sampleRunning s = Inr (''far/m'', s')"
    "map (\<lambda>t. (target t, inflight s' (modelID t))) (targets s') = [(''x'', 1), (''y'', 0), (''far/m'', 1)]"
proof -
  obtain n s where c: "chooseTarget ''any'' sampleRunning (newTrackerState sampleLoaded sampleSel) = Inr (n, s)"
    using sample_choices by (cases "chooseTarget ''any'' sampleRunning (newTrackerState sampleLoaded sampleSel)") (auto simp: sample_loads)
  obtain m s' where d: "chooseTarget ''any'' sampleRunning s = Inr (m, s')"
    using sample_choices by (cases "chooseTarget ''any'' sampleRunning s") (auto simp: sample_loads c)
  have "n = ''x''" "m = ''far/m''"
    "map (\<lambda>t. (target t, inflight s' (modelID t))) (targets s') = [(''x'', 1), (''y'', 0), (''far/m'', 1)]"
    using sample_choices by (simp_all add: sample_loads c d)
  with c d have s: "chooseTarget ''any'' sampleRunning (newTrackerState sampleLoaded sampleSel) = Inr (''x'', s)"
    and s': "chooseTarget ''any'' sampleRunning s = Inr (''far/m'', s')"
      "map (\<lambda>t. (target t, inflight s' (modelID t))) (targets s') = [(''x'', 1), (''y'', 0), (''far/m'', 1)]"
    by simp_all
  show thesis by (rule that [OF tracked.choose [OF tracked.fresh s] s'])
qed

section \<open>Properties\<close>

text \<open>C22: The counts of a spillover selector of an accepted configuration are exact: after any
  choices and releases the count of a target's model is the number of requests holding that target.\<close>

theorem spillover_counts_exact:
  assumes "LoadConfig env c0 = Inr c" "(i, sel) \<in> set (Selectors c)" "Strategy sel = ''spillover''"
    "tracked c sel s out" "t \<in> set (targets s)"
  shows "inflight s (modelID t) = int (count_list out (target t)) \<and> set out \<subseteq> set (Targets sel)"
  using tracked_ok [OF assms(4)] accepted_selector [OF assms(1-3)] assms(5) by (auto simp: tracker_ok_def image_image)

theorem spillover_counts_exact_witness:
  "\<exists>s t. tracked sampleLoaded sampleSel s [''x''] \<and> t \<in> set (targets s) \<and> inflight s (modelID t) = int (count_list [''x''] (target t))"
proof -
  obtain s where s: "tracked sampleLoaded sampleSel s [''x'']" by (rule sample_tracked)
  then have "targets s = map (trackedTarget sampleLoaded) [''x'', ''y'', ''far/m'']"
    using tracked_ok [OF s] accepted_selector [OF sample_loads sampleSel_listed]
    by (simp add: tracker_ok_def sampleSel_def)
  then have t: "trackedTarget sampleLoaded ''x'' \<in> set (targets s)" by simp
  have "Strategy sampleSel = ''spillover''" by (simp add: sampleSel_def)
  from spillover_counts_exact [OF sample_loads sampleSel_listed this s t] s t show ?thesis by blast
qed



end
