(* ===== verification/Process_Command.thy ===== *)
theory Process_Command
  imports Go_Std
begin

text \<open>
  \<^verbatim>\<open>internal/process/process_command.go\<close>: the goroutine \<^verbatim>\<open>run\<close> that owns one upstream process.
  It waits in one of two \<^verbatim>\<open>select\<close> statements, the main one or the one of a start in progress;
  each case is a definition and \<open>handle\<close> dispatches an event to the case that receives it. The
  variables \<^verbatim>\<open>cmd\<close>, \<^verbatim>\<open>cmdDone\<close> and \<^verbatim>\<open>cmdCancel\<close> are set and cleared together and are one field.
  A reply is a send on the channel of a request, which has room for one value.
\<close>

section \<open>State\<close>

text \<open>\<open>Select\<close> is the main loop, \<open>InStart\<close> the wait for \<^verbatim>\<open>doStart\<close> with the request being served,
  \<open>Returned\<close> the end of the goroutine.\<close>

datatype phase = Select | InStart nat bool | Returned

datatype proc_signal = StopSignal nat | KillTree nat

record Proc =
  pstate :: ProcessState
  cmd :: "nat option"
  handler :: bool
  readyWaiters :: "nat list"
  runResp :: "nat option"
  phase :: phase
  replies :: "(nat \<times> error option) list"
  alive :: "nat list"
  spawned :: nat
  signals :: "proc_signal list"
  changes :: "(ProcessState \<times> ProcessState) list"

definition NewProc :: Proc where
  "NewProc = \<lparr>pstate = StateStopped, cmd = None, handler = False, readyWaiters = [], runResp = None,
     phase = Select, replies = [], alive = [], spawned = 0, signals = [], changes = []\<rparr>"

definition ErrStartAborted :: error where "ErrStartAborted = ErrText ''aborted''"

definition procErr :: "string \<Rightarrow> string \<Rightarrow> error" where
  "procErr i msg = ErrText (''['' @ i @ ''] '' @ msg)"

fun stateName :: "ProcessState \<Rightarrow> string" where
  "stateName StateStopped = ''stopped''"
| "stateName StateStarting = ''starting''"
| "stateName StateReady = ''ready''"
| "stateName StateStopping = ''stopping''"
| "stateName StateShutdown = ''shutdown''"

section \<open>Closures of the loop\<close>

definition setState :: "ProcessState \<Rightarrow> Proc \<Rightarrow> Proc" where
  "setState s p = p\<lparr>pstate := s, changes := changes p @ (if pstate p \<noteq> s then [(pstate p, s)] else [])\<rparr>"

definition reply :: "nat \<Rightarrow> error option \<Rightarrow> Proc \<Rightarrow> Proc" where
  "reply r e p = p\<lparr>replies := replies p @ [(r, e)]\<rparr>"

definition notifyWaiters :: "error option \<Rightarrow> Proc \<Rightarrow> Proc" where
  "notifyWaiters e p = p\<lparr>replies := replies p @ map (\<lambda>w. (w, e)) (readyWaiters p), readyWaiters := []\<rparr>"

definition respondRun :: "error option \<Rightarrow> Proc \<Rightarrow> Proc" where
  "respondRun e p = (case runResp p of None \<Rightarrow> p | Some r \<Rightarrow> (reply r e p)\<lparr>runResp := None\<rparr>)"

text \<open>\<^verbatim>\<open>killProcess\<close> returns when the process is reaped: it sends the stop signal, and kills the tree
  when the graceful timeout passes first.\<close>

definition killProcess :: "nat \<Rightarrow> bool \<Rightarrow> Proc \<Rightarrow> Proc" where
  "killProcess pid inTime p =
     p\<lparr>alive := removeAll pid (alive p),
       signals := signals p @ [StopSignal pid] @ (if inTime then [] else [KillTree pid])\<rparr>"

definition killCmd :: "bool \<Rightarrow> Proc \<Rightarrow> Proc" where
  "killCmd inTime p = (case cmd p of None \<Rightarrow> p | Some pid \<Rightarrow> (killProcess pid inTime p)\<lparr>cmd := None\<rparr>)"

section \<open>Starting\<close>

text \<open>What \<^verbatim>\<open>doStart\<close> observes. Each waiting \<^verbatim>\<open>select\<close> ends by the cancelled context, by the exit of
  the process, or by its timer; a poll is one round of the health check.\<close>

datatype wait_end = WaitCancelled | WaitExited | WaitElapsed

record poll =
  beforePoll :: wait_end
  pastDeadline :: bool
  statusOK :: bool
  cancelledDuring :: bool
  afterPoll :: wait_end

record start_obs =
  sanitizeError :: "string option"
  proxyParseError :: "string option"
  commandText :: string
  spawnError :: "string option"
  cancelledAtOnce :: bool
  cancelledInGrace :: bool
  polls :: "poll list"
  timeoutText :: string

datatype start_end = Serving | AbortStart error | ExitedEarly

fun healthLoop :: "string \<Rightarrow> poll list \<Rightarrow> start_end option" where
  "healthLoop t [] = None"
| "healthLoop t (o1 # os) =
     (case beforePoll o1 of
        WaitCancelled \<Rightarrow> Some (AbortStart ErrStartAborted)
      | WaitExited \<Rightarrow> Some ExitedEarly
      | WaitElapsed \<Rightarrow>
          if pastDeadline o1 then Some (AbortStart (ErrText (''health check timed out after '' @ t)))
          else if statusOK o1 then Some Serving
          else if cancelledDuring o1 then Some (AbortStart ErrStartAborted)
          else case afterPoll o1 of
                 WaitCancelled \<Rightarrow> Some (AbortStart ErrStartAborted)
               | WaitExited \<Rightarrow> Some ExitedEarly
               | WaitElapsed \<Rightarrow> healthLoop t os)"

text \<open>The result is the new process or the error; \<open>None\<close> while the health check goes on. A process
  that was spawned and does not serve is gone when \<^verbatim>\<open>doStart\<close> returns.\<close>

definition doStart :: "ModelConfig \<Rightarrow> start_obs \<Rightarrow> Proc \<Rightarrow> ((error + nat) \<times> Proc) option" where
  "doStart cfg obs p =
     (if Proxy cfg = [] then Some (Inl (ErrText ''upstream proxy missing''), p)
      else case sanitizeError obs of
        Some e \<Rightarrow> Some (Inl (ErrText (''unable to get sanitized command: '' @ e)), p)
      | None \<Rightarrow>
      (case proxyParseError obs of
        Some e \<Rightarrow> Some (Inl (ErrText (''invalid proxy URL '' @ [CHR 0x22] @ Proxy cfg @ [CHR 0x22] @ '': '' @ e)), p)
      | None \<Rightarrow>
      (case spawnError obs of
        Some e \<Rightarrow> Some (Inl (ErrText (''failed to start command '' @ [CHR 0x27] @ commandText obs @ [CHR 0x27] @ '': '' @ e)), p)
      | None \<Rightarrow>
          let pid = spawned p;
              q = p\<lparr>spawned := Suc pid, alive := pid # alive p\<rparr>;
              outcome = (if cancelledAtOnce obs then Some (AbortStart ErrStartAborted)
                         else if trimSpace (CheckEndpoint cfg) = ''none'' then Some Serving
                         else if cancelledInGrace obs then Some (AbortStart ErrStartAborted)
                         else healthLoop (timeoutText obs) (polls obs)) in
          case outcome of
            None \<Rightarrow> None
          | Some Serving \<Rightarrow> Some (Inr pid, q)
          | Some (AbortStart e) \<Rightarrow> Some (Inl e, killProcess pid True q)
          | Some ExitedEarly \<Rightarrow>
              Some (Inl (ErrText ''upstream command exited prematurely''), q\<lparr>alive := removeAll pid (alive q)\<rparr>))))"

section \<open>Cases of the two selects\<close>

text \<open>Main select: parent context, exit of the upstream, \<^verbatim>\<open>waitReadyCh\<close>, \<^verbatim>\<open>startCh\<close>, \<^verbatim>\<open>stopCh\<close>.\<close>

definition onParentDone :: "string \<Rightarrow> bool \<Rightarrow> Proc \<Rightarrow> Proc" where
  "onParentDone i inTime p =
     (let p1 = setState StateShutdown p;
          p2 = (if cmd p1 \<noteq> None then killCmd inTime (p1\<lparr>handler := False\<rparr>) else p1);
          e = Some (procErr i ''shutdown'') in
      (respondRun e (notifyWaiters e p2))\<lparr>phase := Returned\<rparr>)"

definition onCmdDone :: "string \<Rightarrow> Proc \<Rightarrow> Proc" where
  "onCmdDone i p =
     (let e = Some (procErr i ''upstream exited unexpectedly'') in
      respondRun e (notifyWaiters e (setState StateStopped (p\<lparr>cmd := None, handler := False\<rparr>))))"

definition onWaitReady :: "string \<Rightarrow> nat \<Rightarrow> Proc \<Rightarrow> Proc" where
  "onWaitReady i r p =
     (case pstate p of
        StateReady \<Rightarrow> reply r None p
      | StateShutdown \<Rightarrow> reply r (Some (procErr i ''shutdown'')) p
      | _ \<Rightarrow> p\<lparr>readyWaiters := readyWaiters p @ [r]\<rparr>)"

definition onStart :: "string \<Rightarrow> nat \<Rightarrow> bool \<Rightarrow> Proc \<Rightarrow> Proc" where
  "onStart i r block p =
     (if \<not> block \<and> pstate p = StateReady then reply r None p
      else if \<not> block \<and> pstate p = StateShutdown then reply r (Some (procErr i ''shutdown'')) p
      else if pstate p \<noteq> StateStopped
      then reply r (Some (procErr i (''could not be started in '' @ stateName (pstate p) @ '' state''))) p
      else (setState StateStarting p)\<lparr>phase := InStart r block\<rparr>)"

definition onStop :: "string \<Rightarrow> nat \<Rightarrow> bool \<Rightarrow> Proc \<Rightarrow> Proc" where
  "onStop i r inTime p =
     (let toreDown = (cmd p \<noteq> None);
          p1 = (if toreDown then (killCmd inTime (setState StateStopping p))\<lparr>handler := False\<rparr> else p);
          p2 = setState StateStopped p1;
          p3 = (if toreDown then notifyWaiters (Some (procErr i ''stopped'')) p2 else p2) in
      reply r None (respondRun None p3))"

text \<open>Select of a start: its result, \<^verbatim>\<open>stopCh\<close>, parent context. The last two cancel the start and
  wait for its result.\<close>

definition onStarted :: "(error + nat) \<Rightarrow> nat \<Rightarrow> bool \<Rightarrow> Proc \<Rightarrow> Proc" where
  "onStarted res r block p =
     (case res of
        Inr pid \<Rightarrow>
          (let p1 = notifyWaiters None (setState StateReady (p\<lparr>cmd := Some pid, handler := True\<rparr>)) in
           if block then p1\<lparr>runResp := Some r\<rparr> else reply r None p1)
      | Inl e \<Rightarrow> reply r (Some e) (notifyWaiters (Some e) (setState StateStopped p)))\<lparr>phase := Select\<rparr>"

definition killResult :: "(error + nat) \<Rightarrow> bool \<Rightarrow> Proc \<Rightarrow> Proc" where
  "killResult res inTime p = (case res of Inr pid \<Rightarrow> killProcess pid inTime p | Inl _ \<Rightarrow> p)"

definition onStopInStart :: "(error + nat) \<Rightarrow> nat \<Rightarrow> nat \<Rightarrow> bool \<Rightarrow> Proc \<Rightarrow> Proc" where
  "onStopInStart res r stop inTime p =
     (let p1 = setState StateStopped (killResult res inTime p);
          p2 = reply r (Some ErrStartAborted) (notifyWaiters (Some ErrStartAborted) p1) in
      (reply stop None p2)\<lparr>phase := Select\<rparr>)"

definition onParentDoneInStart :: "string \<Rightarrow> (error + nat) \<Rightarrow> bool \<Rightarrow> Proc \<Rightarrow> Proc" where
  "onParentDoneInStart i res inTime p =
     (let e = Some (procErr i ''shutdown'') in
      (respondRun e (notifyWaiters e (killResult res inTime (setState StateShutdown p))))\<lparr>phase := Returned\<rparr>)"

section \<open>Events\<close>

text \<open>\<open>EvExit\<close> is the operating system's: the recorded process ends by itself; \<open>EvCmdDone\<close> is the
  loop learning of it.\<close>

datatype proc_event =
    EvParentDone bool
  | EvExit
  | EvCmdDone
  | EvWaitReady nat
  | EvStart nat bool
  | EvStop nat bool
  | EvStarted start_obs
  | EvStopInStart nat start_obs bool
  | EvParentDoneInStart start_obs bool

definition handle :: "string \<Rightarrow> ModelConfig \<Rightarrow> proc_event \<Rightarrow> Proc \<Rightarrow> Proc option" where
  "handle i cfg ev p =
     (case phase p of
        Returned \<Rightarrow> None
      | Select \<Rightarrow>
          (case ev of
             EvParentDone inTime \<Rightarrow> Some (onParentDone i inTime p)
           | EvExit \<Rightarrow> map_option (\<lambda>pid. p\<lparr>alive := removeAll pid (alive p)\<rparr>) (cmd p)
           | EvCmdDone \<Rightarrow>
               (case cmd p of
                  Some pid \<Rightarrow> if pid \<in> set (alive p) then None else Some (onCmdDone i p)
                | None \<Rightarrow> None)
           | EvWaitReady r \<Rightarrow> Some (onWaitReady i r p)
           | EvStart r block \<Rightarrow> Some (onStart i r block p)
           | EvStop r inTime \<Rightarrow> Some (onStop i r inTime p)
           | _ \<Rightarrow> None)
      | InStart r block \<Rightarrow>
          (case ev of
             EvStarted obs \<Rightarrow> map_option (\<lambda>(res, q). onStarted res r block q) (doStart cfg obs p)
           | EvStopInStart stop obs inTime \<Rightarrow>
               map_option (\<lambda>(res, q). onStopInStart res r stop inTime q) (doStart cfg obs p)
           | EvParentDoneInStart obs inTime \<Rightarrow>
               map_option (\<lambda>(res, q). onParentDoneInStart i res inTime q) (doStart cfg obs p)
           | _ \<Rightarrow> None))"

section \<open>Requests outside the loop\<close>

text \<open>The ticker of the idle timer, one tick: whether it ends, waits or stops the process.\<close>

datatype ttl_tick = TickQuit | TickWait | TickStop

definition ttlTick :: "ModelConfig \<Rightarrow> ProcessState \<Rightarrow> int \<Rightarrow> int \<Rightarrow> ttl_tick" where
  "ttlTick cfg st inflight idle =
     (if st \<noteq> StateReady then TickQuit
      else if inflight \<noteq> 0 then TickWait
      else if idle > UnloadAfter cfg * 1000000000 then TickStop
      else TickWait)"

text \<open>\<^verbatim>\<open>ServeHTTP\<close>: the status it answers itself, or the upstream handler.\<close>

definition serveStatus :: "Proc \<Rightarrow> int option" where
  "serveStatus p = (if \<not> handler p then Some 503 else None)"

end
