(* ===== verification/Router_Base.thy ===== *)
theory Router_Base
  imports Swapper Process_Command Provider_Manager Config_Data
begin

text \<open>
  \<^verbatim>\<open>internal/router/base.go\<close> and \<^verbatim>\<open>internal/process/provider_model.go\<close>: what the scheduler's
  effects do. The world the scheduler carries holds the router's processes, each an upstream command
  with its run loop or a model of a provider manager; the callers waiting for an answer; the handlers
  running; and the swap goroutines. The outcomes the code cannot choose (whether a caller is still
  there, what a starting command goes through, whether it stops in time, the order in which parallel
  stops happen) are fields of the world that its environment sets.
\<close>

section \<open>The world of the router\<close>

datatype backend = Command ModelConfig Proc | Provided string

record 'w World =
  processes :: "(string \<times> backend) list"
  wmanagers :: "string \<rightharpoonup> 'w Manager"
  listening :: "nat \<Rightarrow> bool"
  admitting :: "nat \<Rightarrow> bool"
  starting :: "string \<Rightarrow> start_obs"
  inTime :: "string \<Rightarrow> bool"
  arrange :: "string list \<Rightarrow> string list"
  clock :: int
  down :: bool
  responses :: "(nat \<times> (error + string)) list"
  admissions :: "(nat \<times> error option) list"
  metadata :: "(nat \<times> string \<times> string) list"
  handling :: "(nat \<times> string) list"
  ended :: "string list"
  launched :: "(string \<times> string list) list"
  reported :: "(string \<times> error option) list"

text \<open>A start the environment has set nothing for yet.\<close>

definition noStart :: start_obs where
  "noStart = \<lparr>sanitizeError = None, proxyParseError = None, commandText = [], spawnError = None,
     cancelledAtOnce = False, cancelledInGrace = False, polls = [], timeoutText = []\<rparr>"

definition setBackend :: "string \<Rightarrow> backend \<Rightarrow> 'w World \<Rightarrow> 'w World" where
  "setBackend i b w = w\<lparr>processes := AList.update i b (processes w)\<rparr>"

definition onManager :: "string \<Rightarrow> ('w Manager \<Rightarrow> 'r \<times> 'w Manager) \<Rightarrow> 'r \<Rightarrow> 'w World \<Rightarrow> 'r \<times> 'w World" where
  "onManager n f none w =
     (case wmanagers w n of
        None \<Rightarrow> (none, w)
      | Some m \<Rightarrow> let (r, m') = f m in (r, w\<lparr>wmanagers := (wmanagers w)(n \<mapsto> m')\<rparr>))"

definition providerOf :: "'w World \<Rightarrow> string \<Rightarrow> string option" where
  "providerOf w i = (case map_of (processes w) i of Some (Provided n) \<Rightarrow> Some n | _ \<Rightarrow> None)"

definition onProvider :: "string \<Rightarrow> ('w Manager \<Rightarrow> 'w Manager) \<Rightarrow> 'w World \<Rightarrow> 'w World" where
  "onProvider i f w =
     (case providerOf w i of None \<Rightarrow> w | Some n \<Rightarrow> snd (onManager n (\<lambda>m. ((), f m)) () w))"

section \<open>Building the processes\<close>

text \<open>\<^verbatim>\<open>newConfiguredProcess\<close> and the loops of \<^verbatim>\<open>NewGroupWithProviders\<close> and \<^verbatim>\<open>NewMatrixWithProviders\<close> that
  call it: every entry is a model the router handles with its configuration.\<close>

definition newConfiguredProcess :: "'w Registry option \<Rightarrow> string \<Rightarrow> ModelConfig \<Rightarrow> error + backend" where
  "newConfiguredProcess reg i mc =
     (if Provider mc = [] then Inr (Command mc NewProc)
      else case reg of
             None \<Rightarrow> Inl (ErrText (''provider registry is required for model \"'' @ i @ ''\"''))
           | Some r \<Rightarrow>
               (case ManagerForModel i r of
                  None \<Rightarrow> Inl (ErrText (''provider manager not found for model \"'' @ i @ ''\"''))
                | Some m \<Rightarrow> Inr (Provided (case managerOf r i of Some n \<Rightarrow> n | None \<Rightarrow> []))))"

fun buildProcesses :: "'w Registry option \<Rightarrow> (string \<times> ModelConfig option) list \<Rightarrow> error + (string \<times> backend) list" where
  "buildProcesses reg [] = Inr []"
| "buildProcesses reg ((i, None) # xs) = Inl (ErrText (''no model config for \"'' @ i @ ''\"''))"
| "buildProcesses reg ((i, Some mc) # xs) =
     (case newConfiguredProcess reg i mc of
        Inl e \<Rightarrow> Inl (ErrText (''creating process for \"'' @ i @ ''\": '' @ errString e))
      | Inr b \<Rightarrow> map_sum id (\<lambda>bs. (i, b) # bs) (buildProcesses reg xs))"

definition groupProcesses :: "'w Registry option \<Rightarrow> Config \<Rightarrow> error + (string \<times> backend) list" where
  "groupProcesses reg c =
     (let gs = SettingsGroups (Routing c) in
      case newGroupSwapper gs of
        Inl e \<Rightarrow> Inl e
      | Inr p \<Rightarrow> buildProcesses reg
          (map (\<lambda>i. (i, map_option fst (FindConfig c i))) (concat (map (Members \<circ> snd) gs))))"

definition matrixProcesses :: "'w Registry option \<Rightarrow> Config \<Rightarrow> error + (string \<times> backend) list" where
  "matrixProcesses reg c = buildProcesses reg (map (\<lambda>(i, mc). (i, Some mc)) (Models c))"

definition newWorld :: "'w Registry option \<Rightarrow> (string \<times> backend) list \<Rightarrow> 'w World" where
  "newWorld reg procs =
     \<lparr>processes = procs, wmanagers = (case reg of None \<Rightarrow> Map.empty | Some r \<Rightarrow> map_of (managers r)),
      listening = (\<lambda>_. False), admitting = (\<lambda>_. False), starting = (\<lambda>_. noStart), inTime = (\<lambda>_. True), arrange = id,
      clock = 0, down = False, responses = [], admissions = [], metadata = [], handling = [], ended = [],
      launched = [], reported = []\<rparr>"

text \<open>What other goroutines do during a transition of a manager, except for leases: those are taken and
  returned by the router's own steps.\<close>

definition noLeases :: "'w Lifecycle \<Rightarrow> 'w Lifecycle" where
  "noLeases cl = cl\<lparr>Meanwhile := (\<lambda>w. let (cs, w') = Meanwhile cl w in
     (filter (\<lambda>c. case c of ConcAcquire _ \<Rightarrow> False | ConcRelease _ \<Rightarrow> False | _ \<Rightarrow> True) cs, w'))\<rparr>"

section \<open>Provider models as processes\<close>

fun providerState :: "ModelState option \<Rightarrow> ProcessState" where
  "providerState (Some Loading) = StateStarting"
| "providerState (Some Ready) = StateReady"
| "providerState (Some Busy) = StateReady"
| "providerState (Some Unloading) = StateStopping"
| "providerState _ = StateStopped"

definition backendState :: "'w World \<Rightarrow> string \<Rightarrow> backend \<Rightarrow> ProcessState" where
  "backendState w i b =
     (case b of
        Command mc p \<Rightarrow> pstate p
      | Provided n \<Rightarrow> (case wmanagers w n of None \<Rightarrow> StateStopped | Some m \<Rightarrow> providerState (MState i m)))"

section \<open>Commands: the client side of a stop and a start\<close>

text \<open>
  A client sends its request with a channel of its own and waits for the answer. A loop waiting for a
  start takes a stop at once, having cancelled the start, so the next wait of the start ends; it takes
  another start only when this one is over, which the deadline guarantees.
\<close>

definition freshReq :: "Proc \<Rightarrow> nat" where
  "freshReq p = Suc (fold max (map fst (replies p) @ readyWaiters p @
     (case runResp p of None \<Rightarrow> [] | Some r \<Rightarrow> [r]) @ (case phase p of InStart r _ \<Rightarrow> [r] | _ \<Rightarrow> [])) 0)"

definition answerOf :: "nat \<Rightarrow> Proc \<Rightarrow> error option" where
  "answerOf r p = (case map_of (replies p) r of Some e \<Rightarrow> e | None \<Rightarrow> None)"

definition cancelledStart :: "start_obs \<Rightarrow> start_obs" where
  "cancelledStart obs = obs\<lparr>polls := polls obs @
     [\<lparr>beforePoll = WaitCancelled, pastDeadline = False, statusOK = False, cancelledDuring = True, afterPoll = WaitCancelled\<rparr>]\<rparr>"

definition boundedStart :: "start_obs \<Rightarrow> start_obs" where
  "boundedStart obs = obs\<lparr>polls := polls obs @
     [\<lparr>beforePoll = WaitElapsed, pastDeadline = True, statusOK = False, cancelledDuring = False, afterPoll = WaitElapsed\<rparr>]\<rparr>"

definition step :: "string \<Rightarrow> ModelConfig \<Rightarrow> proc_event \<Rightarrow> Proc \<Rightarrow> Proc" where
  "step i mc ev p = (case Process_Command.handle i mc ev p of Some q \<Rightarrow> q | None \<Rightarrow> p)"

definition stopCommand :: "string \<Rightarrow> ModelConfig \<Rightarrow> start_obs \<Rightarrow> bool \<Rightarrow> Proc \<Rightarrow> error option \<times> Proc" where
  "stopCommand i mc obs ontime p =
     (let r = freshReq p in
      case phase p of
        Returned \<Rightarrow> (Some (procErr i ''shutdown''), p)
      | Select \<Rightarrow> let q = step i mc (EvStop r ontime) p in (answerOf r q, q)
      | InStart _ _ \<Rightarrow> let q = step i mc (EvStopInStart r (cancelledStart obs) ontime) p in (answerOf r q, q))"

definition settle :: "string \<Rightarrow> ModelConfig \<Rightarrow> start_obs \<Rightarrow> Proc \<Rightarrow> Proc" where
  "settle i mc obs p = (case phase p of InStart _ _ \<Rightarrow> step i mc (EvStarted (boundedStart obs)) p | _ \<Rightarrow> p)"

definition ensureCommand :: "string \<Rightarrow> ModelConfig \<Rightarrow> start_obs \<Rightarrow> Proc \<Rightarrow> error option \<times> Proc" where
  "ensureCommand i mc obs p0 =
     (let p = settle i mc obs p0; r = freshReq p in
      if phase p = Returned then (Some (procErr i ''shutdown''), p)
      else let q = settle i mc obs (step i mc (EvStart r False) p) in (answerOf r q, q))"

definition cancelCommand :: "string \<Rightarrow> ModelConfig \<Rightarrow> start_obs \<Rightarrow> bool \<Rightarrow> Proc \<Rightarrow> Proc" where
  "cancelCommand i mc obs ontime p =
     (case phase p of
        Returned \<Rightarrow> p
      | Select \<Rightarrow> step i mc (EvParentDone ontime) p
      | InStart _ _ \<Rightarrow> step i mc (EvParentDoneInStart (cancelledStart obs) ontime) p)"

section \<open>Stop and EnsureReady of a process\<close>

definition stopBackend :: "(string \<Rightarrow> 'w Lifecycle) \<Rightarrow> string \<Rightarrow> 'w World \<Rightarrow> 'w World" where
  "stopBackend cls i w =
     (case map_of (processes w) i of
        None \<Rightarrow> w
      | Some (Command mc p) \<Rightarrow> setBackend i (Command mc (snd (stopCommand i mc (starting w i) (inTime w i) p))) w
      | Some (Provided n) \<Rightarrow> snd (onManager n (Unload (noLeases (cls n)) i) None w))"

definition ensureBackend :: "(string \<Rightarrow> 'w Lifecycle) \<Rightarrow> string \<Rightarrow> backend \<Rightarrow> 'w World \<Rightarrow> error option \<times> 'w World" where
  "ensureBackend cls i b w =
     (case b of
        Command mc p \<Rightarrow> let (e, q) = ensureCommand i mc (starting w i) p in (e, setBackend i (Command mc q) w)
      | Provided n \<Rightarrow> onManager n (Load (noLeases (cls n)) i) None w)"

section \<open>Effects\<close>

definition grant :: "HandlerReq \<Rightarrow> error + string \<Rightarrow> 'w World \<Rightarrow> bool \<times> 'w World" where
  "grant req resp w =
     (if listening w (Respond req)
      then (True, w\<lparr>listening := (listening w)(Respond req := False), responses := responses w @ [(Respond req, resp)]\<rparr>)
      else (False, w))"

text \<open>The caller that receives the tracked handler runs it.\<close>

definition grantTracked :: "HandlerReq \<Rightarrow> string \<Rightarrow> 'w World \<Rightarrow> bool \<times> 'w World" where
  "grantTracked req m w =
     (let (ok, w1) = grant req (Inr m) w in
      (ok, if ok then w1\<lparr>handling := (Respond req, m) # handling w1\<rparr> else w1))"

definition grantServe :: "HandlerReq \<Rightarrow> string \<Rightarrow> 'w World \<Rightarrow> bool \<times> 'w World" where
  "grantServe req m w =
     (case providerOf w m of
        None \<Rightarrow> grantTracked req m w
      | Some n \<Rightarrow>
          (let (leased, w1) = onManager n (Acquire m) False w in
           if \<not> leased
           then (False, snd (grant req (Inl (ProviderError [] ''model_transitioning''
                   ''provider model is changing residency'' 503)) w1))
           else let (ok, w2) = grantTracked req m w1 in
                if \<not> ok then (False, onProvider m (Release m) w2) else (True, w2)))"

definition startSwapIn :: "string \<Rightarrow> string list \<Rightarrow> 'w World \<Rightarrow> 'w World" where
  "startSwapIn m ev w = (onProvider m (BeginSwap m ev) w)\<lparr>launched := launched w @ [(m, ev)]\<rparr>"

definition stopProcesses :: "(string \<Rightarrow> 'w Lifecycle) \<Rightarrow> string list \<Rightarrow> 'w World \<Rightarrow> 'w World" where
  "stopProcesses cls ids w = fold (stopBackend cls) (arrange w ids) w"

definition runningModels :: "'w World \<Rightarrow> (string \<times> ProcessState) list" where
  "runningModels w =
     filter (\<lambda>(i, st). st \<noteq> StateStopped \<and> st \<noteq> StateShutdown)
       (map (\<lambda>(i, b). (i, backendState w i b)) (processes w))"

definition modelStateIn :: "'w World \<Rightarrow> string \<Rightarrow> ProcessState option" where
  "modelStateIn w i = map_option (backendState w i) (map_of (processes w) i)"

definition routerFx :: "(string \<Rightarrow> 'w Lifecycle) \<Rightarrow> ('w World \<Rightarrow> string \<Rightarrow> string list \<Rightarrow> string list) \<Rightarrow> 'w World Effects" where
  "routerFx cls planner =
     \<lparr>Effects.ModelState = modelStateIn,
      RunningModels = runningModels,
      StartSwap = startSwapIn,
      GrantError = (\<lambda>req e w. snd (grant req (Inl e) w)),
      GrantServe = grantServe,
      StopProcesses = (\<lambda>timeout. stopProcesses cls),
      QueueDelta = (\<lambda>m d. onProvider m (MQueueDelta m d)),
      QueueWait = (\<lambda>m d w. w),
      ResidentAdmission = (\<lambda>m. onProvider m MResidentAdmission),
      FairnessPromotion = (\<lambda>m. onProvider m MFairnessPromotion),
      EvictionFor = planner,
      OnSwapStart = (\<lambda>m running w. w),
      SendAdmit = (\<lambda>req e w. if admitting w (Respond req)
                     then (True, w\<lparr>admissions := admissions w @ [(Respond req, e)]\<rparr>) else (False, w)),
      SetReqData = (\<lambda>req k v w. w\<lparr>metadata := metadata w @ [(Respond req, k, v)]\<rparr>),
      Now = clock\<rparr>"

section \<open>Handlers and swaps, outside the loop\<close>

text \<open>The deferred function of \<^verbatim>\<open>trackedServe\<close>: release the lease, then report to the loop.\<close>

definition endHandler :: "nat \<times> string \<Rightarrow> 'w World \<Rightarrow> 'w World" where
  "endHandler h w =
     (let w1 = onProvider (snd h) (Release (snd h)) (w\<lparr>handling := remove1 h (handling w)\<rparr>)
      in w1\<lparr>ended := snd h # ended w1\<rparr>)"

text \<open>The managers a swap empties: the target is no provider model, and all a manager holds is evicted.\<close>

definition emptied :: "string \<Rightarrow> string list \<Rightarrow> 'w World \<Rightarrow> string list" where
  "emptied target toStop w =
     (if providerOf w target \<noteq> None then []
      else remdups (filter (\<lambda>n. case wmanagers w n of
                               None \<Rightarrow> False
                             | Some m \<Rightarrow> set (ResidentAliasesAll m) \<subseteq> set toStop)
             (List.map_filter (providerOf w) toStop)))"

definition singleStops :: "string list \<Rightarrow> string list \<Rightarrow> 'w World \<Rightarrow> string list" where
  "singleStops toStop cleared w =
     filter (\<lambda>i. case providerOf w i of Some n \<Rightarrow> n \<notin> set cleared | None \<Rightarrow> True) toStop"

definition swapStops :: "(string \<Rightarrow> 'w Lifecycle) \<Rightarrow> string \<Rightarrow> string list \<Rightarrow> 'w World \<Rightarrow> 'w World" where
  "swapStops cls target toStop w =
     (let cleared = emptied target toStop w in
      fold (\<lambda>n. snd \<circ> onManager n (UnloadAll (noLeases (cls n))) None) cleared
        (fold (stopBackend cls) (arrange w (singleStops toStop cleared w)) w))"

text \<open>A model without a process is a nil interface, and stopping or starting it a panic.\<close>

definition doSwap :: "(string \<Rightarrow> 'w Lifecycle) \<Rightarrow> string \<Rightarrow> string list \<Rightarrow> 'w World \<Rightarrow> 'w World option" where
  "doSwap cls target toStop w =
     (if \<not> list_all (\<lambda>i. map_of (processes w) i \<noteq> None) (target # toStop) then None
      else let w1 = swapStops cls target toStop w in
        (case map_of (processes w1) target of
           None \<Rightarrow> None
         | Some b \<Rightarrow> let (e, w2) = ensureBackend cls target b w1
                    in Some (w2\<lparr>reported := reported w2 @ [(target, e)]\<rparr>)))"

section \<open>Unloading and shutting down\<close>

definition healthCheckTimeout :: "Config \<Rightarrow> int" where
  "healthCheckTimeout c = (if cHealthCheckTimeout c \<le> 0 then 30 else cHealthCheckTimeout c) * 1000000000"

definition unloadTimeout :: "Config \<Rightarrow> string \<Rightarrow> int" where
  "unloadTimeout c i =
     (case map_of (Models c) i of
        Some mc \<Rightarrow> ModelConfig.UnloadTimeout mc * 1000000000
      | None \<Rightarrow> cUnloadTimeout c * 1000000000)"

text \<open>The unload requests sent to the loop, one after the other.\<close>

definition unloadRequests :: "Config \<Rightarrow> 'w World \<Rightarrow> int \<Rightarrow> string list \<Rightarrow> (int \<times> string list) list" where
  "unloadRequests c w timeout mods =
     (let targets = (if mods = [] then map fst (processes w) else mods) in
      if targets = [] then []
      else if timeout > 0 then [(timeout, targets)]
      else map (\<lambda>t. (t, filter (\<lambda>i. unloadTimeout c i = t) targets))
             (sort (remdups (map (unloadTimeout c) targets))))"

definition unload :: "'w World Effects \<Rightarrow> Config \<Rightarrow> int \<Rightarrow> string list \<Rightarrow> 'w World FIFO \<Rightarrow> 'w World FIFO option" where
  "unload fx c timeout mods s =
     fold_opt (\<lambda>(t, ids). OnUnload fx ids t) (unloadRequests c (world s) timeout mods) s"

text \<open>Shutting down stops commands, in parallel, and leaves provider models as they are; then the
  context of all processes is cancelled.\<close>

definition shutdownProcess :: "(string \<Rightarrow> 'w Lifecycle) \<Rightarrow> string \<Rightarrow> 'w World \<Rightarrow> 'w World" where
  "shutdownProcess cls i w = (if providerOf w i \<noteq> None then w else stopBackend cls i w)"

definition procCancel :: "'w World \<Rightarrow> 'w World" where
  "procCancel w = w\<lparr>processes := map (\<lambda>(i, b). (i, case b of
       Command mc p \<Rightarrow> Command mc (cancelCommand i mc (starting w i) (inTime w i) p)
     | Provided n \<Rightarrow> Provided n)) (processes w)\<rparr>"

definition handleShutdown :: "(string \<Rightarrow> 'w Lifecycle) \<Rightarrow> 'w World Effects \<Rightarrow> 'w World FIFO \<Rightarrow> 'w World FIFO option" where
  "handleShutdown cls fx s =
     Option.bind (OnShutdown fx (ErrText (name s @ '' is shutting down'')) (onWorld (\<lambda>w. w\<lparr>down := True\<rparr>) s))
       (\<lambda>s1. Some (onWorld (\<lambda>w. procCancel (fold (shutdownProcess cls) (arrange w (map fst (processes w))) w)) s1))"

section \<open>A request\<close>

text \<open>\<^verbatim>\<open>ServeHTTP\<close> in its three waits: for the loop, for admission, for the answer. Each ends by its
  channel, by the client leaving or by the router shutting down. The result is what the request sends
  to the loop and how it ends.\<close>

datatype 'a waited = Got 'a | ClientGone | RouterDown

datatype sent = SentRequest | SentCancel

datatype http_end = Silent | SendError error | RunHandler string

definition serveHTTP ::
  "string \<Rightarrow> bool \<Rightarrow> error option \<Rightarrow> unit waited \<Rightarrow> error option waited \<Rightarrow> (error + string) waited
    \<Rightarrow> sent list \<times> http_end" where
  "serveHTTP nm shuttingDown fetch accepted admission answer =
     (let stopping = SendError (ErrText (nm @ '' is shutting down'')) in
      if shuttingDown then ([], stopping)
      else case fetch of Some e \<Rightarrow> ([], SendError e) | None \<Rightarrow>
     (case accepted of ClientGone \<Rightarrow> ([], Silent) | RouterDown \<Rightarrow> ([], stopping) | Got _ \<Rightarrow>
     (case admission of
        ClientGone \<Rightarrow> ([SentRequest, SentCancel], Silent)
      | RouterDown \<Rightarrow> ([SentRequest], stopping)
      | Got (Some e) \<Rightarrow> ([SentRequest], SendError e)
      | Got None \<Rightarrow>
     (case answer of
        ClientGone \<Rightarrow> ([SentRequest, SentCancel], Silent)
      | RouterDown \<Rightarrow> ([SentRequest], stopping)
      | Got (Inl e) \<Rightarrow> ([SentRequest], SendError e)
      | Got (Inr m) \<Rightarrow> ([SentRequest], RunHandler m)))))"

end
