(* ===== verification/Scheduler_World.thy ===== *)
theory Scheduler_World
  imports Scheduler
begin

text \<open>
  A relation between the scheduler's in-flight counts and its world that the effects keep is kept by
  every handler. The interface is the list of effects a handler calls; granting is the one that
  moves a count.
\<close>

definition inv_on :: "(counter \<Rightarrow> 'w \<Rightarrow> bool) \<Rightarrow> 'w FIFO \<Rightarrow> bool" where
  "inv_on I s \<longleftrightarrow> I (inFlight s) (world s)"

lemma inv_on_frame [simp]:
  "inv_on I (s\<lparr>reserved := r\<rparr>) = inv_on I s" "inv_on I (s\<lparr>active := a\<rparr>) = inv_on I s"
  "inv_on I (s\<lparr>queued := q\<rparr>) = inv_on I s" "inv_on I (s\<lparr>residentBursts := b\<rparr>) = inv_on I s"
  "inv_on I (s\<lparr>positions := p\<rparr>) = inv_on I s" "inv_on I (broadcastQueuePositions s) = inv_on I s"
  "inv_on I (joinSwap m req s) = inv_on I s" "inv_on I (s\<lparr>world := w\<rparr>) = I (inFlight s) w"
  "inv_on I (s\<lparr>inFlight := c\<rparr>) = I c (world s)" "inv_on I (onWorld f s) = I (inFlight s) (f (world s))"
  by (simp_all add: inv_on_def broadcastQueuePositions_def joinSwap_def onWorld_def)

locale world_invariant =
  fixes fx :: "'w Effects" and I :: "counter \<Rightarrow> 'w \<Rightarrow> bool"
  assumes effects_keep: "I c w \<Longrightarrow> I c (StartSwap fx m ev w)" "I c w \<Longrightarrow> I c (GrantError fx req e w)"
    "I c w \<Longrightarrow> I c (QueueDelta fx m d w)" "I c w \<Longrightarrow> I c (QueueWait fx m d w)"
    "I c w \<Longrightarrow> I c (ResidentAdmission fx m w)" "I c w \<Longrightarrow> I c (FairnessPromotion fx m w)"
    "I c w \<Longrightarrow> I c (OnSwapStart fx m ev w)" "I c w \<Longrightarrow> I c (SetReqData fx req k v w)"
    "I c w \<Longrightarrow> I c (StopProcesses fx d ev w)" "I c w \<Longrightarrow> I c (snd (SendAdmit fx req a w))"
    and grant_counts: "I c w \<Longrightarrow> GrantServe fx req m w = (ok, w') \<Longrightarrow> I (if ok then bump m 1 c else c) w'"
begin

lemma on_world [simp]: "inv_on I s \<Longrightarrow> I (inFlight s) (world s)"
  by (simp add: inv_on_def)

lemma keep_release: "release m s = Some t \<Longrightarrow> inv_on I s \<Longrightarrow> inv_on I t"
  by (auto simp: release_def split: if_splits)

lemma keep_queueDone: "inv_on I s \<Longrightarrow> inv_on I (queueDone fx req s)"
  by (auto simp: queueDone_def Let_def onWorld_def effects_keep split: option.split)

lemma keep_grantError: "grantError fx req e s = Some t \<Longrightarrow> inv_on I s \<Longrightarrow> inv_on I t"
  by (auto simp: grantError_def Option.bind_eq_Some_conv effects_keep dest: keep_release)

lemma keep_grantHandler:
  assumes "grantHandler fx req m s = Some t" "inv_on I s"
  shows "inv_on I t"
proof -
  define s1 where "s1 = onWorld (SetReqData fx req ''fifo_priority'' (Itoa (priority s (Model req)))) s"
  obtain ok w where g: "GrantServe fx req m (world s1) = (ok, w)" by force
  have "inv_on I s1" using assms(2) by (simp add: s1_def effects_keep)
  then have c: "I (if ok then bump m 1 (inFlight s1) else inFlight s1) w" using grant_counts [OF _ g] by simp
  show ?thesis
  proof (cases ok)
    case True
    then have "t = (s1\<lparr>world := w\<rparr>)\<lparr>inFlight := bump m 1 (inFlight s1)\<rparr>"
      using assms(1) g by (simp add: grantHandler_def Let_def s1_def [symmetric])
    then show ?thesis using c True by simp
  next
    case False
    then have "release m (s1\<lparr>world := w\<rparr>) = Some t"
      using assms(1) g by (simp add: grantHandler_def Let_def s1_def [symmetric])
    then show ?thesis using keep_release c False by simp
  qed
qed

lemma keep_enqueue: "inv_on I s \<Longrightarrow> inv_on I (enqueue fx req s)"
  by (simp add: enqueue_def Let_def effects_keep)

lemma keep_recordResidentAdmission: "inv_on I s \<Longrightarrow> inv_on I (recordResidentAdmission fx m s)"
  by (simp add: recordResidentAdmission_def Let_def effects_keep split: option.split)

lemma keep_startSwap: "inv_on I s \<Longrightarrow> inv_on I (startSwap fx req ev running s)"
  by (simp add: startSwap_def Let_def effects_keep)

lemma keep_fairPool: "inv_on I (snd acc) \<Longrightarrow> inv_on I (snd (fairPool fx pool acc))"
  by (cases acc) (simp add: fairPool_def Let_def effects_keep split: option.split)

lemma keep_fairOrder: "inv_on I s \<Longrightarrow> inv_on I (snd (fairOrder fx pending s))"
proof -
  have "inv_on I (snd acc) \<Longrightarrow> inv_on I (snd (fold (fairPool fx) ps acc))" for ps acc
    by (induction ps arbitrary: acc) (simp_all add: keep_fairPool)
  then show "inv_on I s \<Longrightarrow> ?thesis" by (simp add: fairOrder_def)
qed

lemmas keeps = keep_queueDone keep_recordResidentAdmission keep_startSwap keep_enqueue

lemma keep_drainLoop: "drainLoop fx pending remaining s = Some (rest, t) \<Longrightarrow> inv_on I s \<Longrightarrow> inv_on I t"
proof (induction pending arbitrary: remaining s)
  case (Cons req pending)
  show ?case
  proof (cases "Effects.ModelState fx (world s) (Model req)")
    case None
    then obtain u where "grantError fx req ErrNoLocalModelFound (queueDone fx req s) = Some u"
        "drainLoop fx pending remaining u = Some (rest, t)"
      using Cons.prems(1) by (auto simp: Option.bind_eq_Some_conv)
    then show ?thesis using Cons.IH Cons.prems(2) keep_grantError keep_queueDone by blast
  next
    case (Some st)
    show ?thesis
    proof (cases "map_of (active s) (Model req)")
      case None
      let ?run = "runningSet fx (Model req) s"
      let ?ev = "EvictionFor fx (world s) (Model req) ?run"
      consider
        (serve) u where "grantHandler fx req (Model req) (recordResidentAdmission fx (Model req) (queueDone fx req s)) = Some u"
          "drainLoop fx pending remaining u = Some (rest, t)"
      | (wait) "drainLoop fx pending (remaining @ [req]) s = Some (rest, t)"
      | (swap) "drainLoop fx pending remaining (startSwap fx req ?ev ?run (queueDone fx req s)) = Some (rest, t)"
        using Cons.prems(1) Some None by (auto simp: Let_def Option.bind_eq_Some_conv split: if_splits)
      then show ?thesis
      proof cases
        case serve
        then show ?thesis using Cons.IH Cons.prems(2) keep_grantHandler keeps by blast
      next
        case wait
        then show ?thesis using Cons.IH Cons.prems(2) by blast
      next
        case swap
        then show ?thesis using Cons.IH Cons.prems(2) keeps by blast
      qed
    next
      case (Some sw)
      then have "drainLoop fx pending remaining (joinSwap (Model req) req (queueDone fx req s)) = Some (rest, t)"
        using Cons.prems(1) \<open>Effects.ModelState fx (world s) (Model req) = Some st\<close> by simp
      then show ?thesis using Cons.IH Cons.prems(2) keeps by simp
    qed
  qed
qed simp

lemma keep_drainQueue:
  assumes "drainQueue fx s = Some t" "inv_on I s"
  shows "inv_on I t"
proof (cases "queued s = []")
  case False
  obtain pending s1 where f: "fairOrder fx (queued s) s = (pending, s1)" by force
  then obtain rest u where u: "drainLoop fx pending [] s1 = Some (rest, u)"
      "t = broadcastQueuePositions (u\<lparr>queued := rest\<rparr>)"
    using assms(1) False by (auto simp: drainQueue_def Option.bind_eq_Some_conv)
  have "inv_on I s1" using keep_fairOrder [OF assms(2), of "queued s"] f by simp
  then show ?thesis using keep_drainLoop [OF u(1)] u(2) by simp
qed (use assms in \<open>simp add: drainQueue_def\<close>)

lemma keep_admission: "inv_on I s \<Longrightarrow> inv_on I (snd (sendAdmission fx req e s))"
  using effects_keep(10) [of "inFlight s" "world s" req e]
  by (auto simp: sendAdmission_def split: prod.split)

lemma keep_admit: "inv_on I s \<Longrightarrow> inv_on I (snd (admit fx req s))"
  using keep_admission [of s req None] keep_admission [of s req "Some ConcurrencyLimitError"]
  by (auto simp: admit_def rejectAdmission_def split: prod.split)

lemma keep_OnRequest:
  assumes "OnRequest fx req s = Some t" "inv_on I s"
  shows "inv_on I t"
proof (cases "Effects.ModelState fx (world s) (Model req)")
  case (Some st)
  obtain ok s1 where a: "admit fx req s = (ok, s1)" by force
  have s1: "inv_on I s1" using keep_admit [OF assms(2), of req] a by simp
  show ?thesis
  proof (cases ok)
    case True
    have "t = joinSwap (Model req) req s1 \<or> t = enqueue fx req s1 \<or>
        grantHandler fx req (Model req) (recordResidentAdmission fx (Model req) s1) = Some t \<or>
        (\<exists>ev run. t = startSwap fx req ev run s1)"
      using assms(1) Some a True by (auto simp: OnRequest_def Let_def split: option.splits if_splits)
    then show ?thesis using s1 keeps keep_grantHandler by auto
  next
    case False
    then have "t = s1" using assms(1) Some a by (simp add: OnRequest_def)
    then show ?thesis using s1 by simp
  qed
qed (use assms keep_admission in \<open>auto simp: OnRequest_def rejectAdmission_def\<close>)

lemma keep_pruneQueue: "pruneQueue fx r qs rm s = Some (kept, rm', t) \<Longrightarrow> inv_on I s \<Longrightarrow> inv_on I t"
proof (induction qs arbitrary: rm s kept)
  case (Cons q qs)
  show ?case
  proof (cases "Respond q = r")
    case True
    then obtain u where "release (Model q) (queueDone fx q s) = Some u" "pruneQueue fx r qs True u = Some (kept, rm', t)"
      using Cons.prems(1) by (auto simp: Option.bind_eq_Some_conv)
    then show ?thesis using Cons.IH Cons.prems(2) keep_release keep_queueDone by blast
  next
    case False
    then obtain kept' where "pruneQueue fx r qs rm s = Some (kept', rm', t)"
      using Cons.prems(1) by (auto simp: Option.bind_eq_Some_conv)
    then show ?thesis using Cons.IH Cons.prems(2) by blast
  qed
qed simp

lemma keep_pruneWaiters: "pruneWaiters r ws rm s = Some (kept, rm', t) \<Longrightarrow> inv_on I s \<Longrightarrow> inv_on I t"
proof (induction ws arbitrary: rm s kept)
  case (Cons q ws)
  show ?case
  proof (cases "Respond q = r")
    case True
    then obtain u where "release (Model q) s = Some u" "pruneWaiters r ws True u = Some (kept, rm', t)"
      using Cons.prems(1) by (auto simp: Option.bind_eq_Some_conv)
    then show ?thesis using Cons.IH Cons.prems(2) keep_release by blast
  next
    case False
    then obtain kept' where "pruneWaiters r ws rm s = Some (kept', rm', t)"
      using Cons.prems(1) by (auto simp: Option.bind_eq_Some_conv)
    then show ?thesis using Cons.IH Cons.prems(2) by blast
  qed
qed simp

lemma keep_pruneSwaps: "pruneSwaps r act rm s = Some (act', rm', t) \<Longrightarrow> inv_on I s \<Longrightarrow> inv_on I t"
proof (induction act arbitrary: rm s act')
  case (Cons e act)
  obtain k sw where e: "e = (k, sw)" by force
  obtain ws rm1 u act1 where "pruneWaiters r (waiters sw) rm s = Some (ws, rm1, u)"
      "pruneSwaps r act rm1 u = Some (act1, rm', t)"
    using Cons.prems(1) by (auto simp: e Option.bind_eq_Some_conv)
  then show ?case using Cons.IH Cons.prems(2) keep_pruneWaiters by blast
qed simp

lemma keep_OnCancel:
  assumes "OnCancel fx req s = Some t" "inv_on I s"
  shows "inv_on I t"
proof -
  obtain kept rm s1 act rm' s2 where *: "pruneQueue fx (Respond req) (queued s) False s = Some (kept, rm, s1)"
      "pruneSwaps (Respond req) (active s1) rm (s1\<lparr>queued := kept\<rparr>) = Some (act, rm', s2)"
      "t = (if rm' then broadcastQueuePositions (s2\<lparr>active := act\<rparr>) else s2\<lparr>active := act\<rparr>)"
    using assms(1) by (auto simp: OnCancel_def Option.bind_eq_Some_conv Let_def)
  have "inv_on I s2" using keep_pruneSwaps [OF *(2)] keep_pruneQueue [OF *(1) assms(2)] by simp
  then show ?thesis using *(3) by simp
qed

lemma keep_OnSwapDone:
  assumes "OnSwapDone fx m err s = Some t" "inv_on I s"
  shows "inv_on I t"
proof (cases "map_of (active s) m")
  case (Some sw)
  then obtain u where u: "fold_opt (answerWaiter fx m err) (waiters sw) (s\<lparr>active := AList.delete m (active s)\<rparr>) = Some u"
      "drainQueue fx u = Some t"
    using assms(1) by (auto simp: OnSwapDone_def Option.bind_eq_Some_conv)
  have "inv_on I u"
    by (rule fold_opt_inv [OF u(1)])
      (use assms(2) keep_grantError keep_grantHandler in \<open>auto simp: answerWaiter_def split: option.splits\<close>)
  then show ?thesis using keep_drainQueue u(2) by blast
qed (use assms in \<open>simp add: OnSwapDone_def\<close>)

lemma keep_OnServeDone:
  assumes "OnServeDone fx m s = Some t" "I (bump m (-1) (inFlight s)) (world s)" "0 < inFlight s m"
  shows "inv_on I t"
proof -
  obtain u where u: "release m (s\<lparr>inFlight := bump m (-1) (inFlight s)\<rparr>) = Some u"
      "(if inFlight u m \<le> 0 then drainQueue fx (u\<lparr>inFlight := (inFlight u)(m := 0)\<rparr>) else Some u) = Some t"
    using assms(1) by (auto simp: OnServeDone_def Option.bind_eq_Some_conv)
  have inv: "inv_on I u" using keep_release [OF u(1)] assms(2) by simp
  have same: "inFlight u = bump m (-1) (inFlight s)" using u(1) by (auto simp: release_def split: if_splits)
  have "u\<lparr>inFlight := (inFlight u)(m := 0)\<rparr> = u" if "inFlight u m \<le> 0"
  proof -
    have "inFlight u m = 0" using that assms(3) by (simp add: same bump_def)
    then have "(inFlight u)(m := 0) = inFlight u" by (rule fun_upd_idem)
    then show ?thesis by simp
  qed
  then show ?thesis using u(2) inv keep_drainQueue by (auto split: if_splits)
qed

lemma keep_dropQueued: "dropQueued fx e ts qs s = Some (kept, t) \<Longrightarrow> inv_on I s \<Longrightarrow> inv_on I t"
proof (induction qs arbitrary: s kept)
  case (Cons q qs)
  show ?case
  proof (cases "List.member ts (Model q)")
    case True
    then obtain u where "grantError fx q e (queueDone fx q s) = Some u" "dropQueued fx e ts qs u = Some (kept, t)"
      using Cons.prems(1) by (auto simp: Option.bind_eq_Some_conv)
    then show ?thesis using Cons.IH Cons.prems(2) keep_grantError keep_queueDone by blast
  next
    case False
    then obtain kept' where "dropQueued fx e ts qs s = Some (kept', t)"
      using Cons.prems(1) by (auto simp: Option.bind_eq_Some_conv)
    then show ?thesis using Cons.IH Cons.prems(2) by blast
  qed
qed simp

lemma keep_unloadSwap: "unloadSwap fx e i s = Some t \<Longrightarrow> inv_on I s \<Longrightarrow> inv_on I t"
  by (auto simp: unloadSwap_def Option.bind_eq_Some_conv split: option.splits
      elim!: fold_opt_inv [where P = "inv_on I"] intro: keep_grantError)

lemma keep_OnUnload:
  assumes "OnUnload fx ts d s = Some t" "inv_on I s"
  shows "inv_on I t"
proof -
  obtain e s1 kept s2 where *: "fold_opt (unloadSwap fx e) (remdups ts) s = Some s1"
      "dropQueued fx e ts (queued s1) s1 = Some (kept, s2)"
      "drainQueue fx (onWorld (StopProcesses fx d ts) (s2\<lparr>queued := kept\<rparr>)) = Some t"
    using assms(1) by (auto simp: OnUnload_def Let_def Option.bind_eq_Some_conv)
  have "inv_on I s1" using fold_opt_inv [OF *(1), of "inv_on I"] assms(2) keep_unloadSwap by blast
  then have "inv_on I s2" by (rule keep_dropQueued [OF *(2)])
  then show ?thesis using keep_drainQueue [OF *(3)] effects_keep(9) by simp
qed

lemma keep_OnShutdown:
  assumes "OnShutdown fx e s = Some t" "inv_on I s"
  shows "inv_on I t"
proof -
  obtain s1 where *: "fold_opt (\<lambda>(k, sw). fold_opt (\<lambda>w. grantError fx w e) (waiters sw)) (active s) s = Some s1"
      "fold_opt (\<lambda>w s. grantError fx w e (queueDone fx w s)) (queued s1) s1 = Some t"
    using assms(1) by (auto simp: OnShutdown_def Option.bind_eq_Some_conv)
  have "inv_on I s1"
    by (rule fold_opt_inv [where P = "inv_on I", OF *(1) assms(2)])
      (auto split: prod.splits elim!: fold_opt_inv [where P = "inv_on I"] intro: keep_grantError)
  then show ?thesis
    by (rule fold_opt_inv [where P = "inv_on I", OF *(2)]) (auto intro: keep_grantError keep_queueDone)
qed

end

end
