(* ===== verification/Process_Props.thy ===== *)
theory Process_Props
  imports Process_Command
begin

text \<open>
  The run loop of a process as a transition system: \<open>preach i cfg p rs\<close> holds of the states the
  loop reaches after receiving the requests \<open>rs\<close>, each sent once, in any order and interleaved
  with any behaviour of the upstream process. The invariant is about what is running; the ledger
  accounts for every request received.
\<close>

section \<open>Reachability\<close>

fun eventReqs :: "proc_event \<Rightarrow> nat list" where
  "eventReqs (EvWaitReady r) = [r]"
| "eventReqs (EvStart r _) = [r]"
| "eventReqs (EvStop r _) = [r]"
| "eventReqs (EvStopInStart r _ _) = [r]"
| "eventReqs _ = []"

inductive preach :: "string \<Rightarrow> ModelConfig \<Rightarrow> Proc \<Rightarrow> nat list \<Rightarrow> bool" for i cfg where
  init: "preach i cfg NewProc []"
| step: "preach i cfg p rs \<Longrightarrow> set (eventReqs ev) \<inter> set rs = {} \<Longrightarrow> handle i cfg ev p = Some q \<Longrightarrow>
    preach i cfg q (eventReqs ev @ rs)"

inductive_cases preachE: "preach i cfg p rs"

section \<open>What is running\<close>

definition proc_inv :: "Proc \<Rightarrow> bool" where
  "proc_inv p \<longleftrightarrow>
     (case phase p of
        Select \<Rightarrow>
          if pstate p = StateReady
          then handler p \<and> readyWaiters p = [] \<and> (\<exists>pid. cmd p = Some pid \<and> (alive p = [] \<or> alive p = [pid]))
          else pstate p = StateStopped \<and> \<not> handler p \<and> cmd p = None \<and> alive p = [] \<and> runResp p = None
      | InStart r block \<Rightarrow>
          pstate p = StateStarting \<and> \<not> handler p \<and> cmd p = None \<and> alive p = [] \<and> runResp p = None
      | Returned \<Rightarrow>
          pstate p = StateShutdown \<and> \<not> handler p \<and> cmd p = None \<and> alive p = [] \<and> runResp p = None \<and>
          readyWaiters p = [])"

text \<open>The effect of the closures, field by field.\<close>

lemma setState_sel [simp]:
  "pstate (setState s p) = s" "cmd (setState s p) = cmd p"
  "handler (setState s p) = handler p" "readyWaiters (setState s p) = readyWaiters p"
  "runResp (setState s p) = runResp p" "phase (setState s p) = phase p"
  "replies (setState s p) = replies p" "alive (setState s p) = alive p"
  "spawned (setState s p) = spawned p" "signals (setState s p) = signals p"
  "changes (setState s p) = changes p @ (if pstate p \<noteq> s then [(pstate p, s)] else [])"
  by (simp_all add: setState_def split: option.splits sum.splits)

lemma reply_sel [simp]:
  "pstate (reply r e p) = pstate p" "cmd (reply r e p) = cmd p"
  "handler (reply r e p) = handler p" "readyWaiters (reply r e p) = readyWaiters p"
  "runResp (reply r e p) = runResp p" "phase (reply r e p) = phase p"
  "replies (reply r e p) = replies p @ [(r, e)]" "alive (reply r e p) = alive p"
  "spawned (reply r e p) = spawned p" "signals (reply r e p) = signals p"
  "changes (reply r e p) = changes p"
  by (simp_all add: reply_def split: option.splits sum.splits)

lemma notifyWaiters_sel [simp]:
  "pstate (notifyWaiters e p) = pstate p" "cmd (notifyWaiters e p) = cmd p"
  "handler (notifyWaiters e p) = handler p" "readyWaiters (notifyWaiters e p) = []"
  "runResp (notifyWaiters e p) = runResp p" "phase (notifyWaiters e p) = phase p"
  "replies (notifyWaiters e p) = replies p @ map (\<lambda>w. (w, e)) (readyWaiters p)" "alive (notifyWaiters e p) = alive p"
  "spawned (notifyWaiters e p) = spawned p" "signals (notifyWaiters e p) = signals p"
  "changes (notifyWaiters e p) = changes p"
  by (simp_all add: notifyWaiters_def split: option.splits sum.splits)

lemma respondRun_sel [simp]:
  "pstate (respondRun e p) = pstate p" "cmd (respondRun e p) = cmd p"
  "handler (respondRun e p) = handler p" "readyWaiters (respondRun e p) = readyWaiters p"
  "runResp (respondRun e p) = None" "phase (respondRun e p) = phase p"
  "replies (respondRun e p) = replies p @ (case runResp p of None \<Rightarrow> [] | Some r \<Rightarrow> [(r, e)])" "alive (respondRun e p) = alive p"
  "spawned (respondRun e p) = spawned p" "signals (respondRun e p) = signals p"
  "changes (respondRun e p) = changes p"
  by (simp_all add: respondRun_def split: option.splits sum.splits)

lemma killProcess_sel [simp]:
  "pstate (killProcess pid t p) = pstate p" "cmd (killProcess pid t p) = cmd p"
  "handler (killProcess pid t p) = handler p" "readyWaiters (killProcess pid t p) = readyWaiters p"
  "runResp (killProcess pid t p) = runResp p" "phase (killProcess pid t p) = phase p"
  "replies (killProcess pid t p) = replies p" "alive (killProcess pid t p) = removeAll pid (alive p)"
  "spawned (killProcess pid t p) = spawned p" "changes (killProcess pid t p) = changes p"
  by (simp_all add: killProcess_def split: option.splits sum.splits)

lemma killResult_sel [simp]:
  "pstate (killResult res t p) = pstate p" "cmd (killResult res t p) = cmd p"
  "handler (killResult res t p) = handler p" "readyWaiters (killResult res t p) = readyWaiters p"
  "runResp (killResult res t p) = runResp p" "phase (killResult res t p) = phase p"
  "replies (killResult res t p) = replies p" "alive (killResult res t p) = (case res of Inr pid \<Rightarrow> removeAll pid (alive p) | Inl _ \<Rightarrow> alive p)"
  "spawned (killResult res t p) = spawned p" "changes (killResult res t p) = changes p"
  by (simp_all add: killResult_def split: option.splits sum.splits)

lemma killCmd_sel [simp]:
  "pstate (killCmd t p) = pstate p" "cmd (killCmd t p) = None"
  "handler (killCmd t p) = handler p" "readyWaiters (killCmd t p) = readyWaiters p"
  "runResp (killCmd t p) = runResp p" "phase (killCmd t p) = phase p"
  "replies (killCmd t p) = replies p" "alive (killCmd t p) = (case cmd p of None \<Rightarrow> alive p | Some pid \<Rightarrow> removeAll pid (alive p))"
  "spawned (killCmd t p) = spawned p" "changes (killCmd t p) = changes p"
  by (simp_all add: killCmd_def split: option.splits sum.splits)

lemmas case_defs = onParentDone_def onCmdDone_def onWaitReady_def onStart_def onStop_def
  onStarted_def onStopInStart_def onParentDoneInStart_def

text \<open>A start leaves everything but the processes as it was, and only the one it reports alive.\<close>

lemma doStart_cases:
  assumes "doStart cfg obs p = Some (res, q)" "alive p = []"
  shows "pstate q = pstate p \<and> cmd q = cmd p \<and> handler q = handler p \<and> readyWaiters q = readyWaiters p \<and>
    runResp q = runResp p \<and> phase q = phase p \<and> replies q = replies p \<and> changes q = changes p \<and>
    alive q = (case res of Inl _ \<Rightarrow> [] | Inr pid \<Rightarrow> [pid])"
  using assms by (auto simp: doStart_def Let_def split: if_splits option.splits start_end.splits)

lemma handle_cases:
  assumes "handle i cfg ev p = Some q"
  obtains (parent) t where "ev = EvParentDone t" "phase p = Select" "q = onParentDone i t p"
    | (exit) pid where "ev = EvExit" "phase p = Select" "cmd p = Some pid" "q = p\<lparr>alive := removeAll pid (alive p)\<rparr>"
    | (exited) pid where "ev = EvCmdDone" "phase p = Select" "cmd p = Some pid" "pid \<notin> set (alive p)" "q = onCmdDone i p"
    | (wait) r where "ev = EvWaitReady r" "phase p = Select" "q = onWaitReady i r p"
    | (startR) r b where "ev = EvStart r b" "phase p = Select" "q = onStart i r b p"
    | (stop) r t where "ev = EvStop r t" "phase p = Select" "q = onStop i r t p"
    | (started) r b obs res u where "ev = EvStarted obs" "phase p = InStart r b" "doStart cfg obs p = Some (res, u)"
        "q = onStarted res r b u"
    | (stopped) r b st obs t res u where "ev = EvStopInStart st obs t" "phase p = InStart r b"
        "doStart cfg obs p = Some (res, u)" "q = onStopInStart res r st t u"
    | (cut) r b obs t res u where "ev = EvParentDoneInStart obs t" "phase p = InStart r b"
        "doStart cfg obs p = Some (res, u)" "q = onParentDoneInStart i res t u"
  using assms
  by (cases ev; cases "phase p"; auto simp: handle_def split: option.splits if_splits prod.splits)

lemma handle_inv:
  assumes "handle i cfg ev p = Some q" "proc_inv p"
  shows "proc_inv q"
  using assms(1)
proof (cases rule: handle_cases)
  case (started r b obs res u)
  then have a: "alive p = []" using assms(2) by (simp add: proc_inv_def)
  from doStart_cases [OF started(3) a] started(2,4) assms(2) show ?thesis
    by (cases res) (simp_all add: proc_inv_def onStarted_def Let_def)
next
  case (stopped r b st obs t res u)
  then have a: "alive p = []" using assms(2) by (simp add: proc_inv_def)
  from doStart_cases [OF stopped(3) a] stopped(2,4) assms(2) show ?thesis
    by (cases res) (simp_all add: proc_inv_def onStopInStart_def Let_def)
next
  case (cut r b obs t res u)
  then have a: "alive p = []" using assms(2) by (simp add: proc_inv_def)
  from doStart_cases [OF cut(3) a] cut(2,4) assms(2) show ?thesis
    by (cases res) (simp_all add: proc_inv_def onParentDoneInStart_def Let_def)
qed (use assms(2) in \<open>auto simp: proc_inv_def case_defs Let_def split: if_splits option.splits ProcessState.splits\<close>)

lemma preach_inv: "preach i cfg p rs \<Longrightarrow> proc_inv p"
proof (induction rule: preach.induct)
  case init
  show ?case by (simp add: proc_inv_def NewProc_def)
next
  case (step p rs ev q)
  then show ?case using handle_inv by blast
qed

section \<open>The ledger of requests\<close>

text \<open>Requests received and not answered yet.\<close>

definition pending :: "Proc \<Rightarrow> nat list" where
  "pending p = readyWaiters p @ (case runResp p of None \<Rightarrow> [] | Some r \<Rightarrow> [r]) @
     (case phase p of InStart r _ \<Rightarrow> [r] | _ \<Rightarrow> [])"

definition ledger :: "Proc \<Rightarrow> nat list \<Rightarrow> bool" where
  "ledger p rs \<longleftrightarrow> distinct rs \<and>
     (\<exists>cut. mset (map fst (replies p)) + mset (pending p) + mset cut = mset rs \<and>
        (if phase p = Returned then length cut \<le> 1 else cut = []))"

lemma handle_ledger:
  assumes "handle i cfg ev p = Some q" "proc_inv p"
  shows "\<exists>cut. mset (map fst (replies q)) + mset (pending q) + mset cut =
      mset (eventReqs ev) + mset (map fst (replies p)) + mset (pending p) \<and>
    (if phase q = Returned then length cut \<le> 1 else cut = [])"
  using assms(1)
proof (cases rule: handle_cases)
  case (started r b obs res u)
  then have a: "alive p = []" using assms(2) by (simp add: proc_inv_def)
  from doStart_cases [OF started(3) a] started(1,2,4) assms(2) show ?thesis
    by (cases res) (simp_all add: proc_inv_def onStarted_def Let_def pending_def multiset.map_comp comp_def)
next
  case (stopped r b st obs t res u)
  then have a: "alive p = []" using assms(2) by (simp add: proc_inv_def)
  from doStart_cases [OF stopped(3) a] stopped(1,2,4) assms(2) show ?thesis
    by (cases res) (simp_all add: proc_inv_def onStopInStart_def Let_def pending_def multiset.map_comp comp_def)
next
  case (cut r b obs t res u)
  then have a: "alive p = []" using assms(2) by (simp add: proc_inv_def)
  from doStart_cases [OF cut(3) a] cut(1,2,4) assms(2) show ?thesis
    by (intro exI [of _ "[r]"]) (cases res; simp add: proc_inv_def onParentDoneInStart_def Let_def pending_def multiset.map_comp comp_def)
next
  case (parent t)
  then show ?thesis using assms(2)
    by (intro exI [of _ "[]"]) (auto simp: proc_inv_def case_defs Let_def pending_def multiset.map_comp comp_def split: if_splits option.splits)
qed (use assms(2) in \<open>auto simp: proc_inv_def case_defs Let_def pending_def multiset.map_comp comp_def split: if_splits option.splits ProcessState.splits\<close>)

lemma handle_not_returned: "handle i cfg ev p = Some q \<Longrightarrow> phase p \<noteq> Returned"
  by (auto simp: handle_def)

lemma eventReqs_distinct: "distinct (eventReqs ev)"
  by (cases ev) auto

lemma preach_ledger: "preach i cfg p rs \<Longrightarrow> ledger p rs"
proof (induction rule: preach.induct)
  case init
  show ?case by (simp add: ledger_def NewProc_def pending_def)
next
  case (step p rs ev q)
  have "mset (map fst (replies p)) + mset (pending p) = mset rs"
    using step.IH handle_not_returned [OF step.hyps(3)] by (auto simp: ledger_def)
  moreover have "distinct (eventReqs ev @ rs)"
    using step.IH step.hyps(2) eventReqs_distinct by (auto simp: ledger_def)
  ultimately show ?case
    using handle_ledger [OF step.hyps(3) preach_inv [OF step.hyps(1)]] by (auto simp: ledger_def add.assoc)
qed

section \<open>State changes\<close>

definition legal :: "(ProcessState \<times> ProcessState) list" where
  "legal = [(StateStopped, StateStarting), (StateStopped, StateShutdown), (StateStarting, StateReady),
     (StateStarting, StateStopped), (StateStarting, StateShutdown), (StateReady, StateStopping),
     (StateReady, StateStopped), (StateReady, StateShutdown), (StateStopping, StateStopped)]"

fun linked :: "ProcessState \<Rightarrow> (ProcessState \<times> ProcessState) list \<Rightarrow> ProcessState \<Rightarrow> bool" where
  "linked a [] b = (a = b)"
| "linked a ((x, y) # cs) b = (a = x \<and> (x, y) \<in> set legal \<and> linked y cs b)"

lemma linked_append: "linked a (cs @ ds) b \<longleftrightarrow> (\<exists>c. linked a cs c \<and> linked c ds b)"
  by (induction a cs b rule: linked.induct) auto

lemma linked_snoc: "linked a (cs @ [(x, y)]) b \<longleftrightarrow> linked a cs x \<and> (x, y) \<in> set legal \<and> y = b"
  by (auto simp: linked_append)

lemma handle_changes:
  assumes "handle i cfg ev p = Some q" "proc_inv p" "linked StateStopped (changes p) (pstate p)"
  shows "linked StateStopped (changes q) (pstate q)"
  using assms(1)
proof (cases rule: handle_cases)
  case (started r b obs res u)
  then have a: "alive p = []" using assms(2) by (simp add: proc_inv_def)
  from doStart_cases [OF started(3) a] started(2,4) assms(2,3) show ?thesis
    by (cases res) (simp_all add: proc_inv_def onStarted_def Let_def linked_snoc legal_def)
next
  case (stopped r b st obs t res u)
  then have a: "alive p = []" using assms(2) by (simp add: proc_inv_def)
  from doStart_cases [OF stopped(3) a] stopped(2,4) assms(2,3) show ?thesis
    by (cases res) (simp_all add: proc_inv_def onStopInStart_def Let_def linked_snoc legal_def)
next
  case (cut r b obs t res u)
  then have a: "alive p = []" using assms(2) by (simp add: proc_inv_def)
  from doStart_cases [OF cut(3) a] cut(2,4) assms(2,3) show ?thesis
    by (cases res) (simp_all add: proc_inv_def onParentDoneInStart_def Let_def linked_snoc legal_def)
qed (use assms(2,3) in \<open>auto simp: proc_inv_def case_defs Let_def linked_append legal_def split: if_splits option.splits ProcessState.splits\<close>)

lemma preach_changes: "preach i cfg p rs \<Longrightarrow> linked StateStopped (changes p) (pstate p)"
proof (induction rule: preach.induct)
  case (step p rs ev q)
  then show ?case using handle_changes preach_inv by blast
qed (simp add: NewProc_def)

section \<open>A run\<close>

fun runLoop :: "string \<Rightarrow> ModelConfig \<Rightarrow> proc_event list \<Rightarrow> Proc \<Rightarrow> nat list \<Rightarrow> (Proc \<times> nat list) option" where
  "runLoop i cfg [] p rs = Some (p, rs)"
| "runLoop i cfg (ev # evs) p rs =
     (if list_ex (\<lambda>r. r \<in> set rs) (eventReqs ev) then None
      else case handle i cfg ev p of None \<Rightarrow> None | Some q \<Rightarrow> runLoop i cfg evs q (eventReqs ev @ rs))"

lemma runLoop_preach: "preach i cfg p rs \<Longrightarrow> runLoop i cfg evs p rs = Some (q, qs) \<Longrightarrow> preach i cfg q qs"
proof (induction evs arbitrary: p rs)
  case (Cons ev evs)
  then obtain u where u: "handle i cfg ev p = Some u" "runLoop i cfg evs u (eventReqs ev @ rs) = Some (q, qs)"
    and "set (eventReqs ev) \<inter> set rs = {}"
    by (auto simp: list_ex_iff split: option.splits if_splits)
  with Cons.IH Cons.prems(1) show ?case by (blast intro: preach.step)
qed simp

text \<open>A model is made ready at the second poll, one caller is parked on its run, it dies, is started
  again by a caller that waits and is stopped.\<close>

definition cmdModel :: ModelConfig where
  "cmdModel = zeroModelConfig\<lparr>Cmd := ''serve'', Proxy := ''http://h'', CheckEndpoint := ''/health''\<rparr>"

definition pollOf :: "bool \<Rightarrow> poll" where
  "pollOf ok = \<lparr>beforePoll = WaitElapsed, pastDeadline = False, statusOK = ok, cancelledDuring = False, afterPoll = WaitElapsed\<rparr>"

definition healthy :: start_obs where
  "healthy = \<lparr>sanitizeError = None, proxyParseError = None, commandText = ''serve'', spawnError = None,
     cancelledAtOnce = False, cancelledInGrace = False, polls = [pollOf False, pollOf True], timeoutText = ''15s''\<rparr>"

definition lifeEvents :: "proc_event list" where
  "lifeEvents = [EvWaitReady 1, EvStart 2 True, EvStarted healthy, EvExit, EvCmdDone, EvStart 3 False, EvStarted healthy]"

definition lifeState :: "Proc \<times> nat list" where
  "lifeState = (case runLoop ''m'' cmdModel lifeEvents NewProc [] of Some s \<Rightarrow> s | None \<Rightarrow> (NewProc, []))"

lemma life_run:
  "case runLoop ''m'' cmdModel lifeEvents NewProc [] of
     None \<Rightarrow> False
   | Some (p, rs) \<Rightarrow> alive p = [1] \<and> cmd p = Some 1 \<and> pstate p = StateReady \<and>
       replies p = [(1, None), (2, Some (procErr ''m'' ''upstream exited unexpectedly'')), (3, None)] \<and> rs = [3, 2, 1] \<and>
       phase p = Select"
  by code_simp

lemma life_preach: "preach ''m'' cmdModel (fst lifeState) (snd lifeState)"
  using life_run by (auto simp: lifeState_def split: option.splits intro: runLoop_preach [OF preach.init])

lemma life_facts:
  "alive (fst lifeState) = [1]" "cmd (fst lifeState) = Some 1" "pstate (fst lifeState) = StateReady"
  "map fst (replies (fst lifeState)) = [1, 2, 3]" "phase (fst lifeState) = Select" "snd lifeState = [3, 2, 1]"
  using life_run by (auto simp: lifeState_def split: option.splits)

section \<open>Properties\<close>

text \<open>C20: Between two steps of the loop at most one upstream process is alive, and it is the recorded
  one of a ready loop; requests are forwarded exactly when the state is ready; and once the loop has
  ended no process is left and nobody waits.\<close>

theorem one_process_at_most:
  assumes "preach i cfg p rs"
  shows "length (alive p) \<le> 1 \<and> (\<forall>pid\<in>set (alive p). cmd p = Some pid \<and> pstate p = StateReady) \<and>
    (serveStatus p = None \<longleftrightarrow> pstate p = StateReady) \<and>
    (phase p = Returned \<longrightarrow> alive p = [] \<and> readyWaiters p = [] \<and> runResp p = None \<and> pstate p = StateShutdown)"
  using preach_inv [OF assms]
  by (auto simp: proc_inv_def serveStatus_def split: phase.splits if_splits)

theorem one_process_at_most_witness: "serveStatus (fst lifeState) = None"
  using one_process_at_most [OF life_preach] life_facts(3) by blast

text \<open>C21: No request is answered twice, so the loop never blocks on a reply; while it runs every
  request received is answered, waits for readiness in a stopped or starting process, is the parked
  run of a ready one, or is the start in progress; and when it ends at most the start it cut off is
  unanswered.\<close>

theorem requests_accounted:
  assumes "preach i cfg p rs"
  shows "distinct (map fst (replies p)) \<and> fst ` set (replies p) \<subseteq> set rs \<and>
    (phase p \<noteq> Returned \<longrightarrow> set rs = fst ` set (replies p) \<union> set (pending p)) \<and>
    (phase p = Select \<longrightarrow> (readyWaiters p \<noteq> [] \<longrightarrow> pstate p = StateStopped) \<and>
       (runResp p \<noteq> None \<longrightarrow> pstate p = StateReady)) \<and>
    (phase p = Returned \<longrightarrow> card (set rs - fst ` set (replies p)) \<le> 1)"
proof -
  from preach_ledger [OF assms] obtain cut where d: "distinct rs" and
    m: "mset (map fst (replies p)) + mset (pending p) + mset cut = mset rs" and
    c: "if phase p = Returned then length cut \<le> 1 else cut = []"
    unfolding ledger_def by blast
  from m have e: "mset (map fst (replies p) @ pending p @ cut) = mset rs" by (simp add: add.assoc)
  then have all: "distinct (map fst (replies p) @ pending p @ cut)" using d by (metis mset_eq_imp_distinct_iff)
  from e have rs: "set rs = fst ` set (replies p) \<union> set (pending p) \<union> set cut" by (metis list.set_map mset_eq_setD set_append sup_assoc)
  note inv = preach_inv [OF assms]
  have "card (set rs - fst ` set (replies p)) \<le> 1" if "phase p = Returned"
  proof -
    have "pending p = []" using inv that by (simp add: proc_inv_def pending_def)
    then have "set rs - fst ` set (replies p) \<subseteq> set cut" using rs by auto
    moreover have "card (set cut) \<le> 1" using c that card_length [of cut] by simp
    ultimately show ?thesis by (meson card_mono finite_set le_trans)
  qed
  moreover have "phase p = Select \<longrightarrow> (readyWaiters p \<noteq> [] \<longrightarrow> pstate p = StateStopped) \<and> (runResp p \<noteq> None \<longrightarrow> pstate p = StateReady)"
    using inv by (auto simp: proc_inv_def split: if_splits)
  ultimately show ?thesis using all rs c by auto
qed

theorem requests_accounted_witness:
  "{3, 2, 1} = {1, 2, 3} \<union> set (pending (fst lifeState))"
  using requests_accounted [OF life_preach] life_facts(4-6) unfolding set_map [symmetric] by simp

text \<open>A nil answer to a request for readiness is true when it is given: unless the request is a
  stop or the parked run of a process that is being stopped, the loop that gives it is ready, with a
  recorded process and the handler installed.\<close>

theorem nil_answers_mean_ready:
  assumes "preach i cfg p rs" "handle i cfg ev p = Some q" "(r, None) \<in> set (replies q)" "(r, None) \<notin> set (replies p)"
  shows "pstate q = StateReady \<and> cmd q \<noteq> None \<and> handler q \<or>
    (\<exists>t. ev = EvStop r t) \<or> (\<exists>obs t. ev = EvStopInStart r obs t) \<or> (\<exists>s t. ev = EvStop s t \<and> runResp p = Some r)"
  using assms(2)
proof (cases rule: handle_cases)
  case (started r b obs res u)
  then have a: "alive p = []" using preach_inv [OF assms(1)] by (simp add: proc_inv_def)
  from doStart_cases [OF started(3) a] started(4) assms(3,4) show ?thesis
    by (cases res) (auto simp: onStarted_def Let_def)
next
  case (stopped r b st obs t res u)
  then have a: "alive p = []" using preach_inv [OF assms(1)] by (simp add: proc_inv_def)
  from doStart_cases [OF stopped(3) a] stopped(1,4) assms(3,4) show ?thesis
    by (cases res) (auto simp: onStopInStart_def Let_def)
next
  case (cut r b obs t res u)
  then have a: "alive p = []" using preach_inv [OF assms(1)] by (simp add: proc_inv_def)
  from doStart_cases [OF cut(3) a] cut(4) assms(3,4) preach_inv [OF assms(1)] cut(2) show ?thesis
    by (cases res) (auto simp: onParentDoneInStart_def Let_def proc_inv_def)
qed (use preach_inv [OF assms(1)] assms(3,4) in
    \<open>auto simp: proc_inv_def case_defs Let_def split: if_splits option.splits ProcessState.splits\<close>)

theorem nil_answers_mean_ready_witness:
  "handler (onStart ''m'' 4 False (fst lifeState)) \<and> pstate (onStart ''m'' 4 False (fst lifeState)) = StateReady"
proof -
  let ?ev = "EvStart 4 False" and ?p = "fst lifeState"
  have "handle ''m'' cmdModel ?ev ?p = Some (onStart ''m'' 4 False ?p)"
    using life_facts by (simp add: handle_def)
  moreover have "(4, None) \<in> set (replies (onStart ''m'' 4 False ?p))"
    using life_facts by (simp add: onStart_def reply_def)
  moreover have "(4, None) \<notin> set (replies ?p)"
  proof
    assume "(4, None) \<in> set (replies ?p)"
    then have "4 \<in> set (map fst (replies ?p))" by force
    then show False using life_facts(4) by simp
  qed
  ultimately show ?thesis using nil_answers_mean_ready [OF life_preach] by blast
qed

text \<open>The state changes announced are a path of the state machine from stopped to the current
  state: each starts where the last one ended, and only legal transitions occur.\<close>

theorem state_changes_legal:
  assumes "preach i cfg p rs"
  shows "linked StateStopped (changes p) (pstate p)"
  by (rule preach_changes [OF assms])

theorem state_changes_legal_witness:
  "linked StateStopped (changes (fst lifeState)) (pstate (fst lifeState))"
  by (rule state_changes_legal [OF life_preach])

end
