(* ===== verification/Router_Inv.thy ===== *)
theory Router_Inv
  imports Router_Base Scheduler_World Provider_Props Process_Props
begin

text \<open>
  The invariant of the router's world: leases of provider models are the running handlers, and every
  command is a reachable state of its run loop. The effects keep it, which makes it an invariant of
  the scheduler over this world.
\<close>

section \<open>What keeps the leases of a manager\<close>

definition lease_frame :: "'w Manager \<Rightarrow> 'w Manager \<Rightarrow> bool" where
  "lease_frame m m' \<longleftrightarrow> mactive m' = mactive m \<and> bindings m' = bindings m \<and> (mgr_ok m \<longrightarrow> mgr_ok m')"

lemma lease_frame_refl [simp]: "lease_frame m m"
  by (simp add: lease_frame_def)

lemma lease_frame_trans: "lease_frame m m' \<Longrightarrow> lease_frame m' m'' \<Longrightarrow> lease_frame m m''"
  by (simp add: lease_frame_def)

lemma lease_frame_ops [simp]:
  "lease_frame m (MQueueDelta a d m)" "lease_frame m (MResidentAdmission m)" "lease_frame m (MFairnessPromotion m)"
  "lease_frame m (BeginSwap a vs m)"
  using MQueueDelta_ok [of m a d] BeginSwap_ok [of m a vs]
  by (simp_all add: lease_frame_def, simp_all add: MQueueDelta_def MResidentAdmission_def MFairnessPromotion_def BeginSwap_def Let_def mgr_ok_def split: option.split)

lemma lease_frame_interfere:
  assumes "case c of ConcAcquire _ \<Rightarrow> False | ConcRelease _ \<Rightarrow> False | _ \<Rightarrow> True"
  shows "lease_frame m (interfere c m)"
  using assms loadArrives_ok [of m] loadLeaves_ok [of m]
  by (cases c) (simp_all, simp_all add: lease_frame_def, simp_all add: loadArrives_def loadLeaves_def)

lemma lease_frame_gap: "lease_frame m (gap (noLeases cl) m)"
proof -
  have "lease_frame m (fold interfere cs m)"
    if "\<forall>c\<in>set cs. case c of ConcAcquire _ \<Rightarrow> False | ConcRelease _ \<Rightarrow> False | _ \<Rightarrow> True" for cs and m :: "'a Manager"
    using that
  proof (induction cs arbitrary: m)
    case (Cons c cs)
    then show ?case using lease_frame_interfere [of c m] lease_frame_trans [of m "interfere c m"] by simp
  qed simp
  note quiet = this
  obtain cs w where m: "Meanwhile cl (mworld m) = (cs, w)" by force
  let ?cs = "filter (\<lambda>c. case c of ConcAcquire _ \<Rightarrow> False | ConcRelease _ \<Rightarrow> False | _ \<Rightarrow> True) cs"
  have "lease_frame (m\<lparr>mworld := w\<rparr>) (fold interfere ?cs (m\<lparr>mworld := w\<rparr>))" by (rule quiet) simp
  then show ?thesis using m by (simp add: gap_def noLeases_def lease_frame_def)
qed

interpretation lease: manager_step "noLeases cl" "lease_frame m0" for cl m0
proof
  show "lease_frame m0 (gap (noLeases cl) m)" if "lease_frame m0 m" for m
    using lease_frame_trans [OF that lease_frame_gap] .
  show "lease_frame m0 (loadArrives a m)" "lease_frame m0 (loadLeaves a m)" if "lease_frame m0 m" for a m
    using that loadArrives_ok [of m a] loadLeaves_ok [of m a]
    by (simp_all add: lease_frame_def) (simp_all add: loadArrives_def loadLeaves_def)
  show "lease_frame m0 (m\<lparr>mstates := f\<rparr>)"
    if "lease_frame m0 m" "\<And>a. f a \<noteq> mstates m a \<Longrightarrow> f a = Some Busy \<Longrightarrow> 0 < mactive m a" for m f
    using that(1) mgr_ok_states [of m f, OF _ that(2)] by (simp add: lease_frame_def)
  show "lease_frame m0 (m\<lparr>displaced := (displaced m)(t := [])\<rparr>)" if "lease_frame m0 m" for m t
    using that inv.forget [of m t] by (simp add: lease_frame_def)
qed (simp_all add: lease_frame_def inv.bookkeeping)

section \<open>Worlds with the same leases\<close>

definition same_leases :: "'w World \<Rightarrow> 'w World \<Rightarrow> bool" where
  "same_leases w w' \<longleftrightarrow> handling w' = handling w \<and> ended w' = ended w \<and> providerOf w' = providerOf w \<and>
     (\<forall>n. rel_option lease_frame (wmanagers w n) (wmanagers w' n))"

definition running :: "'w World \<Rightarrow> string \<Rightarrow> int" where
  "running w m = int (count_list (map snd (handling w)) m)"

definition leases_ok :: "counter \<Rightarrow> 'w World \<Rightarrow> bool" where
  "leases_ok c w \<longleftrightarrow> (\<forall>m. c m = running w m + int (count_list (ended w) m)) \<and>
     (\<forall>i n. providerOf w i = Some n \<longrightarrow>
        (\<exists>mg. wmanagers w n = Some mg \<and> Binding i mg \<noteq> None \<and> mactive mg i = running w i)) \<and>
     (\<forall>n mg. wmanagers w n = Some mg \<longrightarrow> mgr_ok mg)"

definition commands_ok :: "'w World \<Rightarrow> bool" where
  "commands_ok w \<longleftrightarrow> distinct (map fst (processes w)) \<and>
     (\<forall>i mc p. (i, Command mc p) \<in> set (processes w) \<longrightarrow> (\<exists>rs. preach i mc p rs))"

definition router_inv :: "counter \<Rightarrow> 'w World \<Rightarrow> bool" where
  "router_inv c w \<longleftrightarrow> leases_ok c w \<and> commands_ok w"

lemma providerOf_cong: "processes w' = processes w \<Longrightarrow> providerOf w' = providerOf w"
  by (simp add: providerOf_def fun_eq_iff)

lemma providerOf_frame [simp]:
  "providerOf (w\<lparr>wmanagers := mgrs\<rparr>) = providerOf w" "providerOf (w\<lparr>handling := h\<rparr>) = providerOf w"
  by (simp_all add: providerOf_def fun_eq_iff)

lemma running_cong: "handling w' = handling w \<Longrightarrow> running w' = running w"
  by (simp add: running_def fun_eq_iff)

lemma same_leases_refl [simp]: "same_leases w w"
  by (simp add: same_leases_def option.rel_refl)

lemma same_leasesI:
  "handling w' = handling w \<Longrightarrow> ended w' = ended w \<Longrightarrow> processes w' = processes w \<Longrightarrow> wmanagers w' = wmanagers w \<Longrightarrow>
   same_leases w w'"
  using providerOf_cong [of w' w] by (simp add: same_leases_def option.rel_refl)

lemma leases_ok_same:
  assumes "leases_ok c w" "same_leases w w'"
  shows "leases_ok c w'"
proof -
  note same = assms(2) [unfolded same_leases_def]
  have run: "running w' = running w" using same by (intro running_cong) simp
  have "\<exists>mg. wmanagers w' n = Some mg \<and> Binding i mg \<noteq> None \<and> mactive mg i = running w i"
    if i: "providerOf w i = Some n" for i n
  proof -
    obtain mg where mg: "wmanagers w n = Some mg" "Binding i mg \<noteq> None" "mactive mg i = running w i"
      using assms(1) i unfolding leases_ok_def by blast
    have "rel_option lease_frame (wmanagers w n) (wmanagers w' n)" using same by simp
    then obtain mg' where "wmanagers w' n = Some mg'" "lease_frame mg mg'"
      unfolding mg(1) by (auto simp: option_rel_Some1)
    then show ?thesis using mg by (simp add: lease_frame_def Binding_def)
  qed
  moreover have "mgr_ok mg" if n: "wmanagers w' n = Some mg" for n mg
  proof -
    have "rel_option lease_frame (wmanagers w n) (wmanagers w' n)" using same by simp
    then obtain mg0 where "wmanagers w n = Some mg0" "lease_frame mg0 mg" unfolding n by (auto simp: option_rel_Some2)
    then show ?thesis using assms(1) unfolding leases_ok_def lease_frame_def by blast
  qed
  ultimately show ?thesis using assms(1) same run by (simp add: leases_ok_def)
qed

lemma same_leases_onManager:
  assumes "\<And>m. wmanagers w n = Some m \<Longrightarrow> lease_frame m (snd (f m))"
  shows "same_leases w (snd (onManager n f r w))"
proof (cases "wmanagers w n")
  case (Some m)
  obtain x m' where "f m = (x, m')" by force
  then show ?thesis using assms [OF Some] Some by (auto simp: onManager_def same_leases_def option.rel_refl)
qed (simp add: onManager_def)

lemma processes_onManager [simp]: "processes (snd (onManager n f r w)) = processes w"
  by (auto simp: onManager_def split: option.split prod.split)

lemma processes_onProvider [simp]: "processes (onProvider i f w) = processes w"
  by (auto simp: onProvider_def split: option.split)

lemma same_leases_onProvider:
  assumes "\<And>m. lease_frame m (f m)"
  shows "same_leases w (onProvider i f w)"
  using same_leases_onManager [of w _ "\<lambda>m. ((), f m)" "()"] assms
  by (auto simp: onProvider_def split: option.split)

lemma router_inv_same: "router_inv c w \<Longrightarrow> same_leases w w' \<Longrightarrow> processes w' = processes w \<Longrightarrow> router_inv c w'"
  by (auto simp: router_inv_def commands_ok_def leases_ok_same)

section \<open>Commands\<close>

lemma freshReq_new:
  assumes "preach i mc p rs" "phase p \<noteq> Returned"
  shows "freshReq p \<notin> set rs"
proof -
  let ?used = "map fst (replies p) @ readyWaiters p @
     (case runResp p of None \<Rightarrow> [] | Some r \<Rightarrow> [r]) @ (case phase p of InStart r _ \<Rightarrow> [r] | _ \<Rightarrow> [])"
  have "mset (map fst (replies p)) + mset (pending p) = mset rs"
    using preach_ledger [OF assms(1)] assms(2) by (auto simp: ledger_def)
  then have "mset ?used = mset rs" by (simp add: pending_def)
  then have "set rs = set ?used" by (metis set_mset_mset)
  moreover have "x < freshReq p" if "x \<in> set ?used" for x
    unfolding freshReq_def less_Suc_eq_le Max.set_eq_fold [symmetric] by (rule Max_ge [OF finite_set]) (use that in simp)
  ultimately show ?thesis by blast
qed

lemma step_preach:
  assumes "preach i mc p rs" "set (eventReqs ev) \<subseteq> {freshReq p}"
  shows "\<exists>rs. preach i mc (step i mc ev p) rs"
proof (cases "Process_Command.handle i mc ev p")
  case (Some q)
  then have "freshReq p \<notin> set rs" using freshReq_new [OF assms(1)] handle_not_returned by blast
  then have "set (eventReqs ev) \<inter> set rs = {}" using assms(2) by blast
  then show ?thesis using preach.step [OF assms(1) _ Some] Some by (auto simp: step_def)
qed (use assms(1) in \<open>auto simp: step_def\<close>)

lemma command_preach:
  assumes "preach i mc p rs"
  shows "\<exists>rs. preach i mc (snd (stopCommand i mc obs t p)) rs" "\<exists>rs. preach i mc (settle i mc obs p) rs"
    "\<exists>rs. preach i mc (cancelCommand i mc obs t p) rs"
  using assms step_preach [OF assms]
  by (auto simp: stopCommand_def settle_def cancelCommand_def Let_def split: phase.split)

lemma ensureCommand_preach:
  assumes "preach i mc p rs"
  shows "\<exists>rs. preach i mc (snd (ensureCommand i mc obs p)) rs"
proof -
  obtain rs1 where p1: "preach i mc (settle i mc obs p) rs1" using command_preach(2) [OF assms] by blast
  obtain rs2 where p2: "preach i mc (step i mc (EvStart (freshReq (settle i mc obs p)) False) (settle i mc obs p)) rs2"
    using step_preach [OF p1, of "EvStart (freshReq (settle i mc obs p)) False"] by auto
  show ?thesis using p1 command_preach(2) [OF p2] by (auto simp: ensureCommand_def Let_def)
qed

lemma setBackend_command:
  assumes "map_of (processes w) i = Some (Command mc p)"
  shows "providerOf (setBackend i (Command mc q) w) = providerOf w"
  using assms by (auto simp: setBackend_def providerOf_def fun_eq_iff update_conv' split: option.split)

lemma commands_ok_setBackend:
  assumes "commands_ok w" "\<exists>rs. preach i mc q rs"
  shows "commands_ok (setBackend i (Command mc q) w)"
proof -
  have d: "distinct (map fst (processes w))" using assms(1) by (simp add: commands_ok_def)
  then have d': "distinct (map fst (AList.update i (Command mc q) (processes w)))" by (rule distinct_update)
  have "\<exists>rs. preach j mc' p rs" if "(j, Command mc' p) \<in> set (AList.update i (Command mc q) (processes w))" for j mc' p
  proof -
    have "map_of (AList.update i (Command mc q) (processes w)) j = Some (Command mc' p)"
      using that d' by (rule map_of_is_SomeI [rotated])
    then have "(if j = i then Some (Command mc q) else map_of (processes w) j) = Some (Command mc' p)"
      by (simp add: update_conv')
    then show ?thesis using assms map_of_SomeD
      by (fastforce simp: commands_ok_def split: if_splits)
  qed
  then show ?thesis using d' by (simp add: commands_ok_def setBackend_def)
qed

lemma commands_okD: "commands_ok w \<Longrightarrow> map_of (processes w) i = Some (Command mc p) \<Longrightarrow> \<exists>rs. preach i mc p rs"
  using map_of_SomeD by (fastforce simp: commands_ok_def)

lemma same_leases_setBackend:
  assumes "map_of (processes w) i = Some (Command mc p)"
  shows "same_leases w (setBackend i (Command mc q) w)"
  using setBackend_command [OF assms] by (simp add: same_leases_def setBackend_def option.rel_refl)

lemma router_inv_setBackend:
  assumes "router_inv c w" "map_of (processes w) i = Some (Command mc p)" "\<exists>rs. preach i mc q rs"
  shows "router_inv c (setBackend i (Command mc q) w)"
  using assms commands_ok_setBackend leases_ok_same same_leases_setBackend unfolding router_inv_def by blast

section \<open>Stopping and starting\<close>

lemma router_inv_stop: "router_inv c w \<Longrightarrow> router_inv c (stopBackend cls i w)"
proof (cases "map_of (processes w) i")
  case (Some b)
  assume w: "router_inv c w"
  show ?thesis
  proof (cases b)
    case (Command mc p)
    obtain rs where "preach i mc p rs" using w Some Command commands_okD unfolding router_inv_def by blast
    then show ?thesis
      using router_inv_setBackend [OF w Some [unfolded Command] command_preach(1)] Some Command
      by (simp add: stopBackend_def)
  next
    case (Provided n)
    have "lease_frame m (snd (Unload (noLeases (cls n)) i m))" for m
      by (rule lease.keep_Unload [OF surjective_pairing]) simp
    then have "same_leases w (snd (onManager n (Unload (noLeases (cls n)) i) None w))" by (rule same_leases_onManager)
    then show ?thesis using Some Provided router_inv_same [OF w] by (simp add: stopBackend_def)
  qed
qed (simp add: stopBackend_def)

lemma router_inv_fold:
  "(\<And>x w. router_inv c w \<Longrightarrow> router_inv c (f x w)) \<Longrightarrow> router_inv c w \<Longrightarrow> router_inv c (fold f xs w)"
  by (induction xs arbitrary: w) simp_all

lemma router_inv_ensure:
  assumes "router_inv c w" "map_of (processes w) i = Some b"
  shows "router_inv c (snd (ensureBackend cls i b w))"
proof (cases b)
  case (Command mc p)
  obtain rs where "preach i mc p rs" using assms Command commands_okD unfolding router_inv_def by blast
  from router_inv_setBackend [OF assms(1) assms(2) [unfolded Command] ensureCommand_preach [OF this, of "starting w i"]]
  show ?thesis using Command by (simp add: ensureBackend_def Let_def case_prod_unfold)
next
  case (Provided n)
  have "lease_frame m (snd (Load (noLeases (cls n)) i m))" for m
    by (rule lease.keep_Load [OF surjective_pairing]) simp
  then have "same_leases w (snd (onManager n (Load (noLeases (cls n)) i) None w))" by (rule same_leases_onManager)
  then show ?thesis using Provided router_inv_same [OF assms(1)] by (simp add: ensureBackend_def)
qed

lemma router_inv_unloadAll: "router_inv c w \<Longrightarrow> router_inv c (snd (onManager n (UnloadAll (noLeases cl)) r w))"
proof -
  assume w: "router_inv c w"
  have "lease_frame m (snd (UnloadAll (noLeases cl) m))" for m
    by (rule lease.keep_UnloadAll [OF surjective_pairing]) simp
  then have "same_leases w (snd (onManager n (UnloadAll (noLeases cl)) r w))" by (rule same_leases_onManager)
  then show ?thesis using router_inv_same [OF w] by simp
qed

lemma router_inv_swapStops: "router_inv c w \<Longrightarrow> router_inv c (swapStops cls target toStop w)"
  unfolding swapStops_def Let_def
  by (intro router_inv_fold router_inv_stop) (simp_all add: router_inv_unloadAll router_inv_fold router_inv_stop)

lemma router_inv_bookkeeping:
  assumes "router_inv c w"
  shows "router_inv c (w\<lparr>reported := x\<rparr>)" "router_inv c (w\<lparr>launched := y\<rparr>)" "router_inv c (w\<lparr>down := d\<rparr>)"
    "router_inv c (w\<lparr>admissions := z\<rparr>)" "router_inv c (w\<lparr>metadata := md\<rparr>)"
    "router_inv c (w\<lparr>listening := l, responses := rs\<rparr>)"
  by (rule router_inv_same [OF assms], rule same_leasesI; simp)+

lemma router_inv_doSwap:
  assumes "doSwap cls target toStop w = Some w'" "router_inv c w"
  shows "router_inv c w'"
proof -
  let ?w1 = "swapStops cls target toStop w"
  from assms(1) obtain b where b: "map_of (processes ?w1) target = Some b"
    by (auto simp: doSwap_def Let_def split: if_splits option.splits)
  obtain e w2 where e: "ensureBackend cls target b ?w1 = (e, w2)" by force
  have w': "w' = w2\<lparr>reported := reported w2 @ [(target, e)]\<rparr>"
    using assms(1) b e by (simp add: doSwap_def Let_def split: if_splits)
  have "router_inv c w2" using router_inv_ensure [OF router_inv_swapStops [OF assms(2)] b, of cls] e by simp
  then show ?thesis using w' by (simp add: router_inv_bookkeeping)
qed

section \<open>Leases\<close>

lemma leases_grant:
  assumes "leases_ok c w"
  shows "leases_ok c (snd (grant req r w))" "processes (snd (grant req r w)) = processes w"
proof -
  show "leases_ok c (snd (grant req r w))"
    by (rule leases_ok_same [OF assms]) (auto simp: grant_def intro: same_leasesI)
qed (simp add: grant_def)

lemma grant_fields:
  assumes "grant req r w = (ok, w')"
  shows "handling w' = handling w" "ended w' = ended w" "processes w' = processes w" "wmanagers w' = wmanagers w"
  using assms by (auto simp: grant_def split: if_splits)

text \<open>A world that differs from one with exact leases by one more running handler and its lease.\<close>

lemma leases_move:
  assumes "leases_ok c w" "processes w' = processes w"
    "\<And>j. running w' j = running w j + (if j = i then d else 0)"
    "\<And>j. c' j = running w' j + int (count_list (ended w') j)"
    "\<And>n. providerOf w i \<noteq> Some n \<Longrightarrow> wmanagers w' n = wmanagers w n"
    "\<And>n mg. providerOf w i = Some n \<Longrightarrow> wmanagers w n = Some mg \<Longrightarrow>
       \<exists>mg'. wmanagers w' n = Some mg' \<and> bindings mg' = bindings mg \<and> mactive mg' = bump i d (mactive mg) \<and>
         (mgr_ok mg \<longrightarrow> mgr_ok mg')"
  shows "leases_ok c' w'"
proof -
  have "\<exists>mg. wmanagers w' n = Some mg \<and> Binding j mg \<noteq> None \<and> mactive mg j = running w' j"
    if j: "providerOf w j = Some n" for j n
  proof -
    obtain mg where mg: "wmanagers w n = Some mg" "Binding j mg \<noteq> None" "mactive mg j = running w j"
      using assms(1) j unfolding leases_ok_def by blast
    show ?thesis
    proof (cases "providerOf w i = Some n")
      case True
      from assms(6) [OF this mg(1)] mg assms(3) show ?thesis by (auto simp: Binding_def bump_def)
    next
      case False
      then have "j \<noteq> i" using j by auto
      then show ?thesis using assms(5) [OF False] mg assms(3) by simp
    qed
  qed
  moreover have "mgr_ok mg'" if n: "wmanagers w' n = Some mg'" for n mg'
  proof (cases "providerOf w i = Some n")
    case True
    then obtain mg where mg: "wmanagers w n = Some mg" using assms(1) unfolding leases_ok_def by blast
    then have "mgr_ok mg" using assms(1) unfolding leases_ok_def by blast
    then show ?thesis using assms(6) [OF True mg] n by auto
  next
    case False
    then show ?thesis using assms(1) assms(5) [OF False] n unfolding leases_ok_def by metis
  qed
  moreover have "providerOf w' = providerOf w" by (rule providerOf_cong [OF assms(2)])
  ultimately show ?thesis using assms(4) by (simp add: leases_ok_def)
qed

lemma grantTracked_fields:
  assumes "grantTracked req m w = (ok, w')"
  shows "handling w' = (if ok then (Respond req, m) # handling w else handling w)" "ended w' = ended w"
    "processes w' = processes w" "wmanagers w' = wmanagers w"
  using assms by (auto simp: grantTracked_def grant_def split: if_splits)

lemma Acquire_fields:
  "Acquire a m = (True, m') \<Longrightarrow> bindings m' = bindings m \<and> mactive m' = bump a 1 (mactive m)"
  "Acquire a m = (False, m') \<Longrightarrow> m' = m"
  by (auto simp: Acquire_def split: if_splits)

lemma Release_fields:
  assumes "Binding a m \<noteq> None"
  shows "bindings (Release a m) = bindings m"
    "mactive (Release a m) = (if 0 < mactive m a then bump a (-1) (mactive m) else mactive m)"
  using assms by (auto simp: Release_def Let_def)

lemma router_inv_grantServe:
  assumes w: "router_inv c w" and g: "grantServe req m w = (ok, w')"
  shows "router_inv (if ok then bump m 1 c else c) w'"
proof -
  have lok: "leases_ok c w" and cok: "commands_ok w" using w by (simp_all add: router_inv_def)
  have exact: "c j = running w j + int (count_list (ended w) j)" for j using lok by (simp add: leases_ok_def)
  show ?thesis
  proof (cases "providerOf w m")
    case None
    then have t: "grantTracked req m w = (ok, w')" using g by (simp add: grantServe_def)
    note f = grantTracked_fields [OF t]
    have "leases_ok (if ok then bump m 1 c else c) w'"
      by (rule leases_move [OF lok f(3), where i = m and d = "if ok then 1 else 0"])
        (use None f exact in \<open>auto simp: running_def bump_def\<close>)
    then show ?thesis using cok f(3) by (simp add: router_inv_def commands_ok_def)
  next
    case (Some n)
    then obtain mg where mg: "wmanagers w n = Some mg" "Binding m mg \<noteq> None" "mactive mg m = running w m"
      using lok unfolding leases_ok_def by blast
    obtain leased mg1 where a: "Acquire m mg = (leased, mg1)" by force
    let ?w1 = "w\<lparr>wmanagers := (wmanagers w)(n \<mapsto> mg1)\<rparr>"
    have on: "onManager n (Acquire m) False w = (leased, ?w1)" using mg a by (simp add: onManager_def)
    show ?thesis
    proof (cases leased)
      case False
      then have "mg1 = mg" using Acquire_fields(2) [of m mg mg1] a by simp
      then have same: "?w1 = w" using map_upd_triv [where t = "wmanagers w", OF mg(1)] by simp
      let ?r = "Inl (ProviderError [] ''model_transitioning'' ''provider model is changing residency'' 503)"
      have "\<not> ok" "w' = snd (grant req ?r w)"
        using g on same False by (simp_all add: grantServe_def Some)
      then show ?thesis using leases_grant [OF lok, of req ?r] cok by (simp add: router_inv_def commands_ok_def)
    next
      case True
      have m1: "bindings mg1 = bindings mg" "mactive mg1 = bump m 1 (mactive mg)"
        using Acquire_fields(1) a True by auto
      have ok1: "mgr_ok mg \<longrightarrow> mgr_ok mg1" using Acquire_ok [of mg m] a by simp
      obtain landed w2 where t: "grantTracked req m ?w1 = (landed, w2)" by force
      note f = grantTracked_fields [OF t]
      show ?thesis
      proof (cases landed)
        case True
        then have "ok" "w' = w2" using g on t \<open>leased\<close> by (simp_all add: grantServe_def Some)
        moreover have "leases_ok (bump m 1 c) w2"
          by (rule leases_move [OF lok, where i = m and d = 1])
            (use f m1 mg ok1 True exact Some in \<open>auto simp: running_def bump_def\<close>)
        ultimately show ?thesis using cok f(3) by (simp add: router_inv_def commands_ok_def)
      next
        case False
        have p2: "providerOf w2 m = Some n" using Some providerOf_cong [OF f(3)] by (simp add: providerOf_def)
        have w2m: "wmanagers w2 n = Some mg1" using f(4) by simp
        have "w' = onProvider m (Release m) w2" "\<not> ok"
          using g on t \<open>leased\<close> False by (simp_all add: grantServe_def Some)
        then have w': "w' = w2\<lparr>wmanagers := (wmanagers w2)(n \<mapsto> Release m mg1)\<rparr>" "\<not> ok"
          using p2 w2m by (simp_all add: onProvider_def onManager_def)
        have "0 < mactive mg1 m" using m1 mg(3) by (simp add: bump_def running_def)
        then have rel: "bindings (Release m mg1) = bindings mg" "mactive (Release m mg1) = mactive mg"
          using Release_fields [of m mg1] m1 mg(2) by (auto simp: Binding_def bump_def fun_eq_iff)
        have ok2: "mgr_ok mg \<longrightarrow> mgr_ok (Release m mg1)" using ok1 Release_ok by blast
        have "leases_ok c w'"
          by (rule leases_move [OF lok, where i = m and d = 0])
            (use f w' rel ok2 mg False exact Some in \<open>auto simp: running_def bump_def\<close>)
        then show ?thesis using cok f(3) w' by (simp add: router_inv_def commands_ok_def)
      qed
    qed
  qed
qed

lemma endHandler_inv:
  assumes "router_inv c w" "h \<in> set (handling w)"
  shows "router_inv c (endHandler h w)"
proof -
  obtain r m where h: "h = (r, m)" by force
  have lok: "leases_ok c w" and cok: "commands_ok w" using assms(1) by (simp_all add: router_inv_def)
  have exact: "c j = running w j + int (count_list (ended w) j)" for j using lok by (simp add: leases_ok_def)
  have cnt: "count_list (map snd xs) j = count_list (map snd (remove1 h xs)) j + (if j = m then 1 else 0)"
    if "h \<in> set xs" for j and xs :: "(nat \<times> string) list"
    using that by (induction xs) (auto simp: h)
  let ?w0 = "w\<lparr>handling := remove1 h (handling w)\<rparr>"
  let ?w1 = "onProvider m (Release m) ?w0"
  have run: "running ?w0 j = running w j + (if j = m then - 1 else 0)" for j
    using cnt [OF assms(2), of j] by (simp add: running_def)
  have w': "endHandler h w = ?w1\<lparr>ended := m # ended ?w1\<rparr>" by (simp add: endHandler_def h Let_def)
  have fields: "handling ?w1 = handling ?w0" "ended ?w1 = ended w"
    by (auto simp: onProvider_def onManager_def split: option.split)
  have run': "running (endHandler h w) j = running w j + (if j = m then - 1 else 0)" for j
    using run running_cong [of "endHandler h w" ?w0] fields w' by simp
  have mgrs: "wmanagers (endHandler h w) = (case providerOf w m of None \<Rightarrow> wmanagers w
      | Some n \<Rightarrow> (case wmanagers w n of None \<Rightarrow> wmanagers w | Some mg \<Rightarrow> (wmanagers w)(n \<mapsto> Release m mg)))"
    unfolding w' by (auto simp: onProvider_def onManager_def providerOf_def split: option.split backend.split)
  have "m \<in> set (map snd (handling w))" using assms(2) by (force simp: h)
  then have pos: "0 < running w m" using count_list_0_iff [of "map snd (handling w)" m] by (simp add: running_def)
  have "leases_ok c (endHandler h w)"
  proof (rule leases_move [OF lok, where i = m and d = "- 1"])
    show "c j = running (endHandler h w) j + int (count_list (ended (endHandler h w)) j)" for j
      using exact [of j] run' [of j] fields w' by simp
    fix n mg assume n: "providerOf w m = Some n" "wmanagers w n = Some mg"
    then have "Binding m mg \<noteq> None" "mactive mg m = running w m"
      using lok unfolding leases_ok_def by (metis option.inject)+
    then show "\<exists>mg'. wmanagers (endHandler h w) n = Some mg' \<and> bindings mg' = bindings mg \<and> mactive mg' = bump m (- 1) (mactive mg) \<and>
        (mgr_ok mg \<longrightarrow> mgr_ok mg')"
      using n pos Release_fields [of m mg] Release_ok [of mg m] mgrs by simp
  qed (use run' mgrs w' in \<open>auto split: option.split\<close>)
  then show ?thesis using cok w' by (simp add: router_inv_def commands_ok_def)
qed

lemma reported_done:
  assumes "router_inv c w" "m \<in> set (ended w)"
  shows "router_inv (bump m (-1) c) (w\<lparr>ended := remove1 m (ended w)\<rparr>)" "0 < c m"
proof -
  have cnt: "count_list (remove1 m xs) j = count_list xs j - (if j = m then 1 else 0)" for xs and j :: string
    by (induction xs) auto
  have pos: "0 < count_list (ended w) m" using assms(2) count_list_0_iff [of "ended w" m] by simp
  have exact: "c j = running w j + int (count_list (ended w) j)" for j
    using assms(1) by (simp add: router_inv_def leases_ok_def)
  have "0 \<le> running w m" by (simp add: running_def)
  then show "0 < c m" using exact [of m] pos by linarith
  let ?w = "w\<lparr>ended := remove1 m (ended w)\<rparr>"
  have "bump m (-1) c j = running ?w j + int (count_list (ended ?w) j)" for j
    using exact [of j] pos by (cases "j = m") (simp_all add: bump_def cnt running_def of_nat_diff)
  moreover have "providerOf ?w = providerOf w" "running ?w = running w"
    by (rule providerOf_cong running_cong; simp)+
  ultimately show "router_inv (bump m (-1) c) ?w"
    using assms(1) by (simp add: router_inv_def leases_ok_def commands_ok_def)
qed

section \<open>The effects keep the invariant\<close>

interpretation router: world_invariant "routerFx cls planner" router_inv for cls planner
proof
  fix c and w :: "'a World" and m ev req e d and k v :: string and a
  assume w: "router_inv c w"
  show "router_inv c (StartSwap (routerFx cls planner) m ev w)"
    using router_inv_bookkeeping(2) [OF router_inv_same [OF w same_leases_onProvider [of "BeginSwap m ev"]]]
    by (simp add: routerFx_def startSwapIn_def)
  show "router_inv c (GrantError (routerFx cls planner) req e w)"
    using w leases_grant [of c w req "Inl e"] by (simp add: routerFx_def router_inv_def commands_ok_def)
  show "router_inv c (QueueDelta (routerFx cls planner) m d w)"
    "router_inv c (ResidentAdmission (routerFx cls planner) m w)"
    "router_inv c (FairnessPromotion (routerFx cls planner) m w)"
    by (simp_all add: routerFx_def router_inv_same [OF w same_leases_onProvider])
  show "router_inv c (QueueWait (routerFx cls planner) m d w)" "router_inv c (OnSwapStart (routerFx cls planner) m ev w)"
    "router_inv c (SetReqData (routerFx cls planner) req k v w)"
    "router_inv c (snd (SendAdmit (routerFx cls planner) req a w))"
    using w by (simp_all add: routerFx_def router_inv_bookkeeping)
  show "router_inv c (StopProcesses (routerFx cls planner) d ev w)"
    using w by (simp add: routerFx_def stopProcesses_def router_inv_fold router_inv_stop)
qed (simp add: routerFx_def router_inv_grantServe)

end
