(* ===== verification/Router_Props.thy ===== *)
theory Router_Props
  imports Router_Inv
begin

text \<open>
  Runs of a router: its loop's events, its handlers and swap goroutines, and its environment. A swap
  runs in one step here; whatever may happen to processes and managers while it runs is also a step
  of its own.
\<close>

section \<open>Construction\<close>

text \<open>What a registry provides for the router: managers without leases, one for every bound model.\<close>

definition registry_ready :: "'w Registry \<Rightarrow> bool" where
  "registry_ready r \<longleftrightarrow>
     (\<forall>(n, m)\<in>set (managers r). mgr_ok m \<and> mactive m = (\<lambda>_. 0)) \<and>
     (\<forall>a n. managerOf r a = Some n \<longrightarrow> (\<exists>m. map_of (managers r) n = Some m \<and> Binding a m \<noteq> None))"

lemma startManager_frame:
  assumes "startManager (noLeases cl) required m = Inr m'"
  shows "lease_frame m m'"
proof -
  obtain e m1 where r: "reconcileLocked (noLeases cl) True m = (e, m1)" by force
  then have "m' = m1" using assms by (auto simp: startManager_def split: option.splits if_splits)
  then show ?thesis using lease.keep_reconcile [OF r, of m] by simp
qed

lemma startAll_lookup:
  "map_of (managers r) n = None \<Longrightarrow> map_of (managers r @ [(n, m)]) k = (if k = n then Some m else map_of (managers r) k)"
  by (auto simp: map_add_def split: option.split)

lemma startAll_ready:
  assumes "startAll (\<lambda>n. noLeases (cls n)) mods pls ps r = Inr r'" "registry_ready r"
    "distinct (map fst (managers r) @ map fst ps)"
  shows "registry_ready r'"
  using assms
proof (induction ps arbitrary: r)
  case (Cons x ps)
  obtain n required w where x: "x = (n, required, w)" by (cases x)
  let ?m = "newManager n mods pls w"
  obtain m1 where m1: "startManager (noLeases (cls n)) required ?m = Inr m1"
    and rest: "startAll (\<lambda>n. noLeases (cls n)) mods pls ps
        \<lparr>managers = managers r @ [(n, m1)], managerOf = (\<lambda>a. if map_of (bindings ?m) a \<noteq> None then Some n else managerOf r a)\<rparr> = Inr r'"
    using Cons.prems(1) by (cases "startManager (noLeases (cls n)) required ?m") (simp_all add: x Let_def)
  have f: "lease_frame ?m m1" by (rule startManager_frame [OF m1])
  then have m: "mgr_ok m1" "mactive m1 = (\<lambda>_. 0)" "bindings m1 = bindings ?m"
    using newManager_ok [of n mods pls w] by (simp_all add: lease_frame_def) (simp add: newManager_def Let_def)
  have new: "map_of (managers r) n = None" using Cons.prems(3) by (auto simp: x map_of_eq_None_iff)
  have noref: "managerOf r a \<noteq> Some n" for a
    using Cons.prems(2) new unfolding registry_ready_def by (metis option.distinct(1))
  show ?case
  proof (rule Cons.IH [OF rest])
    show "registry_ready \<lparr>managers = managers r @ [(n, m1)],
        managerOf = (\<lambda>a. if map_of (bindings ?m) a \<noteq> None then Some n else managerOf r a)\<rparr>"
      using Cons.prems(2) m new noref startAll_lookup [of r n m1]
      by (auto simp: registry_ready_def Binding_def)
  qed (use Cons.prems(3) in \<open>auto simp: x\<close>)
qed simp

lemma NewRegistry_ready:
  "NewRegistry (\<lambda>n. noLeases (cls n)) mods pls ps = Inr r \<Longrightarrow> distinct (map fst ps) \<Longrightarrow> registry_ready r"
  unfolding NewRegistry_def by (rule startAll_ready, assumption) (simp add: registry_ready_def, simp)

lemma map_sum_Inr: "map_sum id f x = Inr y \<longleftrightarrow> (\<exists>z. x = Inr z \<and> y = f z)"
  by (cases x) auto

lemma buildProcesses_keys: "buildProcesses reg xs = Inr procs \<Longrightarrow> map fst procs = map fst xs"
  by (induction reg xs arbitrary: procs rule: buildProcesses.induct) (auto simp: map_sum_Inr split: sum.splits)

lemma buildProcesses_in:
  "buildProcesses reg xs = Inr procs \<Longrightarrow> (i, b) \<in> set procs \<Longrightarrow> \<exists>mc. newConfiguredProcess reg i mc = Inr b"
  by (induction reg xs arbitrary: procs rule: buildProcesses.induct) (auto simp: map_sum_Inr split: sum.splits)

lemma newWorld_inv:
  assumes "buildProcesses reg xs = Inr procs" "distinct (map fst xs)"
    "\<And>r. reg = Some r \<Longrightarrow> registry_ready r"
  shows "router_inv (\<lambda>_. 0) (newWorld reg procs)"
proof -
  let ?w = "newWorld reg procs"
  have d: "distinct (map fst procs)" using buildProcesses_keys [OF assms(1)] assms(2) by simp
  have cmd: "b = Command mc' NewProc \<or> (\<exists>n. b = Provided n)" if "newConfiguredProcess reg i mc' = Inr b" for i mc' b
    using that by (auto simp: newConfiguredProcess_def split: if_splits option.splits)
  then have "commands_ok ?w"
    using buildProcesses_in [OF assms(1)] d preach.init by (fastforce simp: commands_ok_def newWorld_def)
  moreover have "\<exists>mg. wmanagers ?w n = Some mg \<and> Binding i mg \<noteq> None \<and> mactive mg i = running ?w i"
    if i: "providerOf ?w i = Some n" for i n
  proof -
    have "(i, Provided n) \<in> set procs"
      using i by (auto simp: providerOf_def newWorld_def split: option.splits backend.splits dest: map_of_SomeD)
    then obtain mc where "newConfiguredProcess reg i mc = Inr (Provided n)" using buildProcesses_in [OF assms(1)] by blast
    then obtain r where r: "reg = Some r" "managerOf r i = Some n"
      by (auto simp: newConfiguredProcess_def ManagerForModel_def split: if_splits option.splits bind_splits)
    then obtain m where m: "map_of (managers r) n = Some m" "Binding i m \<noteq> None"
      using assms(3) [OF r(1)] unfolding registry_ready_def by blast
    moreover have "mactive m = (\<lambda>_. 0)"
      using assms(3) [OF r(1)] map_of_SomeD [OF m(1)] unfolding registry_ready_def by blast
    ultimately have "map_of (managers r) n = Some m" "Binding i m \<noteq> None" "mactive m = (\<lambda>_. 0)" by blast+
    then show ?thesis using r by (simp add: newWorld_def running_def)
  qed
  moreover have "mgr_ok mg" if mg: "wmanagers ?w n = Some mg" for n mg
  proof -
    obtain r where r: "reg = Some r" "map_of (managers r) n = Some mg"
      using mg by (auto simp: newWorld_def split: option.splits)
    then show ?thesis using assms(3) [OF r(1)] map_of_SomeD [OF r(2)] unfolding registry_ready_def by blast
  qed
  ultimately show ?thesis by (simp add: router_inv_def leases_ok_def) (simp add: newWorld_def running_def)
qed

section \<open>Runs\<close>

inductive router_reach :: "(string \<Rightarrow> 'w Lifecycle) \<Rightarrow> ('w World \<Rightarrow> string \<Rightarrow> string list \<Rightarrow> string list) \<Rightarrow>
    'w World FIFO \<Rightarrow> bool" for cls planner where
  start: "buildProcesses reg xs = Inr procs \<Longrightarrow> distinct (map fst xs) \<Longrightarrow>
    (\<And>r. reg = Some r \<Longrightarrow> \<exists>mods pls ps. NewRegistry (\<lambda>n. noLeases (cls n)) mods pls ps = Inr r \<and> distinct (map fst ps)) \<Longrightarrow>
    router_reach cls planner (NewFIFOWithLifecycle nm prio cfgs lps (newWorld reg procs))"
| request: "router_reach cls planner s \<Longrightarrow> OnRequest (routerFx cls planner) req s = Some t \<Longrightarrow> router_reach cls planner t"
| cancel: "router_reach cls planner s \<Longrightarrow> OnCancel (routerFx cls planner) req s = Some t \<Longrightarrow> router_reach cls planner t"
| unload: "router_reach cls planner s \<Longrightarrow> OnUnload (routerFx cls planner) ids d s = Some t \<Longrightarrow> router_reach cls planner t"
| swap_done: "router_reach cls planner s \<Longrightarrow> (m, e) \<in> set (reported (world s)) \<Longrightarrow>
    OnSwapDone (routerFx cls planner) m e (onWorld (\<lambda>w. w\<lparr>reported := remove1 (m, e) (reported w)\<rparr>) s) = Some t \<Longrightarrow>
    router_reach cls planner t"
| serve_done: "router_reach cls planner s \<Longrightarrow> m \<in> set (ended (world s)) \<Longrightarrow>
    OnServeDone (routerFx cls planner) m (onWorld (\<lambda>w. w\<lparr>ended := remove1 m (ended w)\<rparr>) s) = Some t \<Longrightarrow>
    router_reach cls planner t"
| handler_ends: "router_reach cls planner s \<Longrightarrow> h \<in> set (handling (world s)) \<Longrightarrow>
    router_reach cls planner (onWorld (endHandler h) s)"
| swap: "router_reach cls planner s \<Longrightarrow> (m, ev) \<in> set (launched (world s)) \<Longrightarrow>
    doSwap cls m ev ((world s)\<lparr>launched := remove1 (m, ev) (launched (world s))\<rparr>) = Some w \<Longrightarrow>
    router_reach cls planner (s\<lparr>world := w\<rparr>)"
| stop: "router_reach cls planner s \<Longrightarrow> router_reach cls planner (onWorld (stopBackend cls i) s)"
| command: "router_reach cls planner s \<Longrightarrow> map_of (processes (world s)) i = Some (Command mc p) \<Longrightarrow>
    set (eventReqs ev) \<subseteq> {freshReq p} \<Longrightarrow>
    router_reach cls planner (onWorld (setBackend i (Command mc (step i mc ev p))) s)"
| manager: "router_reach cls planner s \<Longrightarrow> wmanagers (world s) n = Some mg \<Longrightarrow> lease_frame mg mg' \<Longrightarrow>
    router_reach cls planner (onWorld (\<lambda>w. w\<lparr>wmanagers := (wmanagers w)(n \<mapsto> mg')\<rparr>) s)"
| callers: "router_reach cls planner s \<Longrightarrow>
    router_reach cls planner (s\<lparr>world := (world s)\<lparr>listening := l, admitting := a, starting := st, inTime := it,
      arrange := ar, clock := ti\<rparr>, positions := ps\<rparr>)"

text \<open>The steps of the managers are such frames.\<close>

lemma manager_frames:
  "lease_frame m (snd (reconcileLocked (noLeases cl) d m))" "lease_frame m (snd (Load (noLeases cl) a m))"
  "lease_frame m (snd (Unload (noLeases cl) a m))" "lease_frame m (snd (UnloadAll (noLeases cl) m))"
  "lease_frame m (restore (noLeases cl) a m)"
  by (rule lease.keep_reconcile [OF surjective_pairing] lease.keep_Load [OF surjective_pairing]
      lease.keep_Unload [OF surjective_pairing] lease.keep_UnloadAll [OF surjective_pairing] lease.keep_restore; simp)+

lemma router_reach_inv: "router_reach cls planner s \<Longrightarrow> router_inv (inFlight s) (world s)"
proof (induction rule: router_reach.induct)
  case (start reg xs procs nm prio cfgs lps)
  have "registry_ready r" if "reg = Some r" for r
    using start(3) [OF that] NewRegistry_ready by blast
  then show ?case using newWorld_inv [OF start(1,2)] by (simp add: NewFIFOWithLifecycle_def)
next
  case (request s req t)
  then show ?case using router.keep_OnRequest by (simp add: inv_on_def)
next
  case (cancel s req t)
  then show ?case using router.keep_OnCancel by (simp add: inv_on_def)
next
  case (unload s ids d t)
  then show ?case using router.keep_OnUnload by (simp add: inv_on_def)
next
  case (swap_done s m e t)
  have "inv_on router_inv (onWorld (\<lambda>w. w\<lparr>reported := remove1 (m, e) (reported w)\<rparr>) s)"
    using router_inv_bookkeeping(1) [OF swap_done.IH] by simp
  then show ?case using router.keep_OnSwapDone [OF swap_done(3)] by (simp add: inv_on_def)
next
  case (serve_done s m t)
  let ?s = "onWorld (\<lambda>w. w\<lparr>ended := remove1 m (ended w)\<rparr>) s"
  note inv = reported_done [OF serve_done.IH serve_done(2)]
  have "router_inv (bump m (-1) (inFlight ?s)) (world ?s)" "0 < inFlight ?s m"
    using inv by (simp_all add: onWorld_def)
  then show ?case using router.keep_OnServeDone [OF serve_done(3)] by (simp add: inv_on_def)
next
  case (handler_ends s h)
  then show ?case using endHandler_inv by (simp add: onWorld_def)
next
  case (swap s m ev w)
  show ?case using router_inv_doSwap [OF swap(3) router_inv_bookkeeping(2) [OF swap.IH]] by simp
next
  case (stop s i)
  then show ?case by (simp add: onWorld_def router_inv_stop)
next
  case (command s i mc p ev)
  then obtain rs where "preach i mc p rs" using commands_okD unfolding router_inv_def by blast
  then show ?case using router_inv_setBackend [OF command.IH command(2) step_preach] command(3) by (simp add: onWorld_def)
next
  case (manager s n mg mg')
  then have "same_leases (world s) ((world s)\<lparr>wmanagers := (wmanagers (world s))(n \<mapsto> mg')\<rparr>)"
    by (simp add: same_leases_def option.rel_refl)
  then show ?case using router_inv_same [OF manager.IH] by (simp add: onWorld_def)
next
  case (callers s l a st it ar ti ps)
  then show ?case by (auto elim!: router_inv_same intro: same_leasesI)
qed

section \<open>Stopping, starting and cancelling a command\<close>

lemma healthLoop_ends:
  "beforePoll x = WaitCancelled \<or> beforePoll x = WaitElapsed \<and> pastDeadline x \<Longrightarrow> healthLoop t (os @ [x]) \<noteq> None"
  by (induction os) (auto split: wait_end.split)

lemma doStart_ends: "doStart mc (cancelledStart obs) p \<noteq> None" "doStart mc (boundedStart obs) p \<noteq> None"
proof -
  have ends: "healthLoop t (polls (cancelledStart obs)) \<noteq> None" "healthLoop t (polls (boundedStart obs)) \<noteq> None" for t
    by (simp_all add: cancelledStart_def boundedStart_def healthLoop_ends del: healthLoop.simps not_None_eq)
  show "doStart mc (cancelledStart obs) p \<noteq> None" "doStart mc (boundedStart obs) p \<noteq> None"
    using ends [of "timeoutText (cancelledStart obs)"] ends [of "timeoutText (boundedStart obs)"]
    by (auto simp: doStart_def Let_def split: option.splits start_end.splits)
qed

lemma stopCommand_down:
  assumes "proc_inv p"
  shows "alive (snd (stopCommand i mc obs t p)) = []"
    "pstate (snd (stopCommand i mc obs t p)) \<in> {StateStopped, StateShutdown}"
proof -
  let ?q = "snd (stopCommand i mc obs t p)"
  have "alive ?q = [] \<and> pstate ?q \<in> {StateStopped, StateShutdown}"
  proof (cases "phase p")
    case Select
    then have "?q = onStop i (freshReq p) t p" by (simp add: stopCommand_def step_def handle_def Let_def)
    then show ?thesis using assms Select by (auto simp: proc_inv_def onStop_def Let_def split: if_splits)
  next
    case (InStart r b)
    then have a: "alive p = []" using assms by (simp add: proc_inv_def)
    obtain res u where d: "doStart mc (cancelledStart obs) p = Some (res, u)" using doStart_ends(1) by fastforce
    have "?q = onStopInStart res r (freshReq p) t u"
      using InStart d by (simp add: stopCommand_def step_def handle_def Let_def)
    then show ?thesis using doStart_cases [OF d a] by (simp add: onStopInStart_def Let_def split: sum.splits)
  next
    case Returned
    then show ?thesis using assms by (simp add: stopCommand_def proc_inv_def)
  qed
  then show "alive ?q = []" "pstate ?q \<in> {StateStopped, StateShutdown}" by simp_all
qed

lemma cancelCommand_returns: "phase (cancelCommand i mc obs t p) = Returned"
proof (cases "phase p")
  case Select
  then show ?thesis by (simp add: cancelCommand_def step_def handle_def onParentDone_def Let_def)
next
  case (InStart r b)
  obtain res u where "doStart mc (cancelledStart obs) p = Some (res, u)" using doStart_ends(1) by fastforce
  then show ?thesis using InStart by (simp add: cancelCommand_def step_def handle_def onParentDoneInStart_def Let_def)
qed (simp add: cancelCommand_def)

lemma settle_phase: "\<exists>b. phase (settle i mc obs p) = (if phase p = Returned then Returned else Select)"
proof (cases "phase p")
  case (InStart r b)
  obtain res u where "doStart mc (boundedStart obs) p = Some (res, u)" using doStart_ends(2) by fastforce
  then show ?thesis using InStart by (simp add: settle_def step_def handle_def onStarted_def Let_def split: sum.split)
qed (simp_all add: settle_def)

lemma freshReq_unused:
  assumes "preach i mc p rs" "phase p \<noteq> Returned"
  shows "freshReq p \<notin> fst ` set (replies p)" "freshReq p \<notin> set (readyWaiters p)"
proof -
  have "mset (map fst (replies p)) + mset (pending p) = mset rs"
    using preach_ledger [OF assms(1)] assms(2) by (auto simp: ledger_def)
  then have "set rs = fst ` set (replies p) \<union> set (pending p)"
    by (metis set_mset_mset set_mset_union list.set_map)
  then show "freshReq p \<notin> fst ` set (replies p)" "freshReq p \<notin> set (readyWaiters p)"
    using freshReq_new [OF assms] by (auto simp: pending_def)
qed

lemma answerOf_last:
  assumes "replies q = rs @ [(r, e)]" "r \<notin> fst ` set rs"
  shows "answerOf r q = e"
proof -
  have "map_of rs r = None" using assms(2) by (simp add: map_of_eq_None_iff)
  then show ?thesis using assms(1) by (simp add: answerOf_def map_add_def)
qed

text \<open>A start that reports success leaves the command ready.\<close>

lemma ensureCommand_ready:
  assumes "preach i mc p0 rs" "ensureCommand i mc obs p0 = (None, q)"
  shows "pstate q = StateReady"
proof -
  define p where "p = settle i mc obs p0"
  obtain rs1 where p: "preach i mc p rs1" using command_preach(2) [OF assms(1)] unfolding p_def by blast
  have nr: "phase p \<noteq> Returned" using assms(2) by (auto simp: ensureCommand_def p_def [symmetric] Let_def)
  then have sel: "phase p = Select" using settle_phase [of i mc obs p0] by (auto simp: p_def split: if_splits)
  let ?r = "freshReq p"
  note new = freshReq_unused [OF p nr]
  define p1 where "p1 = onStart i ?r False p"
  have q: "q = settle i mc obs p1" "answerOf ?r q = None"
    using assms(2) sel by (auto simp: ensureCommand_def p_def [symmetric] Let_def step_def handle_def p1_def)
  have pi: "proc_inv p" by (rule preach_inv [OF p])
  show ?thesis
  proof (cases "pstate p = StateStopped")
    case True
    then have p1: "p1 = (setState StateStarting p)\<lparr>phase := InStart ?r False\<rparr>" by (simp add: p1_def onStart_def)
    have a: "alive p1 = []" using pi sel True p1 by (simp add: proc_inv_def)
    obtain res u where d: "doStart mc (boundedStart obs) p1 = Some (res, u)" using doStart_ends(2) by fastforce
    have qs: "q = onStarted res ?r False u"
      using d p1 by (simp add: q(1) settle_def step_def handle_def)
    note u = doStart_cases [OF d a]
    show ?thesis
    proof (cases res)
      case (Inl e)
      let ?told = "replies p @ map (\<lambda>w. (w, Some e)) (readyWaiters p)"
      have "replies q = ?told @ [(?r, Some e)]" using Inl qs u p1 by (simp add: onStarted_def)
      moreover have "?r \<notin> fst ` set ?told" using new by auto
      ultimately have "answerOf ?r q = Some e" by (rule answerOf_last)
      then show ?thesis using q(2) by simp
    next
      case (Inr pid)
      then show ?thesis using qs by (simp add: onStarted_def Let_def)
    qed
  next
    case False
    then have ready: "pstate p = StateReady" using pi sel by (auto simp: proc_inv_def split: if_splits)
    then have "p1 = reply ?r None p" by (simp add: p1_def onStart_def)
    then show ?thesis using q(1) sel ready by (simp add: settle_def)
  qed
qed

end
