(* ===== verification/Router_Runs.thy ===== *)
theory Router_Runs
  imports Router_Props Scheduler_Props
begin

text \<open>The properties of the router and a run they apply to.\<close>

section \<open>Stops\<close>

lemma stopBackend_lookup:
  "map_of (processes (stopBackend cls i w)) j =
     (case map_of (processes w) i of
        Some (Command mc p) \<Rightarrow>
          if j = i then Some (Command mc (snd (stopCommand i mc (starting w i) (inTime w i) p))) else map_of (processes w) j
      | _ \<Rightarrow> map_of (processes w) j)"
  by (auto simp: stopBackend_def setBackend_def update_conv' split: option.split backend.split)

lemma fold_stop_others:
  "j \<notin> set ids \<Longrightarrow> map_of (processes (fold (stopBackend cls) ids w)) j = map_of (processes w) j"
  by (induction ids arbitrary: w) (auto simp: stopBackend_lookup split: option.split backend.split)

definition is_down :: "backend option \<Rightarrow> bool" where
  "is_down b \<longleftrightarrow> (case b of Some (Command mc p) \<Rightarrow> alive p = [] \<and> pstate p \<in> {StateStopped, StateShutdown} | _ \<Rightarrow> True)"

lemma stop_down:
  assumes "commands_ok w"
  shows "is_down (map_of (processes (stopBackend cls i w)) i)"
    "is_down (map_of (processes w) j) \<Longrightarrow> is_down (map_of (processes (stopBackend cls i w)) j)"
proof -
  have now: "is_down (map_of (processes (stopBackend cls i w)) i)"
  proof (cases "map_of (processes w) i")
    case (Some b)
    show ?thesis
    proof (cases b)
      case (Command mc p)
      then obtain rs where "preach i mc p rs" using Some commands_okD [OF assms] by blast
      then show ?thesis using stopCommand_down [OF preach_inv] Some Command by (simp add: stopBackend_lookup is_down_def)
    qed (simp add: Some stopBackend_lookup is_down_def)
  qed (simp add: stopBackend_lookup is_down_def)
  then show "is_down (map_of (processes (stopBackend cls i w)) i)" .
  assume "is_down (map_of (processes w) j)"
  then show "is_down (map_of (processes (stopBackend cls i w)) j)"
    using now by (cases "j = i") (simp_all add: stopBackend_lookup split: option.split backend.split)
qed

lemma commands_ok_stop: "commands_ok w \<Longrightarrow> commands_ok (stopBackend cls i w)"
proof (cases "map_of (processes w) i")
  case (Some b)
  assume w: "commands_ok w"
  show ?thesis
  proof (cases b)
    case (Command mc p)
    then obtain rs where "preach i mc p rs" using Some commands_okD [OF w] by blast
    from commands_ok_setBackend [OF w command_preach(1) [OF this]] show ?thesis
      using Some Command by (simp add: stopBackend_def)
  qed (use w Some in \<open>simp add: stopBackend_def commands_ok_def\<close>)
qed (simp add: stopBackend_def)

lemma fold_stop_down:
  "commands_ok w \<Longrightarrow> i \<in> set ids \<or> is_down (map_of (processes w) i) \<Longrightarrow>
   is_down (map_of (processes (fold (stopBackend cls) ids w)) i)"
proof (induction ids arbitrary: w)
  case (Cons a ids)
  have "is_down (map_of (processes (stopBackend cls a w)) i)" if "i = a \<or> is_down (map_of (processes w) i)"
    using that stop_down [OF Cons.prems(1)] by blast
  then show ?case using Cons.IH [OF commands_ok_stop [OF Cons.prems(1)]] Cons.prems(2) by auto
qed simp

lemma processes_unloadAlls: "processes (fold (\<lambda>n. snd \<circ> onManager n (f n) r) ns w) = processes w"
  by (induction ns arbitrary: w) simp_all

lemma providerOf_is_down: "providerOf w i = Some n \<Longrightarrow> is_down (map_of (processes w) i)"
  by (auto simp: providerOf_def is_down_def split: option.splits backend.splits)

section \<open>The router as a scheduler\<close>

lemma sched_world: "sched_reach fx s \<Longrightarrow> sched_reach fx (onWorld f s)"
  using sched_reach.environment [where s = s and w = "f (world s)" and p = "positions s"] by (simp add: onWorld_def)

lemma router_reach_sched: "router_reach cls planner s \<Longrightarrow> sched_reach (routerFx cls planner) s"
proof (induction rule: router_reach.induct)
  case (start reg xs procs nm prio cfgs lps)
  show ?case by (rule sched_reach.start)
next
  case (request s req t)
  then show ?case using sched_reach.event [of _ s "EvRequest req"] by simp
next
  case (cancel s req t)
  then show ?case using sched_reach.event [of _ s "EvCancel req"] by simp
next
  case (unload s ids d t)
  then show ?case using sched_reach.event [of _ s "EvUnload ids d"] by simp
next
  case (swap_done s m e t)
  then show ?case using sched_reach.event [OF sched_world, of _ s "EvSwapDone m e"] by simp
next
  case (serve_done s m t)
  have "0 < inFlight s m" by (rule reported_done(2) [OF router_reach_inv [OF serve_done(1)] serve_done(2)])
  then have "enabled (EvServeDone m) (onWorld f s)" for f by (simp add: onWorld_def)
  moreover have "Scheduler_Props.handle (routerFx cls planner) (EvServeDone m) (onWorld (\<lambda>w. w\<lparr>ended := remove1 m (ended w)\<rparr>) s) = Some t"
    using serve_done(3) by simp
  ultimately show ?case using sched_reach.event [OF sched_world [OF serve_done.IH]] by blast
next
  case (swap s m ev w)
  then show ?case using sched_world [of _ s "\<lambda>_. w"] by (simp add: onWorld_def)
qed (rule sched_world sched_reach.environment, assumption)+

text \<open>What stopping and starting leave of the report list.\<close>

lemma reported_onManager [simp]: "reported (snd (onManager n f r w)) = reported w"
  by (auto simp: onManager_def split: option.split prod.split)

lemma reported_stop [simp]: "reported (stopBackend cls i w) = reported w"
  by (auto simp: stopBackend_def setBackend_def split: option.split backend.split)

lemma reported_unloadAlls: "reported (fold (\<lambda>n. snd \<circ> onManager n (f n) r) ns w) = reported w"
  by (induction ns arbitrary: w) simp_all

lemma reported_stops: "reported (fold (stopBackend cls) ids w) = reported w"
  by (induction ids arbitrary: w) simp_all

lemma reported_swapStops: "reported (swapStops cls target toStop w) = reported w"
  by (simp add: swapStops_def Let_def reported_unloadAlls reported_stops)

lemma reported_ensure:
  assumes "ensureBackend cls i b w = (e, w')"
  shows "reported w' = reported w"
proof (cases b)
  case (Provided n)
  then show ?thesis using assms reported_onManager [of n "Load (noLeases (cls n)) i" None w] by (simp add: ensureBackend_def)
qed (use assms in \<open>auto simp: ensureBackend_def setBackend_def split: prod.splits\<close>)

section \<open>A run\<close>

text \<open>A command and a provider model: a request for each, both served. The planner evicts nothing.\<close>

definition sideModel :: ModelConfig where
  "sideModel = memberOf ''S'' ResidencyTransient"

definition noEvictions :: "sim World \<Rightarrow> string \<Rightarrow> string list \<Rightarrow> string list" where
  "noEvictions w target run = []"

definition simRegistry :: "error + sim Registry" where
  "simRegistry = NewRegistry (\<lambda>n. noLeases simClient) [(''cmd'', cmdModel), (''side'', sideModel)] [(''pool'', simPool)]
     [(''p'', True, \<lparr>held = [], requests = []\<rparr>)]"

definition simModels :: "(string \<times> ModelConfig option) list" where
  "simModels = [(''cmd'', Some cmdModel), (''side'', Some sideModel)]"

definition newRouter :: "sim World FIFO option" where
  "newRouter =
     (case simRegistry of
        Inl e \<Rightarrow> None
      | Inr r \<Rightarrow> (case buildProcesses (Some r) simModels of
                    Inl e \<Rightarrow> None
                  | Inr procs \<Rightarrow> Some (NewFIFOWithLifecycle ''group'' (\<lambda>_. 0) (map_of [(''cmd'', cmdModel), (''side'', sideModel)])
                      [(''pool'', simPool)] (newWorld (Some r) procs))))"

definition awake :: "sim World FIFO \<Rightarrow> sim World FIFO" where
  "awake s = s\<lparr>world := (world s)\<lparr>listening := (\<lambda>_. True), admitting := (\<lambda>_. True), starting := (\<lambda>_. healthy),
     inTime := (\<lambda>_. True), arrange := (\<lambda>x. x), clock := 7\<rparr>, positions := positions s\<rparr>"

definition serveOne :: "string \<Rightarrow> nat \<Rightarrow> sim World FIFO \<Rightarrow> sim World FIFO option" where
  "serveOne m r s =
     Option.bind (OnRequest (routerFx (\<lambda>n. simClient) noEvictions) (mkReq m r) s) (\<lambda>s1.
     if (m, []) \<notin> set (launched (world s1)) then None
     else Option.bind (doSwap (\<lambda>n. simClient) m [] ((world s1)\<lparr>launched := remove1 (m, []) (launched (world s1))\<rparr>)) (\<lambda>w.
     if (m, None) \<notin> set (reported w) then None
     else OnSwapDone (routerFx (\<lambda>n. simClient) noEvictions) m None
         (onWorld (\<lambda>w. w\<lparr>reported := remove1 (m, None) (reported w)\<rparr>) (s1\<lparr>world := w\<rparr>))))"

definition busyRun :: "sim World FIFO option" where
  "busyRun = Option.bind newRouter (\<lambda>s. Option.bind (serveOne ''cmd'' 1 (awake s)) (serveOne ''side'' 2))"

definition busyRouter :: "sim World FIFO" where
  "busyRouter = (case busyRun of Some s \<Rightarrow> s | None \<Rightarrow> NewFIFOWithLifecycle [] (\<lambda>_. 0) Map.empty [] (newWorld None []))"

lemma newRouter_reach: "newRouter = Some s \<Longrightarrow> router_reach (\<lambda>n. simClient) noEvictions s"
proof -
  assume "newRouter = Some s"
  then obtain r procs where r: "simRegistry = Inr r" "buildProcesses (Some r) simModels = Inr procs"
      "s = NewFIFOWithLifecycle ''group'' (\<lambda>_. 0) (map_of [(''cmd'', cmdModel), (''side'', sideModel)])
             [(''pool'', simPool)] (newWorld (Some r) procs)"
    unfolding newRouter_def by (simp split: sum.splits)
  have "distinct (map fst simModels)" by (simp add: simModels_def)
  moreover have "\<exists>mods pls ps. NewRegistry (\<lambda>n. noLeases simClient) mods pls ps = Inr q \<and> distinct (map fst ps)"
    if "Some r = Some q" for q
  proof -
    have "NewRegistry (\<lambda>n. noLeases simClient) [(''cmd'', cmdModel), (''side'', sideModel)] [(''pool'', simPool)]
        [(''p'', True, \<lparr>held = [], requests = []\<rparr>)] = Inr q"
      using that r(1) by (simp add: simRegistry_def)
    moreover have "distinct (map fst [(''p'', True, \<lparr>held = [], requests = []\<rparr>)])" by simp
    ultimately show ?thesis by blast
  qed
  ultimately show ?thesis unfolding r(3) by (rule router_reach.start [OF r(2)])
qed

lemma serveOne_reach:
  assumes "serveOne m r s = Some t" "router_reach (\<lambda>n. simClient) noEvictions s"
  shows "router_reach (\<lambda>n. simClient) noEvictions t"
proof -
  let ?fx = "routerFx (\<lambda>n. simClient) noEvictions"
  obtain s1 w where 1: "OnRequest ?fx (mkReq m r) s = Some s1" "(m, []) \<in> set (launched (world s1))"
      "doSwap (\<lambda>n. simClient) m [] ((world s1)\<lparr>launched := remove1 (m, []) (launched (world s1))\<rparr>) = Some w"
      "(m, None) \<in> set (reported w)"
      "OnSwapDone ?fx m None (onWorld (\<lambda>w. w\<lparr>reported := remove1 (m, None) (reported w)\<rparr>) (s1\<lparr>world := w\<rparr>)) = Some t"
    using assms(1) by (auto simp: serveOne_def Option.bind_eq_Some_conv split: if_splits)
  have "router_reach (\<lambda>n. simClient) noEvictions (s1\<lparr>world := w\<rparr>)"
    by (rule router_reach.swap [OF router_reach.request [OF assms(2) 1(1)] 1(2,3)])
  then show ?thesis by (rule router_reach.swap_done) (use 1(4,5) in simp_all)
qed

lemma busy_run:
  "case busyRun of None \<Rightarrow> False
   | Some t \<Rightarrow> handling (world t) = [(2, ''side''), (1, ''cmd'')] \<and> inFlight t ''side'' = 1 \<and>
       providerOf (world t) ''side'' = Some ''p'' \<and>
       map_option (\<lambda>m. mactive m ''side'') (wmanagers (world t) ''p'') = Some 1 \<and>
       map (\<lambda>(i, b). (i, case b of Command mc p \<Rightarrow> alive p | Provided n \<Rightarrow> [])) (processes (world t)) = [(''cmd'', [0]), (''side'', [])]"
  by code_simp

lemma busy_run_Some: "busyRun = Some busyRouter"
proof (cases busyRun)
  case None
  then show ?thesis using busy_run by simp
next
  case (Some t)
  have "busyRouter = t" unfolding busyRouter_def Some by simp
  then show ?thesis using Some by blast
qed

lemma busy_reach: "router_reach (\<lambda>n. simClient) noEvictions busyRouter"
proof -
  obtain s u where *: "newRouter = Some s" "serveOne ''cmd'' 1 (awake s) = Some u" "serveOne ''side'' 2 u = Some busyRouter"
    using busy_run_Some unfolding busyRun_def Option.bind_eq_Some_conv by blast
  have "router_reach (\<lambda>n. simClient) noEvictions (awake s)"
    unfolding awake_def by (rule router_reach.callers [OF newRouter_reach [OF *(1)]])
  then show ?thesis using serveOne_reach *(2,3) by blast
qed

lemma busy_facts:
  "handling (world busyRouter) = [(2, ''side''), (1, ''cmd'')]" "inFlight busyRouter ''side'' = 1"
  "providerOf (world busyRouter) ''side'' = Some ''p''"
  "map (\<lambda>(i, b). (i, case b of Command mc p \<Rightarrow> alive p | Provided n \<Rightarrow> [])) (processes (world busyRouter)) =
     [(''cmd'', [0]), (''side'', [])]"
  using busy_run unfolding busy_run_Some by simp_all

section \<open>Properties\<close>

text \<open>C6: In every reachable state of a router the in-flight count of a model is the number of its
  handlers running or not yet reported back, and the leases a provider manager has for a model are
  exactly the handlers running, whatever the managers, processes and callers do in between.\<close>

theorem leases_match_requests:
  assumes "router_reach cls planner s"
  shows "inFlight s m = running (world s) m + int (count_list (ended (world s)) m) \<and>
    (\<forall>n. providerOf (world s) m = Some n \<longrightarrow>
       (\<exists>mg. wmanagers (world s) n = Some mg \<and> mactive mg m = running (world s) m))"
proof -
  have "leases_ok (inFlight s) (world s)" using router_reach_inv [OF assms] by (simp add: router_inv_def)
  then show ?thesis unfolding leases_ok_def by blast
qed

theorem leases_match_requests_witness: "running (world busyRouter) ''side'' = 1"
proof -
  have "inFlight busyRouter ''side'' = running (world busyRouter) ''side'' + int (count_list (ended (world busyRouter)) ''side'')"
    using leases_match_requests [OF busy_reach] by blast
  then show ?thesis using busy_facts by (simp add: running_def)
qed

text \<open>C7: The router is a scheduler over its own effects: every state it reaches is one the scheduler
  reaches, so what holds of all runs of the scheduler holds of the router, and no event of its loop
  ends in the panic on a missing reservation.\<close>

theorem router_is_a_scheduler:
  assumes "router_reach cls planner s"
  shows "sched_reach (routerFx cls planner) s \<and>
    (\<forall>m. m \<in> set (ended (world s)) \<longrightarrow>
       OnServeDone (routerFx cls planner) m (onWorld (\<lambda>w. w\<lparr>ended := remove1 m (ended w)\<rparr>) s) \<noteq> None)"
proof (intro conjI allI impI)
  show reach: "sched_reach (routerFx cls planner) s" by (rule router_reach_sched [OF assms])
  fix m assume m: "m \<in> set (ended (world s))"
  let ?s = "onWorld (\<lambda>w. w\<lparr>ended := remove1 m (ended w)\<rparr>) s"
  have "0 < inFlight ?s m" using reported_done(2) [OF router_reach_inv [OF assms] m] by (simp add: onWorld_def)
  then have "enabled (EvServeDone m) ?s" by simp
  moreover have "fifo_ok ?s" using sched_reach_ok [OF sched_world [OF reach]] .
  ultimately show "OnServeDone (routerFx cls planner) m ?s \<noteq> None" using handle_ok by fastforce
qed

theorem router_is_a_scheduler_witness: "sched_reach (routerFx (\<lambda>n. simClient) noEvictions) busyRouter"
  using router_is_a_scheduler [OF busy_reach] by blast

text \<open>C11: A provider model with a running handler is not unloaded: stopping it ends in an error after
  looking at the provider's health, whoever asks.\<close>

theorem busy_provider_models_stay:
  assumes "router_reach cls planner s" "(r, m) \<in> set (handling (world s))"
    "providerOf (world s) m = Some n" "wmanagers (world s) n = Some mg"
  shows "\<exists>e m1. Unload (noLeases (cls n)) m mg = (Some e, m1) \<and>
    (let seen = snd (reconcileLocked (noLeases (cls n)) False (gap (noLeases (cls n)) mg))
     in m1 = seen \<or> m1 = gap (noLeases (cls n)) seen)"
proof -
  let ?cl = "noLeases (cls n)"
  have ok: "leases_ok (inFlight s) (world s)" using router_reach_inv [OF assms(1)] by (simp add: router_inv_def)
  then obtain mg' where "wmanagers (world s) n = Some mg'" "Binding m mg' \<noteq> None" "mactive mg' m = running (world s) m"
    using assms(3) unfolding leases_ok_def by blast
  then have b: "Binding m mg \<noteq> None" and a: "mactive mg m = running (world s) m" using assms(4) by simp_all
  have "m \<in> set (map snd (handling (world s)))" using assms(2) by force
  then have pos: "0 < mactive mg m" using count_list_0_iff [of "map snd (handling (world s))" m] a by (simp add: running_def)
  obtain e m1 where r: "reconcileLocked ?cl False (gap ?cl mg) = (e, m1)" by force
  have "lease_frame mg (gap ?cl mg)" by (rule lease_frame_gap)
  from lease.gap [OF lease.keep_reconcile [OF r this]] have "mactive (gap ?cl m1) m = mactive mg m"
    by (simp add: lease_frame_def)
  then show ?thesis using b pos r by (cases e) (auto simp: Unload_def Let_def)
qed

theorem busy_provider_models_stay_witness:
  "\<exists>e m1 mg. wmanagers (world busyRouter) ''p'' = Some mg \<and> Unload (noLeases simClient) ''side'' mg = (Some e, m1)"
proof -
  obtain mg where mg: "wmanagers (world busyRouter) ''p'' = Some mg"
    using busy_run unfolding busy_run_Some by auto
  have "(2, ''side'') \<in> set (handling (world busyRouter))" by (simp add: busy_facts)
  from busy_provider_models_stay [OF busy_reach this busy_facts(3) mg] mg show ?thesis by blast
qed

text \<open>C8: A swap stops exactly the commands it evicts before its target is started: each of them has no
  upstream process left and is stopped or shut down, and every other process is as it was.\<close>

theorem swap_stops_its_victims:
  assumes "router_reach cls planner s" "\<And>ids. set (arrange (world s) ids) = set ids"
    "w1 = swapStops cls target toStop (world s)"
  shows "(\<forall>i mc p. i \<in> set toStop \<longrightarrow> map_of (processes w1) i = Some (Command mc p) \<longrightarrow>
      alive p = [] \<and> pstate p \<in> {StateStopped, StateShutdown}) \<and>
    (\<forall>j. j \<notin> set toStop \<longrightarrow> map_of (processes w1) j = map_of (processes (world s)) j)"
proof (intro conjI allI impI)
  let ?w = "world s" and ?ids = "singleStops toStop (emptied target toStop (world s)) (world s)"
  let ?stopped = "fold (stopBackend cls) (arrange ?w ?ids) ?w"
  have procs: "processes w1 = processes ?stopped" by (simp add: assms(3) swapStops_def Let_def processes_unloadAlls)
  have sub: "set ?ids \<subseteq> set toStop" by (auto simp: singleStops_def)
  have ok: "commands_ok ?w" using router_reach_inv [OF assms(1)] by (simp add: router_inv_def)
  {
    fix j assume "j \<notin> set toStop"
    then have "j \<notin> set (arrange ?w ?ids)" using sub assms(2) by blast
    then show "map_of (processes w1) j = map_of (processes ?w) j" by (simp add: procs fold_stop_others)
  }
  fix i mc p assume i: "i \<in> set toStop" and p: "map_of (processes w1) i = Some (Command mc p)"
  have "i \<in> set (arrange ?w ?ids) \<or> is_down (map_of (processes ?w) i)"
    using i assms(2) providerOf_is_down [of ?w i] by (cases "providerOf ?w i") (auto simp: singleStops_def)
  from fold_stop_down [OF ok this] have "is_down (map_of (processes w1) i)" by (simp add: procs)
  then show "alive p = []" "pstate p \<in> {StateStopped, StateShutdown}" using p by (simp_all add: is_down_def)
qed

lemma swap_run:
  "case busyRun of None \<Rightarrow> False
   | Some s \<Rightarrow> (case map_of (processes (swapStops (\<lambda>n. simClient) ''side'' [''cmd''] (world (awake s)))) ''cmd'' of
       Some (Command mc p) \<Rightarrow> True | _ \<Rightarrow> False)"
  by code_simp

theorem swap_stops_its_victims_witness:
  "\<exists>mc p. map_of (processes (swapStops (\<lambda>n. simClient) ''side'' [''cmd''] (world (awake busyRouter)))) ''cmd'' = Some (Command mc p) \<and>
     alive p = []"
proof -
  obtain mc p
    where p: "map_of (processes (swapStops (\<lambda>n. simClient) ''side'' [''cmd''] (world (awake busyRouter)))) ''cmd'' = Some (Command mc p)"
    using swap_run unfolding busy_run_Some by (auto split: option.splits backend.splits)
  have reach: "router_reach (\<lambda>n. simClient) noEvictions (awake busyRouter)"
    unfolding awake_def by (rule router_reach.callers [OF busy_reach])
  have "set (arrange (world (awake busyRouter)) ids) = set ids" for ids by (simp add: awake_def)
  from swap_stops_its_victims [OF reach this refl] p have "alive p = []" by fastforce
  then show ?thesis using p by blast
qed

text \<open>C9: A swap that reports success has left its target ready.\<close>

theorem successful_swap_is_ready:
  assumes "router_reach cls planner s" "doSwap cls target toStop (world s) = Some w"
    "reported w = reported (world s) @ [(target, None)]"
  shows "modelStateIn w target = Some StateReady"
proof -
  let ?w1 = "swapStops cls target toStop (world s)"
  have inv: "router_inv (inFlight s) ?w1" by (rule router_inv_swapStops [OF router_reach_inv [OF assms(1)]])
  obtain b where b: "map_of (processes ?w1) target = Some b"
    using assms(2) by (auto simp: doSwap_def Let_def split: if_splits option.splits)
  obtain e w2 where e: "ensureBackend cls target b ?w1 = (e, w2)" by force
  have w: "w = w2\<lparr>reported := reported w2 @ [(target, e)]\<rparr>"
    using assms(2) b e by (simp add: doSwap_def Let_def split: if_splits)
  have none: "e = None" using assms(3) w reported_ensure [OF e] by (simp add: reported_swapStops)
  have state: "modelStateIn w target = modelStateIn w2 target"
    unfolding w by (simp add: modelStateIn_def backendState_def [abs_def])
  show ?thesis
  proof (cases b)
    case (Command mc p)
    obtain q where q: "ensureCommand target mc (starting ?w1 target) p = (None, q)" "w2 = setBackend target (Command mc q) ?w1"
      using e none Command by (auto simp: ensureBackend_def split: prod.splits)
    obtain rs where "preach target mc p rs" using inv b Command commands_okD unfolding router_inv_def by blast
    then have "pstate q = StateReady" using ensureCommand_ready q(1) by blast
    then show ?thesis using q(2) state by (simp add: modelStateIn_def setBackend_def update_conv' backendState_def)
  next
    case (Provided n)
    then have pn: "providerOf ?w1 target = Some n" using b by (simp add: providerOf_def)
    then obtain mg where mg: "wmanagers ?w1 n = Some mg" using inv unfolding router_inv_def leases_ok_def by blast
    then have ok: "mgr_ok mg" using inv unfolding router_inv_def leases_ok_def by blast
    obtain mg' where l: "Load (noLeases (cls n)) target mg = (None, mg')" "w2 = ?w1\<lparr>wmanagers := (wmanagers ?w1)(n \<mapsto> mg')\<rparr>"
      using e none Provided mg by (auto simp: ensureBackend_def onManager_def split: prod.splits)
    have "serving mg' target" by (rule Load_serving [OF l(1) ok])
    then show ?thesis using l(2) state b Provided
      by (auto simp: modelStateIn_def backendState_def serving_def MState_def)
  qed
qed

lemma swap_of_cmd:
  "case newRouter of None \<Rightarrow> False
   | Some s \<Rightarrow> (case doSwap (\<lambda>n. simClient) ''cmd'' [] (world (awake s)) of None \<Rightarrow> False
               | Some w \<Rightarrow> reported (world (awake s)) = [] \<and> reported w = [(''cmd'', None)])"
  by code_simp

theorem successful_swap_is_ready_witness:
  "\<exists>s w. doSwap (\<lambda>n. simClient) ''cmd'' [] (world (awake s)) = Some w \<and> modelStateIn w ''cmd'' = Some StateReady"
proof -
  obtain s where s: "newRouter = Some s" using swap_of_cmd by (cases newRouter) simp_all
  obtain w where w: "doSwap (\<lambda>n. simClient) ''cmd'' [] (world (awake s)) = Some w"
      "reported w = reported (world (awake s)) @ [(''cmd'', None)]"
    using swap_of_cmd unfolding s by (auto split: option.splits)
  have "router_reach (\<lambda>n. simClient) noEvictions (awake s)"
    unfolding awake_def by (rule router_reach.callers [OF newRouter_reach [OF s]])
  from successful_swap_is_ready [OF this w] w(1) show ?thesis by blast
qed

lemma commands_ok_shutdown: "commands_ok w \<Longrightarrow> commands_ok (fold (shutdownProcess cls) ids w)"
  by (induction ids arbitrary: w) (simp_all add: shutdownProcess_def commands_ok_stop)



lemma mset_buckets:
  "distinct ts \<Longrightarrow> mset (concat (map (\<lambda>t. filter (\<lambda>i. f i = t) xs) ts)) = filter_mset (\<lambda>i. f i \<in> set ts) (mset xs)"
proof (induction ts)
  case (Cons t ts)
  have "filter_mset (\<lambda>i. f i = t) M + filter_mset (\<lambda>i. f i \<in> set ts) M = filter_mset (\<lambda>i. f i = t \<or> f i \<in> set ts) M" for M
    using Cons.prems by (induction M) auto
  then show ?case using Cons by simp
qed simp

text \<open>Unloading without a timeout sends every target to the loop exactly once, together with the
  other targets of the same timeout, shortest timeout first.\<close>

theorem unloads_grouped_by_timeout:
  assumes "timeout \<le> 0"
  shows "sorted_wrt (<) (map fst (unloadRequests c w timeout mods))"
    "mset (concat (map snd (unloadRequests c w timeout mods))) = mset (if mods = [] then map fst (processes w) else mods)"
    "\<forall>(t, ids)\<in>set (unloadRequests c w timeout mods). ids \<noteq> [] \<and> (\<forall>i\<in>set ids. unloadTimeout c i = t)"
proof -
  let ?targets = "if mods = [] then map fst (processes w) else mods"
  let ?ts = "sort (remdups (map (unloadTimeout c) ?targets))"
  have rs: "unloadRequests c w timeout mods = map (\<lambda>t. (t, filter (\<lambda>i. unloadTimeout c i = t) ?targets)) ?ts"
    using assms by (simp add: unloadRequests_def Let_def)
  have "map fst (unloadRequests c w timeout mods) = ?ts" unfolding rs by (simp add: comp_def)
  then show "sorted_wrt (<) (map fst (unloadRequests c w timeout mods))"
    by (simp add: strict_sorted_iff del: map_map)
  have "map snd (unloadRequests c w timeout mods) = map (\<lambda>t. filter (\<lambda>i. unloadTimeout c i = t) ?targets) ?ts"
    unfolding rs by (simp add: comp_def)
  then have "mset (concat (map snd (unloadRequests c w timeout mods))) =
      filter_mset (\<lambda>i. unloadTimeout c i \<in> set ?ts) (mset ?targets)"
    by (simp only: mset_buckets [OF iffD2 [OF distinct_sort distinct_remdups]])
  also have "\<dots> = mset ?targets" by (rule filter_mset_eq_conv [THEN iffD2]) auto
  finally show "mset (concat (map snd (unloadRequests c w timeout mods))) = mset ?targets" .
  show "\<forall>(t, ids)\<in>set (unloadRequests c w timeout mods). ids \<noteq> [] \<and> (\<forall>i\<in>set ids. unloadTimeout c i = t)"
    unfolding rs by (auto simp: filter_empty_conv)
qed

theorem unloads_grouped_by_timeout_witness:
  "\<forall>c. mset (concat (map snd (unloadRequests c (world busyRouter) 0 []))) = mset (map fst (processes (world busyRouter)))"
  using unloads_grouped_by_timeout(2) [of 0 _ "world busyRouter" "[]"] by simp

end
