(* ===== verification/Go_Text.thy ===== *)
theory Go_Text
  imports Go_Std
begin

text \<open>
  The searches in byte strings that the configuration code uses: \<^verbatim>\<open>strings.Contains\<close>,
  \<^verbatim>\<open>strings.ReplaceAll\<close> with a pattern that is not empty, \<^verbatim>\<open>strings.Split\<close> and \<^verbatim>\<open>strings.Join\<close> at
  line feeds, and \<^verbatim>\<open>FindAllStringSubmatch\<close> of a regular expression that matches in one way only.
\<close>

section \<open>Numbers\<close>

text \<open>Decimal rendering by arithmetic on binary integers, for evaluation.\<close>

function int_digits :: "int \<Rightarrow> string" where
  "int_digits i = (if i < 10 then [digit_char (nat i)] else int_digits (i div 10) @ [digit_char (nat (i mod 10))])"
  by auto
termination by (relation "measure nat") auto

declare int_digits.simps [simp del]

lemma nat_digits_int: "0 \<le> i \<Longrightarrow> nat_digits (nat i) = int_digits i"
proof (induction i rule: int_digits.induct)
  case (1 i)
  then show ?case
    by (subst nat_digits.simps, subst int_digits.simps) (auto simp: nat_div_distrib nat_mod_distrib)
qed

lemma Itoa_digits [code]: "Itoa i = (if i < 0 then CHR ''-'' # int_digits (- i) else int_digits i)"
  by (simp add: Itoa_def nat_digits_int)

section \<open>Ranges of bytes\<close>

definition within :: "char \<Rightarrow> char \<Rightarrow> char \<Rightarrow> bool" where
  "within lowest highest c \<longleftrightarrow> lowest \<le> c \<and> c \<le> highest"

declare within_def [simp]

section \<open>Substrings\<close>

definition hasSuffix :: "string \<Rightarrow> string \<Rightarrow> bool" where
  "hasSuffix s p \<longleftrightarrow> hasPrefix (rev s) (rev p)"

fun contains :: "string \<Rightarrow> string \<Rightarrow> bool" where
  "contains [] p \<longleftrightarrow> p = []"
| "contains (c # s) p \<longleftrightarrow> hasPrefix (c # s) p \<or> contains s p"

text \<open>The number of bytes of a match still to be passed over comes first.\<close>

fun replaceFrom :: "nat \<Rightarrow> string \<Rightarrow> string \<Rightarrow> string \<Rightarrow> string" where
  "replaceFrom k old new [] = []"
| "replaceFrom (Suc k) old new (c # s) = replaceFrom k old new s"
| "replaceFrom 0 old new (c # s) =
     (if hasPrefix (c # s) old then new @ replaceFrom (length old - 1) old new s else c # replaceFrom 0 old new s)"

definition ReplaceAll :: "string \<Rightarrow> string \<Rightarrow> string \<Rightarrow> string" where
  "ReplaceAll s old new = replaceFrom 0 old new s"

lemma hasPrefix_append: "hasPrefix s p \<longleftrightarrow> (\<exists>t. s = p @ t)"
  by (metis append_eq_conv_conj append_take_drop_id hasPrefix_iff)

lemma contains_iff: "contains s p \<longleftrightarrow> (\<exists>a b. s = a @ p @ b)"
proof (induction s)
  case (Cons c s)
  have "(\<exists>a b. c # s = a @ p @ b) \<longleftrightarrow> (\<exists>t. c # s = p @ t) \<or> (\<exists>a b. s = a @ p @ b)"
    by (metis append_Cons append_Nil list.inject neq_Nil_conv)
  then show ?case using Cons by (simp add: hasPrefix_append)
qed simp

lemma ReplaceAll_absent: "\<not> contains s old \<Longrightarrow> ReplaceAll s old new = s"
  unfolding ReplaceAll_def by (induction s) auto

lemma ReplaceAll_char: "ReplaceAll s [c] new = concat (map (\<lambda>d. if d = c then new else [d]) s)"
  unfolding ReplaceAll_def by (induction s) auto

section \<open>Lines\<close>

fun splitLines :: "string \<Rightarrow> string list" where
  "splitLines [] = [[]]"
| "splitLines (c # s) =
     (if c = CHR 0x0A then [] # splitLines s
      else case splitLines s of [] \<Rightarrow> [[c]] | l # ls \<Rightarrow> (c # l) # ls)"

fun joinLines :: "string list \<Rightarrow> string" where
  "joinLines [] = []"
| "joinLines [l] = l"
| "joinLines (l # ls) = l @ CHR 0x0A # joinLines ls"

lemma splitLines_not_Nil [simp]: "splitLines s \<noteq> []"
  by (induction s) (auto split: list.splits)

lemma splitLines_no_feed: "l \<in> set (splitLines s) \<Longrightarrow> CHR 0x0A \<notin> set l"
  by (induction s arbitrary: l) (auto split: if_splits list.splits)

lemma joinLines_Cons: "ls \<noteq> [] \<Longrightarrow> joinLines (l # ls) = l @ CHR 0x0A # joinLines ls"
  by (cases ls) simp_all

lemma join_split [simp]: "joinLines (splitLines s) = s"
proof (induction s)
  case (Cons c s)
  show ?case
  proof (cases "c = CHR 0x0A")
    case True
    then show ?thesis using Cons by (simp add: joinLines_Cons)
  next
    case False
    obtain l ls where "splitLines s = l # ls" by (cases "splitLines s") simp_all
    then show ?thesis using Cons False by (cases ls) simp_all
  qed
qed simp

lemma split_append: "CHR 0x0A \<notin> set l \<Longrightarrow> splitLines (l @ CHR 0x0A # s) = l # splitLines s"
  by (induction l) auto

lemma split_line: "CHR 0x0A \<notin> set l \<Longrightarrow> splitLines l = [l]"
  by (induction l) auto

lemma split_join: "ls \<noteq> [] \<Longrightarrow> (\<forall>l\<in>set ls. CHR 0x0A \<notin> set l) \<Longrightarrow> splitLines (joinLines ls) = ls"
  by (induction ls rule: joinLines.induct) (simp_all add: split_append split_line)

section \<open>Regular expressions\<close>

text \<open>A matcher looks at the front of a string for a match and returns its group and how many bytes
  follow the first one of the match.\<close>

type_synonym matcher = "string \<Rightarrow> (string \<times> nat) option"

fun findFrom :: "nat \<Rightarrow> matcher \<Rightarrow> string \<Rightarrow> string list" where
  "findFrom k m [] = []"
| "findFrom (Suc k) m (c # s) = findFrom k m s"
| "findFrom 0 m (c # s) = (case m (c # s) of Some (g, k) \<Rightarrow> g # findFrom k m s | None \<Rightarrow> findFrom 0 m s)"

definition FindAll :: "matcher \<Rightarrow> string \<Rightarrow> string list" where
  "FindAll m s = findFrom 0 m s"

lemma FindAll_Nil: "FindAll m s = [] \<longleftrightarrow> (\<forall>a t. s = a @ t \<longrightarrow> t \<noteq> [] \<longrightarrow> m t = None)"
  unfolding FindAll_def
proof (induction s)
  case (Cons c s)
  have "(\<forall>a t. c # s = a @ t \<longrightarrow> t \<noteq> [] \<longrightarrow> m t = None) \<longleftrightarrow>
      m (c # s) = None \<and> (\<forall>a t. s = a @ t \<longrightarrow> t \<noteq> [] \<longrightarrow> m t = None)"
    by (auto simp: Cons_eq_append_conv)
  then show ?case using Cons by (auto split: option.splits)
qed simp

lemma findFrom_sound: "g \<in> set (findFrom j m s) \<Longrightarrow> \<exists>a t k. s = a @ t \<and> m t = Some (g, k)"
proof (induction j m s rule: findFrom.induct)
  case (2 j m c s)
  then obtain a t k where "s = a @ t" "m t = Some (g, k)" by auto
  then show ?case by (intro exI [of _ "c # a"] exI [of _ t] exI [of _ k]) simp
next
  case (3 m c s)
  show ?case
  proof (cases "\<exists>k. m (c # s) = Some (g, k)")
    case True
    then show ?thesis by (metis append_Nil)
  next
    case False
    have "\<exists>a t k. s = a @ t \<and> m t = Some (g, k)"
    proof (cases "m (c # s)")
      case None
      then show ?thesis using 3 by simp
    next
      case (Some r)
      obtain h k where "r = (h, k)" by (cases r)
      then show ?thesis using 3(2) [OF Some] 3(3) Some False by auto
    qed
    then obtain a t k where "s = a @ t" "m t = Some (g, k)" by blast
    then show ?thesis by (intro exI [of _ "c # a"] exI [of _ t] exI [of _ k]) simp
  qed
qed simp

lemma FindAll_sound: "g \<in> set (FindAll m s) \<Longrightarrow> \<exists>a t k. s = a @ t \<and> m t = Some (g, k)"
  unfolding FindAll_def by (rule findFrom_sound)

text \<open>\<^verbatim>\<open>open(first rest*)close\<close> where \<open>close\<close> is a byte that is no \<open>rest\<close>.\<close>

definition bracketed :: "string \<Rightarrow> (char \<Rightarrow> bool) \<Rightarrow> (char \<Rightarrow> bool) \<Rightarrow> char \<Rightarrow> matcher" where
  "bracketed opening first_ok rest_ok closing s =
     (if \<not> hasPrefix s opening then None
      else let u = drop (length opening) s; n = takeWhile rest_ok u
           in if n \<noteq> [] \<and> first_ok (hd n) \<and> hasPrefix (dropWhile rest_ok u) [closing]
              then Some (n, length opening + length n) else None)"

lemma bracketed_Some:
  assumes "\<not> rest_ok closing"
  shows "bracketed opening first_ok rest_ok closing s = Some (n, k) \<longleftrightarrow>
    k = length opening + length n \<and> n \<noteq> [] \<and> first_ok (hd n) \<and> list_all rest_ok n \<and>
    (\<exists>t. s = opening @ n @ closing # t)"
proof
  assume "bracketed opening first_ok rest_ok closing s = Some (n, k)"
  then obtain t where "s = opening @ t" "n = takeWhile rest_ok t" "n \<noteq> []" "first_ok (hd n)"
      "hasPrefix (dropWhile rest_ok t) [closing]" "k = length opening + length n"
    by (auto simp: bracketed_def hasPrefix_append Let_def split: if_splits)
  moreover then obtain u where "dropWhile rest_ok t = closing # u" by (auto simp: hasPrefix_append)
  moreover have "list_all rest_ok (takeWhile rest_ok t)" by (auto simp: list_all_iff dest: set_takeWhileD)
  ultimately show "k = length opening + length n \<and> n \<noteq> [] \<and> first_ok (hd n) \<and> list_all rest_ok n \<and>
      (\<exists>t. s = opening @ n @ closing # t)"
    by (metis takeWhile_dropWhile_id)
next
  assume *: "k = length opening + length n \<and> n \<noteq> [] \<and> first_ok (hd n) \<and> list_all rest_ok n \<and>
      (\<exists>t. s = opening @ n @ closing # t)"
  then obtain t where s: "s = opening @ n @ closing # t" by blast
  have "takeWhile rest_ok (n @ closing # t) = n" "dropWhile rest_ok (n @ closing # t) = closing # t"
    using * assms by (simp_all add: list_all_iff)
  then show "bracketed opening first_ok rest_ok closing s = Some (n, k)"
    using * unfolding s bracketed_def by (simp add: Let_def hasPrefix_append)
qed

text \<open>A string in which nothing is found does not contain any instance of the pattern.\<close>

lemma FindAll_bracketed:
  assumes "\<not> rest_ok closing" "opening \<noteq> []"
  shows "FindAll (bracketed opening first_ok rest_ok closing) s = [] \<longleftrightarrow>
    (\<forall>n. n \<noteq> [] \<longrightarrow> first_ok (hd n) \<longrightarrow> list_all rest_ok n \<longrightarrow> \<not> contains s (opening @ n @ [closing]))"
proof
  assume none: "FindAll (bracketed opening first_ok rest_ok closing) s = []"
  show "\<forall>n. n \<noteq> [] \<longrightarrow> first_ok (hd n) \<longrightarrow> list_all rest_ok n \<longrightarrow> \<not> contains s (opening @ n @ [closing])"
  proof (intro allI impI notI)
    fix n assume n: "n \<noteq> []" "first_ok (hd n)" "list_all rest_ok n" "contains s (opening @ n @ [closing])"
    then obtain a b where s: "s = a @ opening @ n @ closing # b" by (auto simp: contains_iff)
    have "bracketed opening first_ok rest_ok closing (opening @ n @ closing # b) = Some (n, length opening + length n)"
      using n(1-3) by (subst bracketed_Some [of rest_ok closing, OF assms(1)]) simp
    then show False using none s assms(2) unfolding FindAll_Nil by fastforce
  qed
next
  assume free: "\<forall>n. n \<noteq> [] \<longrightarrow> first_ok (hd n) \<longrightarrow> list_all rest_ok n \<longrightarrow> \<not> contains s (opening @ n @ [closing])"
  show "FindAll (bracketed opening first_ok rest_ok closing) s = []"
  proof (rule ccontr)
    assume "FindAll (bracketed opening first_ok rest_ok closing) s \<noteq> []"
    then obtain g where "g \<in> set (FindAll (bracketed opening first_ok rest_ok closing) s)" by (meson list.set_sel(1))
    from FindAll_sound [OF this] obtain a t k where s: "s = a @ t"
      and m: "bracketed opening first_ok rest_ok closing t = Some (g, k)" by blast
    from iffD1 [OF bracketed_Some [of rest_ok closing, OF assms(1)] m]
    obtain u where n: "g \<noteq> []" "first_ok (hd g)" "list_all rest_ok g" and t: "t = opening @ g @ closing # u"
      by (elim conjE exE)
    have "s = a @ (opening @ g @ [closing]) @ u" by (simp add: s t)
    then have "contains s (opening @ g @ [closing])" unfolding contains_iff by blast
    then show False using free n by simp
  qed
qed

text \<open>When the pattern starts with a byte it has nowhere else, every instance of it is found.\<close>

lemma findFrom_complete:
  assumes "\<not> rest_ok closing" "o1 \<notin> set os" "\<not> rest_ok o1" "o1 \<noteq> closing"
    "n \<noteq> []" "first_ok (hd n)" "list_all rest_ok n" "k \<le> length a"
  shows "n \<in> set (findFrom k (bracketed (o1 # os) first_ok rest_ok closing) (a @ (o1 # os) @ n @ closing # b))"
  using assms(8)
proof (induction a arbitrary: k)
  case Nil
  have "bracketed (o1 # os) first_ok rest_ok closing ((o1 # os) @ n @ closing # b) = Some (n, length (o1 # os) + length n)"
    using assms(5-7) by (subst bracketed_Some [of rest_ok closing, OF assms(1)]) simp
  then show ?case using Nil by simp
next
  case (Cons c a)
  let ?m = "bracketed (o1 # os) first_ok rest_ok closing" and ?t = "a @ (o1 # os) @ n @ closing # b"
  show ?case
  proof (cases k)
    case (Suc j)
    then show ?thesis using Cons by simp
  next
    case 0
    show ?thesis
    proof (cases "?m (c # ?t)")
      case None
      then show ?thesis using 0 Cons.IH [of 0] by simp
    next
      case (Some r)
      obtain g j where r: "r = (g, j)" by (cases r)
      from iffD1 [OF bracketed_Some [of rest_ok closing, OF assms(1)] Some [unfolded r]]
      obtain u where g: "j = length (o1 # os) + length g" "list_all rest_ok g"
        and t: "c # ?t = (o1 # os) @ g @ closing # u" by (elim conjE exE)
      have "j \<le> length a"
      proof (rule ccontr)
        assume "\<not> j \<le> length a"
        then have lt: "length a < length (os @ g @ [closing])" using g(1) by simp
        have "?t = (os @ g @ [closing]) @ u" using t by simp
        then have "(os @ g @ [closing]) ! length a = ?t ! length a" using lt by (simp only: nth_append if_True)
        also have "\<dots> = o1" by simp
        finally have "o1 \<in> set (os @ g @ [closing])" using lt by (metis nth_mem)
        then show False using assms(2-4) g(2) by (auto simp: list_all_iff)
      qed
      then show ?thesis using 0 Some r Cons.IH [of j] by simp
    qed
  qed
qed

lemma FindAll_complete:
  assumes "\<not> rest_ok closing" "o1 \<notin> set os" "\<not> rest_ok o1" "o1 \<noteq> closing"
    "n \<noteq> []" "first_ok (hd n)" "list_all rest_ok n" "contains s ((o1 # os) @ n @ [closing])"
  shows "n \<in> set (FindAll (bracketed (o1 # os) first_ok rest_ok closing) s)"
proof -
  obtain a b where "s = a @ (o1 # os) @ n @ closing # b" using assms(8) by (auto simp: contains_iff)
  with findFrom_complete [of rest_ok closing o1 os n first_ok 0 a b, OF assms(1-7)] show ?thesis by (simp add: FindAll_def)
qed

end
