(* ===== verification/Config_Merge.thy ===== *)
theory Config_Merge
  imports Go_Text
begin

text \<open>
  \<^verbatim>\<open>internal/config/merge.go\<close>: several YAML documents merged into one before they are decoded. A
  \<^verbatim>\<open>yaml.Node\<close> is a tree of mappings, sequences, scalars and aliases with their tags; of a key node
  the code uses the value only. Reading, parsing and path arithmetic are parameters.
\<close>

section \<open>Documents\<close>

datatype ynode =
    YMap string "(string \<times> ynode) list"
  | YSeq string "ynode list"
  | YScalar string string
  | YAlias string

datatype merge_error =
    ScalarConflict string string
  | KindConflict string string
  | ExpectedMapping string string
  | DuplicateEntity string string string

definition identityMapPaths :: "string list" where
  "identityMapPaths = [''models'', ''groups'', ''profiles'', ''selectors'', ''peers'', ''matrix'',
     ''routing.router.settings.groups'', ''routing.router.settings.matrix'']"

fun isNullScalar :: "ynode \<Rightarrow> bool" where
  "isNullScalar (YScalar tag val) \<longleftrightarrow> (tag = ''!!null'' \<or> tag = []) \<and> val = []"
| "isNullScalar _ \<longleftrightarrow> False"

definition isNull :: "ynode \<Rightarrow> bool" where
  "isNull n = isNullScalar n"

text \<open>The index of a mapping keeps the last of the entries of a key.\<close>

definition indexMapping :: "(string \<times> 'v) list \<Rightarrow> string \<rightharpoonup> 'v" where
  "indexMapping es = map_of (rev es)"

definition joinPath :: "string \<Rightarrow> string \<Rightarrow> string" where
  "joinPath parent key = (if parent = [] then key else parent @ ''.'' @ key)"

section \<open>Merging\<close>

definition mergeIdentityMap :: "string \<Rightarrow> string \<Rightarrow> string \<Rightarrow> ynode \<Rightarrow> ynode \<Rightarrow> merge_error + ynode" where
  "mergeIdentityMap srcPath path mapName dst src =
     (case (dst, src) of
        (YMap t d, YMap u s) \<Rightarrow>
          (case List.find (\<lambda>(k, v). indexMapping d k \<noteq> None) s of
             Some (k, v) \<Rightarrow> Inl (DuplicateEntity mapName k srcPath)
           | None \<Rightarrow> Inr (YMap t (d @ s)))
      | _ \<Rightarrow> Inl (ExpectedMapping path srcPath))"

text \<open>\<open>mergeShared\<close> is the first pass of \<^verbatim>\<open>mergeNodes\<close> over the entries of the destination;
  \<open>appendNew\<close> the second, over those of the source.\<close>

definition appendNew :: "(string \<times> ynode) list \<Rightarrow> (string \<times> ynode) list \<Rightarrow> (string \<times> ynode) list" where
  "appendNew s d = d @ filter (\<lambda>(k, v). indexMapping d k = None) s"

fun mergeValue :: "string \<Rightarrow> string \<Rightarrow> ynode \<Rightarrow> ynode \<Rightarrow> merge_error + ynode"
  and mergeShared :: "string \<Rightarrow> string \<Rightarrow> (string \<times> ynode) list \<Rightarrow> (string \<times> ynode) list \<Rightarrow> merge_error + (string \<times> ynode) list" where
  "mergeValue srcPath path (YMap t d) sv =
     (case sv of
        YMap u s \<Rightarrow> bindE (mergeShared srcPath path s d) (\<lambda>d'. Inr (YMap t (appendNew s d')))
      | _ \<Rightarrow> if isNull sv then Inr (YMap t d) else Inl (KindConflict path srcPath))"
| "mergeValue srcPath path (YSeq t d) sv =
     (case sv of
        YSeq u s \<Rightarrow> Inr (YSeq t (d @ s))
      | _ \<Rightarrow> if isNull sv then Inr (YSeq t d) else Inl (KindConflict path srcPath))"
| "mergeValue srcPath path (YScalar t v) sv =
     (case sv of
        YScalar u w \<Rightarrow>
          if isNullScalar (YScalar t v) then Inr sv
          else if isNullScalar sv then Inr (YScalar t v)
          else if v = w \<and> t = u then Inr (YScalar t v)
          else Inl (ScalarConflict path srcPath)
      | _ \<Rightarrow> if isNull (YScalar t v) then Inr sv else Inl (KindConflict path srcPath))"
| "mergeValue srcPath path (YAlias a) sv =
     (if isNull sv then Inr (YAlias a) else Inl (KindConflict path srcPath))"
| "mergeShared srcPath path s [] = Inr []"
| "mergeShared srcPath path s ((key, dv) # d) =
     (case indexMapping s key of
        None \<Rightarrow> bindE (mergeShared srcPath path s d) (\<lambda>d'. Inr ((key, dv) # d'))
      | Some sv \<Rightarrow>
          bindE (if joinPath path key \<in> set identityMapPaths
                 then mergeIdentityMap srcPath (joinPath path key) key dv sv
                 else mergeValue srcPath (joinPath path key) dv sv) (\<lambda>dv'.
          bindE (mergeShared srcPath path s d) (\<lambda>d'. Inr ((key, dv') # d'))))"

definition mergeNodes :: "string \<Rightarrow> string \<Rightarrow> (string \<times> ynode) list \<Rightarrow> (string \<times> ynode) list \<Rightarrow> merge_error + (string \<times> ynode) list" where
  "mergeNodes srcPath path d s = bindE (mergeShared srcPath path s d) (\<lambda>d'. Inr (appendNew s d'))"

section \<open>Sources\<close>

text \<open>\<open>readYAML\<close> is the root node of a file after environment macros are substituted, \<open>None\<close> for a
  file without content.\<close>

record Files =
  readDir :: "string \<Rightarrow> string + (string \<times> bool) list"
  joinFile :: "string \<Rightarrow> string \<Rightarrow> string"
  absPath :: "string \<Rightarrow> string + string"
  readYAML :: "string \<Rightarrow> string + ynode option"

datatype source_error =
    NoSources
  | DirError string string
  | PathError string string
  | AlsoInDir string string
  | ReadError string
  | NotAMapping string
  | MergeError merge_error

definition listYAMLFiles :: "Files \<Rightarrow> string \<Rightarrow> string + string list" where
  "listYAMLFiles fs dir =
     map_sum id (\<lambda>entries. sort (map (\<lambda>(n, d). joinFile fs dir n)
         (filter (\<lambda>(n, isDir). \<not> isDir \<and> (hasSuffix n ''.yml'' \<or> hasSuffix n ''.yaml'')) entries)))
       (readDir fs dir)"

text \<open>A root without children, such as a scalar, passes for an empty file.\<close>

fun childless :: "ynode \<Rightarrow> bool" where
  "childless (YMap t es) \<longleftrightarrow> es = []"
| "childless (YSeq t xs) \<longleftrightarrow> xs = []"
| "childless (YScalar t v) \<longleftrightarrow> True"
| "childless (YAlias a) \<longleftrightarrow> True"

definition parseSource :: "Files \<Rightarrow> string \<Rightarrow> source_error + (string \<times> ynode) list option" where
  "parseSource fs path =
     (case readYAML fs path of
        Inl e \<Rightarrow> Inl (ReadError path)
      | Inr None \<Rightarrow> Inr None
      | Inr (Some root) \<Rightarrow>
          if childless root then Inr None
          else case root of YMap t es \<Rightarrow> Inr (Some es) | _ \<Rightarrow> Inl (NotAMapping path))"

definition configInDir :: "Files \<Rightarrow> string \<Rightarrow> string \<Rightarrow> string list \<Rightarrow> source_error option" where
  "configInDir fs configPath configDir dirFiles =
     (if configPath = [] then None
      else case absPath fs configPath of
             Inl e \<Rightarrow> Some (PathError configPath e)
           | Inr absConfig \<Rightarrow>
               firstErr (\<lambda>f. case absPath fs f of
                   Inl e \<Rightarrow> Some (PathError f e)
                 | Inr absF \<Rightarrow> if absConfig = absF then Some (AlsoInDir configPath configDir) else None) dirFiles)"

definition sourcePaths :: "Files \<Rightarrow> string \<Rightarrow> string \<Rightarrow> source_error + string list" where
  "sourcePaths fs configPath configDir =
     (if configPath = [] \<and> configDir = [] then Inl NoSources
      else bindE (if configDir = [] then Inr []
                  else case listYAMLFiles fs configDir of
                         Inl e \<Rightarrow> Inl (DirError configDir e)
                       | Inr files \<Rightarrow> unless (configInDir fs configPath configDir files) (Inr files))
        (\<lambda>files. let paths = (if configPath = [] then [] else [configPath]) @ files in
           if paths = [] then Inl NoSources else Inr paths))"

definition addSource :: "Files \<Rightarrow> string \<Rightarrow> (string \<times> ynode) list option \<Rightarrow> source_error + (string \<times> ynode) list option" where
  "addSource fs p merged =
     bindE (parseSource fs p) (\<lambda>node.
       case (node, merged) of
         (None, _) \<Rightarrow> Inr merged
       | (Some n, None) \<Rightarrow> Inr (Some n)
       | (Some n, Some m) \<Rightarrow>
           (case mergeNodes p [] m n of Inl e \<Rightarrow> Inl (MergeError e) | Inr m' \<Rightarrow> Inr (Some m')))"

text \<open>The merged document, \<open>None\<close> when every source is empty; it is then loaded.\<close>

definition LoadConfigSources :: "Files \<Rightarrow> string \<Rightarrow> string \<Rightarrow> source_error + (string \<times> ynode) list option" where
  "LoadConfigSources fs configPath configDir =
     bindE (sourcePaths fs configPath configDir) (\<lambda>paths. foldE (addSource fs) paths None)"

section \<open>What merging keeps\<close>

text \<open>Documents whose mappings define a key once, as YAML demands; and what a path leads to.\<close>

fun unique :: "ynode \<Rightarrow> bool" where
  "unique (YMap t es) \<longleftrightarrow> distinct (map fst es) \<and> (\<forall>(k, v)\<in>set es. unique v)"
| "unique (YSeq t xs) \<longleftrightarrow> (\<forall>x\<in>set xs. unique x)"
| "unique _ \<longleftrightarrow> True"

fun at :: "string list \<Rightarrow> ynode \<Rightarrow> ynode option" where
  "at [] n = Some n"
| "at (k # ks) (YMap t es) = (case map_of es k of None \<Rightarrow> None | Some v \<Rightarrow> at ks v)"
| "at (k # ks) _ = None"

text \<open>A value is kept when it is still there: scalars and aliases as they were, the items of a sequence
  side by side in order, a mapping as a mapping.\<close>

fun kept :: "ynode \<Rightarrow> ynode \<Rightarrow> bool" where
  "kept (YMap t es) y \<longleftrightarrow> (\<exists>u fs. y = YMap u fs)"
| "kept (YSeq t xs) y \<longleftrightarrow> (\<exists>u pre post. y = YSeq u (pre @ xs @ post))"
| "kept x y \<longleftrightarrow> y = x"

lemma kept_refl [simp]: "kept x x"
  by (cases x) (auto intro: exI [of _ "[]"])

lemma kept_trans: "kept x y \<Longrightarrow> kept y z \<Longrightarrow> kept x z"
  by (cases x; cases y) (auto, metis append.assoc)

lemma indexMapping_distinct: "distinct (map fst es) \<Longrightarrow> indexMapping es = map_of es"
  unfolding indexMapping_def by (subst map_of_inject_set) (simp_all add: rev_map [symmetric])

lemma indexMapping_None: "indexMapping es k = None \<longleftrightarrow> k \<notin> fst ` set es"
  by (simp add: indexMapping_def map_of_eq_None_iff)

lemma at_cong: "map_of es k = map_of fs k \<Longrightarrow> at (k # ks) (YMap t es) = at (k # ks) (YMap u fs)"
  by simp

definition keeps_of :: "ynode \<Rightarrow> ynode \<Rightarrow> bool" where
  "keeps_of n m \<longleftrightarrow> (\<forall>p x. at p n = Some x \<longrightarrow> \<not> isNullScalar x \<longrightarrow> (\<exists>y. at p m = Some y \<and> kept x y))"

lemma keeps_of_refl [simp]: "keeps_of n n"
  by (auto simp: keeps_of_def)

lemma keeps_of_null [simp]: "isNullScalar n \<Longrightarrow> keeps_of n m"
  unfolding keeps_of_def
proof (intro allI impI)
  fix p x assume n: "isNullScalar n" and p: "at p n = Some x" "\<not> isNullScalar x"
  obtain t v where "n = YScalar t v" using n by (cases n) auto
  with n p show "\<exists>y. at p m = Some y \<and> kept x y" by (cases p) auto
qed

lemma keeps_of_map:
  assumes "\<And>k v. map_of es k = Some v \<Longrightarrow> \<exists>w. map_of fs k = Some w \<and> keeps_of v w"
  shows "keeps_of (YMap t es) (YMap u fs)"
  unfolding keeps_of_def
proof (intro allI impI)
  fix p x assume p: "at p (YMap t es) = Some x" and x: "\<not> isNullScalar x"
  show "\<exists>y. at p (YMap u fs) = Some y \<and> kept x y"
  proof (cases p)
    case (Cons k ks)
    then obtain v where v: "map_of es k = Some v" "at ks v = Some x" using p by (auto split: option.splits)
    then obtain w where "map_of fs k = Some w" "keeps_of v w" using assms by blast
    then show ?thesis using v(2) x Cons by (auto simp: keeps_of_def)
  qed (use p in auto)
qed

definition merged_entry :: "string \<Rightarrow> string \<Rightarrow> ynode \<Rightarrow> ynode option \<Rightarrow> ynode \<Rightarrow> bool" where
  "merged_entry path k v u w \<longleftrightarrow>
     (case u of
        None \<Rightarrow> w = v
      | Some u \<Rightarrow> keeps_of v w \<and> keeps_of u w \<and>
          (joinPath path k \<in> set identityMapPaths \<longrightarrow>
             (\<exists>t es r fs. v = YMap t es \<and> u = YMap r fs \<and> w = YMap t (es @ fs) \<and> fst ` set es \<inter> fst ` set fs = {})))"

lemma identity_ok:
  assumes "mergeIdentityMap src path nm v u = Inr w" "unique v" "unique u"
  shows "unique w \<and> (\<exists>t es r fs. v = YMap t es \<and> u = YMap r fs \<and> w = YMap t (es @ fs) \<and> fst ` set es \<inter> fst ` set fs = {})"
proof -
  obtain t es r fs where vu: "v = YMap t es" "u = YMap r fs" "w = YMap t (es @ fs)"
    and none: "List.find (\<lambda>(k, v). indexMapping es k \<noteq> None) fs = None"
    using assms(1) by (auto simp: mergeIdentityMap_def split: ynode.splits option.splits)
  then have "fst ` set es \<inter> fst ` set fs = {}"
    by (force simp: find_None_iff indexMapping_None)
  then show ?thesis using vu assms(2,3) by auto
qed

lemma identity_keeps:
  assumes "fst ` set es \<inter> fst ` set fs = {}"
  shows "keeps_of (YMap t es) (YMap x (es @ fs))" "keeps_of (YMap r fs) (YMap x (es @ fs))"
proof -
  have "map_of es k = None" if "map_of fs k = Some v" for k v
    using assms that by (force simp: map_of_eq_None_iff dest: map_of_SomeD)
  then show "keeps_of (YMap t es) (YMap x (es @ fs))" "keeps_of (YMap r fs) (YMap x (es @ fs))"
    by (auto intro!: keeps_of_map simp: map_add_Some_iff)
qed

lemma map_of_filter_keys: "map_of (filter (\<lambda>(k, v). P k) es) k = (if P k then map_of es k else None)"
  by (induction es) auto

lemma appendNew_ok:
  assumes "map fst d' = map fst d" "distinct (map fst d)" "distinct (map fst s)"
    "\<And>k v. map_of d k = Some v \<Longrightarrow> \<exists>w. map_of d' k = Some w \<and> merged_entry path k v (map_of s k) w"
  shows "distinct (map fst (appendNew s d'))"
    "map_of (appendNew s d') k = (case map_of d' k of None \<Rightarrow> map_of s k | Some w \<Rightarrow> Some w)"
    "keeps_of (YMap t d) (YMap x (appendNew s d'))" "keeps_of (YMap r s) (YMap x (appendNew s d'))"
proof -
  let ?new = "filter (\<lambda>(k, v). indexMapping d' k = None) s"
  have keys: "fst ` set d' = fst ` set d" using assms(1) by (metis list.set_map)
  have "distinct (map fst ?new)" using assms(3) by (simp add: distinct_map_filter)
  moreover have "fst ` set d' \<inter> fst ` set ?new = {}" by (force simp: indexMapping_None)
  ultimately show "distinct (map fst (appendNew s d'))" using assms(1,2) keys by (simp add: appendNew_def)
  have new: "map_of ?new k = (if map_of d' k = None then map_of s k else None)" for k
    by (simp add: map_of_filter_keys indexMapping_None map_of_eq_None_iff)
  show at_k: "map_of (appendNew s d') k = (case map_of d' k of None \<Rightarrow> map_of s k | Some w \<Rightarrow> Some w)" for k
    by (auto simp: appendNew_def map_add_def new split: option.splits)
  show "keeps_of (YMap t d) (YMap x (appendNew s d'))"
  proof (rule keeps_of_map)
    fix k v assume "map_of d k = Some v"
    then obtain w where "map_of d' k = Some w" "merged_entry path k v (map_of s k) w" using assms(4) by blast
    then show "\<exists>w. map_of (appendNew s d') k = Some w \<and> keeps_of v w"
      by (auto simp: at_k merged_entry_def split: option.splits)
  qed
  show "keeps_of (YMap r s) (YMap x (appendNew s d'))"
  proof (rule keeps_of_map)
    fix k u assume u: "map_of s k = Some u"
    show "\<exists>w. map_of (appendNew s d') k = Some w \<and> keeps_of u w"
    proof (cases "map_of d k")
      case None
      then have "map_of d' k = None" using keys by (simp add: map_of_eq_None_iff)
      then show ?thesis using u by (simp add: at_k)
    next
      case (Some v)
      then obtain w where "map_of d' k = Some w" "merged_entry path k v (map_of s k) w" using assms(4) by blast
      then show ?thesis using u by (auto simp: at_k merged_entry_def)
    qed
  qed
qed

lemma keeps_of_seq: "keeps_of (YSeq t d) (YSeq r (pre @ d @ post))"
  unfolding keeps_of_def
proof (intro allI impI)
  fix p x assume "at p (YSeq t d) = Some x"
  then have "p = []" "x = YSeq t d" by (cases p; simp)+
  then show "\<exists>y. at p (YSeq r (pre @ d @ post)) = Some y \<and> kept x y" by auto
qed

lemma merge_ok:
  "mergeValue src path dv sv = Inr m \<Longrightarrow> unique dv \<Longrightarrow> unique sv \<Longrightarrow> unique m \<and> keeps_of dv m \<and> keeps_of sv m"
  "mergeShared src path s d = Inr d' \<Longrightarrow> distinct (map fst d) \<Longrightarrow> (\<forall>(k, v)\<in>set d. unique v) \<Longrightarrow>
     distinct (map fst s) \<Longrightarrow> (\<forall>(k, v)\<in>set s. unique v) \<Longrightarrow>
     map fst d' = map fst d \<and> (\<forall>(k, v)\<in>set d'. unique v) \<and>
     (\<forall>k v. map_of d k = Some v \<longrightarrow> (\<exists>w. map_of d' k = Some w \<and> merged_entry path k v (map_of s k) w))"
proof (induction src path dv sv and src path s d arbitrary: m and d' rule: mergeValue_mergeShared.induct)
  case (1 src path t d sv)
  show ?case
  proof (cases sv)
    case (YMap u s)
    then obtain d' where d': "mergeShared src path s d = Inr d'" "m = YMap t (appendNew s d')"
      using 1(2) by auto
    have IH: "map fst d' = map fst d" "\<forall>(k, v)\<in>set d'. unique v"
        "\<And>k v. map_of d k = Some v \<Longrightarrow> \<exists>w. map_of d' k = Some w \<and> merged_entry path k v (map_of s k) w"
      using 1(1) [OF YMap d'(1)] 1(3,4) YMap by auto
    have d: "distinct (map fst d)" "distinct (map fst s)" using 1(3,4) YMap by auto
    note app = appendNew_ok [OF IH(1) d IH(3)]
    have "\<forall>(k, v)\<in>set (appendNew s d'). unique v" using IH(2) 1(4) YMap by (auto simp: appendNew_def)
    then show ?thesis using app(1) app(3,4) by (simp add: d'(2) YMap)
  qed (use 1 in \<open>auto simp: isNull_def split: if_splits\<close>)
next
  case (2 src path t d sv)
  show ?case
  proof (cases sv)
    case (YSeq u s)
    then show ?thesis using 2 keeps_of_seq [of t d t "[]" s] keeps_of_seq [of u s t d "[]"] by auto
  qed (use 2 in \<open>auto simp: isNull_def split: if_splits\<close>)
next
  case (3 src path t v sv)
  then show ?case by (cases sv) (auto simp: isNull_def simp del: isNullScalar.simps split: if_splits)
next
  case (4 src path a sv)
  then show ?case by (auto simp: isNull_def split: if_splits)
next
  case (5 src path s)
  then show ?case by simp
next
  case (6 src path s key dv d)
  have idx: "indexMapping s key = map_of s key" using 6(7) by (simp add: indexMapping_distinct)
  have key: "key \<notin> fst ` set d" using 6(5) by auto
  show ?case
  proof (cases "map_of s key")
    case None
    then obtain d1 where d1: "mergeShared src path s d = Inr d1" "d' = (key, dv) # d1" using 6(4) idx by auto
    show ?thesis using 6(1) [OF _ d1(1)] 6(5-8) None idx by (auto simp: d1(2) merged_entry_def)
  next
    case (Some sv)
    have u: "unique dv" "unique sv" using 6(6,8) map_of_SomeD [OF Some] by auto
    obtain dv' d1 where m: "(if joinPath path key \<in> set identityMapPaths
          then mergeIdentityMap src (joinPath path key) key dv sv
          else mergeValue src (joinPath path key) dv sv) = Inr dv'"
        and d1: "mergeShared src path s d = Inr d1" "d' = (key, dv') # d1"
      using 6(4) Some idx by (auto split: if_splits)
    have e: "unique dv' \<and> merged_entry path key dv (Some sv) dv'"
    proof (cases "joinPath path key \<in> set identityMapPaths")
      case True
      then obtain t es r fs where "dv = YMap t es" "sv = YMap r fs" "dv' = YMap t (es @ fs)"
          "fst ` set es \<inter> fst ` set fs = {}" "unique dv'"
        using identity_ok [OF m [simplified True if_True] u] by blast
      then show ?thesis using identity_keeps [of es fs] by (auto simp: merged_entry_def)
    next
      case False
      then show ?thesis using 6(2) [OF _ False] m u Some idx by (auto simp: merged_entry_def)
    qed
    have IH: "map fst d1 = map fst d" "\<forall>(k, v)\<in>set d1. unique v"
        "\<forall>k v. map_of d k = Some v \<longrightarrow> (\<exists>w. map_of d1 k = Some w \<and> merged_entry path k v (map_of s k) w)"
      using 6(3) [OF _ d1(1)] 6(5-8) Some idx by auto
    then show ?thesis using e Some by (auto simp: d1(2))
  qed
qed

section \<open>Merging the sources\<close>

lemma mergeNodes_ok:
  assumes "mergeNodes src path d s = Inr m" "unique (YMap t d)" "unique (YMap u s)"
  shows "unique (YMap x m) \<and> keeps_of (YMap t d) (YMap x m) \<and> keeps_of (YMap u s) (YMap x m)"
    "\<And>k v w. joinPath path k \<in> set identityMapPaths \<Longrightarrow> map_of d k = Some v \<Longrightarrow> map_of s k = Some w \<Longrightarrow>
       \<exists>t es r fs. v = YMap t es \<and> w = YMap r fs \<and> fst ` set es \<inter> fst ` set fs = {}"
proof -
  obtain d' where d': "mergeShared src path s d = Inr d'" "m = appendNew s d'"
    using assms(1) by (auto simp: mergeNodes_def)
  have d: "distinct (map fst d)" "distinct (map fst s)" using assms(2,3) by auto
  have ok: "map fst d' = map fst d" "\<forall>(k, v)\<in>set d'. unique v"
      "\<And>k v. map_of d k = Some v \<Longrightarrow> \<exists>w. map_of d' k = Some w \<and> merged_entry path k v (map_of s k) w"
    using merge_ok(2) [OF d'(1)] assms(2,3) by auto
  note app = appendNew_ok [OF ok(1) d ok(3)]
  have "\<forall>(k, v)\<in>set (appendNew s d'). unique v" using ok(2) assms(3) by (auto simp: appendNew_def)
  then show "unique (YMap x m) \<and> keeps_of (YMap t d) (YMap x m) \<and> keeps_of (YMap u s) (YMap x m)"
    using app(1,3,4) by (simp add: d'(2))
  show "\<exists>t es r fs. v = YMap t es \<and> w = YMap r fs \<and> fst ` set es \<inter> fst ` set fs = {}"
    if "joinPath path k \<in> set identityMapPaths" "map_of d k = Some v" "map_of s k = Some w" for k v w
    using ok(3) [OF that(2)] that(1,3) by (auto simp: merged_entry_def)
qed

lemma kept_settled: "kept x y \<Longrightarrow> \<not> isNullScalar x \<Longrightarrow> \<not> isNullScalar y"
  by (cases x) auto

lemma keeps_of_trans: "keeps_of n m \<Longrightarrow> keeps_of m r \<Longrightarrow> keeps_of n r"
  unfolding keeps_of_def by (meson kept_settled kept_trans)

definition once :: "Files \<Rightarrow> bool" where
  "once fs \<longleftrightarrow> (\<forall>p es. parseSource fs p = Inr (Some es) \<longrightarrow> unique (YMap [] es))"

lemma addSource_ok:
  assumes "addSource fs p old = Inr new" "once fs" "\<And>m. old = Some m \<Longrightarrow> unique (YMap [] m)"
  shows "(\<forall>m. new = Some m \<longrightarrow> unique (YMap [] m)) \<and>
    (\<forall>m. old = Some m \<longrightarrow> (\<exists>r. new = Some r \<and> keeps_of (YMap [] m) (YMap [] r))) \<and>
    (\<forall>es. parseSource fs p = Inr (Some es) \<longrightarrow> (\<exists>r. new = Some r \<and> keeps_of (YMap [] es) (YMap [] r)))"
proof -
  obtain node where node: "parseSource fs p = Inr node" using assms(1) by (auto simp: addSource_def)
  show ?thesis
  proof (cases node)
    case None
    then show ?thesis using assms(1,3) node by (auto simp: addSource_def)
  next
    case (Some es)
    then have es: "unique (YMap [] es)" using node assms(2) by (simp add: once_def)
    show ?thesis
    proof (cases old)
      case None
      then show ?thesis using assms(1) node Some es by (auto simp: addSource_def)
    next
      case (Some m)
      then obtain r where r: "mergeNodes p [] m es = Inr r" "new = Some r"
        using assms(1) node \<open>node = Some es\<close> by (auto simp: addSource_def split: sum.splits)
      show ?thesis using mergeNodes_ok(1) [OF r(1) assms(3) [OF Some] es] r(2) Some node \<open>node = Some es\<close> by auto
    qed
  qed
qed

lemma fold_sources_ok:
  assumes "foldE (addSource fs) ps old = Inr new" "once fs" "\<And>m. old = Some m \<Longrightarrow> unique (YMap [] m)"
  shows "(\<forall>m. new = Some m \<longrightarrow> unique (YMap [] m)) \<and>
    (\<forall>m. old = Some m \<longrightarrow> (\<exists>r. new = Some r \<and> keeps_of (YMap [] m) (YMap [] r))) \<and>
    (\<forall>p es. p \<in> set ps \<longrightarrow> parseSource fs p = Inr (Some es) \<longrightarrow> (\<exists>r. new = Some r \<and> keeps_of (YMap [] es) (YMap [] r)))"
  using assms
proof (induction ps arbitrary: old)
  case (Cons p ps)
  obtain mid where mid: "addSource fs p old = Inr mid" "foldE (addSource fs) ps mid = Inr new" using Cons(2) by auto
  have step: "(\<forall>m. mid = Some m \<longrightarrow> unique (YMap [] m)) \<and>
    (\<forall>m. old = Some m \<longrightarrow> (\<exists>r. mid = Some r \<and> keeps_of (YMap [] m) (YMap [] r))) \<and>
    (\<forall>es. parseSource fs p = Inr (Some es) \<longrightarrow> (\<exists>r. mid = Some r \<and> keeps_of (YMap [] es) (YMap [] r)))"
    using addSource_ok [OF mid(1) Cons(3)] Cons(4) by blast
  note rest = Cons.IH [OF mid(2) Cons(3)]
  have "\<And>m. mid = Some m \<Longrightarrow> unique (YMap [] m)" using step by blast
  note rest = rest [OF this]
  have "\<exists>r. new = Some r \<and> keeps_of (YMap [] m) (YMap [] r)" if o: "old = Some m" for m
  proof -
    obtain r where "mid = Some r" "keeps_of (YMap [] m) (YMap [] r)" using step o by blast
    moreover obtain r' where "new = Some r'" "keeps_of (YMap [] r) (YMap [] r')"
      using rest \<open>mid = Some r\<close> by blast
    ultimately show ?thesis using keeps_of_trans by blast
  qed
  moreover have "\<exists>r. new = Some r \<and> keeps_of (YMap [] es) (YMap [] r)" if o: "parseSource fs p = Inr (Some es)" for es
  proof -
    obtain r where "mid = Some r" "keeps_of (YMap [] es) (YMap [] r)" using step o by blast
    moreover obtain r' where "new = Some r'" "keeps_of (YMap [] r) (YMap [] r')"
      using rest \<open>mid = Some r\<close> by blast
    ultimately show ?thesis using keeps_of_trans by blast
  qed
  ultimately show ?case using rest by auto
qed auto

text \<open>What a source settled under a name of an identity map cannot be settled by another one.\<close>

lemma entity_clash:
  assumes "addSource fs p (Some m) = Inr new" "parseSource fs p = Inr (Some es)" "once fs" "unique (YMap [] m)"
    "sec \<in> set identityMapPaths"
    "at [sec, nm] (YMap [] m) = Some x" "at [sec, nm] (YMap [] es) = Some y"
  shows False
proof -
  obtain r where r: "mergeNodes p [] m es = Inr r"
    using assms(1,2) by (auto simp: addSource_def split: sum.splits)
  obtain v w where vw: "map_of m sec = Some v" "at [nm] v = Some x" "map_of es sec = Some w" "at [nm] w = Some y"
    using assms(6,7) by (auto split: option.splits)
  have "unique (YMap [] es)" using assms(2,3) by (simp add: once_def)
  moreover have "joinPath [] sec \<in> set identityMapPaths" using assms(5) by (simp add: joinPath_def)
  ultimately obtain t a u b where ab: "v = YMap t a" "w = YMap u b" "fst ` set a \<inter> fst ` set b = {}"
    using mergeNodes_ok(2) [OF r assms(4) _ _ vw(1,3)] by blast
  have "nm \<in> fst ` set a" "nm \<in> fst ` set b"
    using vw(2,4) ab(1,2) by (auto split: option.splits dest!: map_of_SomeD intro: rev_image_eqI)
  then show False using ab(3) by blast
qed

lemma foldE_append: "foldE f (xs @ ys) s = bindE (foldE f xs s) (foldE f ys)"
  by (induction xs arbitrary: s) (simp_all split: sum.splits add: bindE_def)

section \<open>Properties\<close>

text \<open>C37: Merging the sources of a configuration loses and overrides nothing: whatever one of them settles
  at a path is settled so in the merged document, sequences side by side.\<close>

theorem merged_sources_keep_everything:
  assumes "LoadConfigSources fs configPath configDir = Inr merged" "once fs"
    "sourcePaths fs configPath configDir = Inr paths" "p \<in> set paths" "parseSource fs p = Inr (Some doc)"
    "at path (YMap [] doc) = Some x" "\<not> isNullScalar x"
  shows "\<exists>m y. merged = Some m \<and> unique (YMap [] m) \<and> at path (YMap [] m) = Some y \<and> kept x y"
proof -
  have "foldE (addSource fs) paths None = Inr merged" using assms(1,3) by (simp add: LoadConfigSources_def)
  from fold_sources_ok [OF this assms(2)] obtain m
    where "merged = Some m" "unique (YMap [] m)" "keeps_of (YMap [] doc) (YMap [] m)"
    using assms(4,5) by (metis option.distinct(1))
  then show ?thesis using assms(6,7) unfolding keeps_of_def by blast
qed

text \<open>Two sources that name the same model, group, selector, peer or matrix entry are refused.\<close>

theorem entities_come_from_one_source:
  assumes "sourcePaths fs configPath configDir = Inr (ps @ p # qs @ q # rs)" "once fs"
    "parseSource fs p = Inr (Some doc)" "parseSource fs q = Inr (Some doc')" "sec \<in> set identityMapPaths"
    "at [sec, nm] (YMap [] doc) = Some x" "\<not> isNullScalar x" "at [sec, nm] (YMap [] doc') = Some y"
  shows "\<exists>e. LoadConfigSources fs configPath configDir = Inl e"
proof (cases "LoadConfigSources fs configPath configDir")
  case (Inr merged)
  then have "foldE (addSource fs) ((ps @ p # qs) @ q # rs) None = Inr merged"
    using assms(1) by (simp add: LoadConfigSources_def)
  then obtain mid new where mid: "foldE (addSource fs) (ps @ p # qs) None = Inr mid" "addSource fs q mid = Inr new"
    unfolding foldE_append by auto
  have "p \<in> set (ps @ p # qs)" by simp
  with fold_sources_ok [OF mid(1) assms(2)] obtain m
    where m: "mid = Some m" "unique (YMap [] m)" "keeps_of (YMap [] doc) (YMap [] m)"
    using assms(3) by (metis option.distinct(1))
  obtain z where "at [sec, nm] (YMap [] m) = Some z" using m(3) assms(6,7) unfolding keeps_of_def by blast
  then have False using entity_clash [OF _ assms(4,2) m(2) assms(5) _ assms(8)] mid(2) m(1) by blast
  then show ?thesis ..
qed blast

text \<open>Two files, the second with a second model and another port; and a third that defines a model again.\<close>

definition sampleFiles :: Files where
  "sampleFiles = \<lparr>
     readDir = (\<lambda>d. Inr [(''b.yaml'', False), (''old'', True), (''notes.txt'', False)]),
     joinFile = (\<lambda>d n. d @ ''/'' @ n),
     absPath = Inr,
     readYAML = (\<lambda>p.
       if p = ''main.yaml'' then Inr (Some (YMap ''!!map'' [
         (''models'', YMap ''!!map'' [(''a'', YScalar ''!!str'' ''serve a'')]),
         (''hooks'', YSeq ''!!seq'' [YScalar ''!!str'' ''a''])]))
       else if p = ''conf/b.yaml'' then Inr (Some (YMap ''!!map'' [
         (''hooks'', YSeq ''!!seq'' [YScalar ''!!str'' ''b'']),
         (''models'', YMap ''!!map'' [(''b'', YScalar ''!!str'' ''serve b'')])]))
       else if p = ''conf/again.yaml'' then Inr (Some (YMap ''!!map'' [
         (''models'', YMap ''!!map'' [(''a'', YScalar ''!!str'' ''other'')])]))
       else Inr None)\<rparr>"

lemma sample_parse:
  "parseSource sampleFiles p =
     (if p = ''main.yaml'' then Inr (Some [
         (''models'', YMap ''!!map'' [(''a'', YScalar ''!!str'' ''serve a'')]),
         (''hooks'', YSeq ''!!seq'' [YScalar ''!!str'' ''a''])])
       else if p = ''conf/b.yaml'' then Inr (Some [
         (''hooks'', YSeq ''!!seq'' [YScalar ''!!str'' ''b'']),
         (''models'', YMap ''!!map'' [(''b'', YScalar ''!!str'' ''serve b'')])])
       else if p = ''conf/again.yaml'' then Inr (Some [
         (''models'', YMap ''!!map'' [(''a'', YScalar ''!!str'' ''other'')])])
       else Inr None)"
  by (simp add: parseSource_def sampleFiles_def)

lemma sample_parse': "parseSource (sampleFiles\<lparr>readDir := d\<rparr>) = parseSource sampleFiles"
  by (simp add: parseSource_def fun_eq_iff)

lemma sample_once: "once sampleFiles" "once (sampleFiles\<lparr>readDir := d\<rparr>)"
  by (auto simp: once_def sample_parse sample_parse' split: if_splits)

lemma sample_merges:
  "sourcePaths sampleFiles ''main.yaml'' ''conf'' = Inr [''main.yaml'', ''conf/b.yaml'']"
  "LoadConfigSources sampleFiles ''main.yaml'' ''conf'' = Inr (Some [
     (''models'', YMap ''!!map'' [(''a'', YScalar ''!!str'' ''serve a''), (''b'', YScalar ''!!str'' ''serve b'')]),
     (''hooks'', YSeq ''!!seq'' [YScalar ''!!str'' ''a'', YScalar ''!!str'' ''b''])])"
  by code_simp+

theorem merged_sources_keep_everything_witness:
  "\<exists>m y. LoadConfigSources sampleFiles ''main.yaml'' ''conf'' = Inr (Some m) \<and> at [''hooks''] (YMap [] m) = Some y \<and>
     kept (YSeq ''!!seq'' [YScalar ''!!str'' ''b'']) y"
proof -
  have "''conf/b.yaml'' \<in> set [''main.yaml'', ''conf/b.yaml'']" by simp
  from merged_sources_keep_everything [OF sample_merges(2) sample_once(1) sample_merges(1) this, of _ "[''hooks'']"
      "YSeq ''!!seq'' [YScalar ''!!str'' ''b'']"]
  show ?thesis unfolding sample_merges(2) sample_parse by auto
qed

theorem entities_come_from_one_source_witness:
  "\<exists>e. LoadConfigSources (sampleFiles\<lparr>readDir := \<lambda>d. Inr [(''again.yaml'', False)]\<rparr>) ''main.yaml'' ''conf'' = Inl e"
proof (rule entities_come_from_one_source [of _ _ _ "[]" "''main.yaml''" "[]" "''conf/again.yaml''" "[]" _ _ "''models''" "''a''"])
  let ?fs = "sampleFiles\<lparr>readDir := \<lambda>d. Inr [(''again.yaml'', False)]\<rparr>"
  show "sourcePaths ?fs ''main.yaml'' ''conf'' = Inr ([] @ ''main.yaml'' # [] @ ''conf/again.yaml'' # [])" by code_simp
  show "parseSource ?fs ''main.yaml'' = Inr (Some [
         (''models'', YMap ''!!map'' [(''a'', YScalar ''!!str'' ''serve a'')]),
         (''hooks'', YSeq ''!!seq'' [YScalar ''!!str'' ''a''])])"
    "parseSource ?fs ''conf/again.yaml'' = Inr (Some [
         (''models'', YMap ''!!map'' [(''a'', YScalar ''!!str'' ''other'')])])"
    by (simp_all add: sample_parse sample_parse')
  show "\<not> isNullScalar (YScalar ''!!str'' ''serve a'')" by simp
qed (simp_all add: sample_once identityMapPaths_def)

text \<open>A document that is only a scalar is taken for an empty one, not refused as no mapping.\<close>

lemma scalar_sources_are_ignored:
  "readYAML fs p = Inr (Some (YScalar t v)) \<Longrightarrow> parseSource fs p = Inr None"
  by (simp add: parseSource_def)

text \<open>A key given an explicit null, which YAML tags as such with its text, counts as settled.\<close>

lemma explicit_null_conflicts:
  "mergeNodes p [] [(''logLevel'', YScalar ''!!str'' ''debug'')] [(''logLevel'', YScalar ''!!null'' ''null'')] =
     Inl (ScalarConflict ''logLevel'' p)"
  by (simp add: mergeNodes_def indexMapping_def identityMapPaths_def joinPath_def bindE_def)

end
