(* ===== verification/Config_Macros.thy ===== *)
theory Config_Macros
  imports Go_Text Config_Routing
begin

text \<open>
  \<^verbatim>\<open>internal/config/macros.go\<close>: environment macros in the text of a configuration, declared macros in
  its decoded values, and the allocation of ports; with the comment stripping of
  \<^verbatim>\<open>internal/config/commands.go\<close> and the front of \<^verbatim>\<open>LoadConfigFromReader\<close> that calls it all. Decoding
  and encoding of YAML are parameters.
\<close>

section \<open>Values\<close>

text \<open>What YAML decodes into an \<^verbatim>\<open>any\<close>. A float is its \<^verbatim>\<open>%v\<close> text, and so is what the code never
  looks into: a time, or a mapping with a key that is not a string.\<close>

datatype yvalue =
    VStr string
  | VInt int
  | VFloat string
  | VBool bool
  | VOther string
  | VNull
  | VMap "(string \<times> yvalue) list"
  | VList "yvalue list"

type_synonym fields = "(string \<times> yvalue) list"

type_synonym MacroList = "(string \<times> yvalue) list"

record configMacroConfig =
  GlobalMacros :: MacroList
  ModelMacros :: "(string \<times> MacroList) list"

record Yaml =
  unmarshalMacros :: "string \<Rightarrow> string + configMacroConfig"
  unmarshalMap :: "string \<Rightarrow> string + fields"
  withoutComments :: "string \<Rightarrow> string option"
  decodeStartPort :: "int \<Rightarrow> fields \<Rightarrow> string + int"
  decodeConfig :: "fields \<Rightarrow> string + Config"
  lookupEnv :: "string \<Rightarrow> string option"

datatype macro_error =
    YamlError string
  | EnvUnset string
  | EnvUnsafe string
  | MacroNameTooLong string
  | MacroNameInvalid string
  | MacroSelfReference string
  | MacroInvalidType string
  | MacroReserved string
  | InModel string macro_error
  | StartPortTooLow
  | KeysClash string string
  | PortNotInCmd string
  | UnknownKeyMacro string string
  | ShouldBeSubstituted string string string
  | UnknownMacroIn string string string
  | UnknownMacroAt string string
  | EnvNotSetAt string string

text \<open>\<^verbatim>\<open>fmt.Sprintf("%v", value)\<close>: maps are printed in key order.\<close>

fun joinSpaces :: "string list \<Rightarrow> string" where
  "joinSpaces [] = []"
| "joinSpaces [x] = x"
| "joinSpaces (x # xs) = x @ '' '' @ joinSpaces xs"

fun sprint :: "yvalue \<Rightarrow> string" where
  "sprint (VStr s) = s"
| "sprint (VInt i) = Itoa i"
| "sprint (VFloat t) = t"
| "sprint (VBool b) = (if b then ''true'' else ''false'')"
| "sprint (VOther t) = t"
| "sprint VNull = ''<nil>''"
| "sprint (VMap es) =
     ''map['' @ joinSpaces (map snd (sort_key fst (map (\<lambda>(k, v). (k, k @ '':'' @ sprint v)) es))) @ '']''"
| "sprint (VList xs) = ''['' @ joinSpaces (map sprint xs) @ '']''"

section \<open>Patterns\<close>

definition letter :: "char \<Rightarrow> bool" where
  "letter c \<longleftrightarrow> within (CHR ''a'') (CHR ''z'') c \<or> within (CHR ''A'') (CHR ''Z'') c"

definition digit :: "char \<Rightarrow> bool" where
  "digit c \<longleftrightarrow> within (CHR ''0'') (CHR ''9'') c"

definition macroChar :: "char \<Rightarrow> bool" where
  "macroChar c \<longleftrightarrow> letter c \<or> digit c \<or> c = CHR ''_'' \<or> c = CHR ''-''"

definition envStart :: "char \<Rightarrow> bool" where
  "envStart c \<longleftrightarrow> letter c \<or> c = CHR ''_''"

definition envChar :: "char \<Rightarrow> bool" where
  "envChar c \<longleftrightarrow> letter c \<or> digit c \<or> c = CHR ''_''"

definition macroNameRegex :: "string \<Rightarrow> bool" where
  "macroNameRegex n \<longleftrightarrow> n \<noteq> [] \<and> list_all macroChar n"

definition macroPatternRegex :: matcher where
  "macroPatternRegex = bracketed ''${'' macroChar macroChar CHR ''}''"

definition envMacroRegex :: matcher where
  "envMacroRegex = bracketed ''${env.'' envStart envChar CHR ''}''"

definition slug :: "string \<Rightarrow> string" where
  "slug n = ''${'' @ n @ ''}''"

section \<open>Environment macros\<close>

definition backslash :: char where "backslash = CHR 0x5C"
definition quote :: char where "quote = CHR 0x22"

definition sanitizeEnvValueForYAML :: "string \<Rightarrow> string \<Rightarrow> macro_error + string" where
  "sanitizeEnvValueForYAML val varName =
     (if \<exists>c\<in>set val. c \<in> {CHR 0x0A, CHR 0x0D, CHR 0x00} then Inl (EnvUnsafe varName)
      else Inr (ReplaceAll (ReplaceAll val [backslash] [backslash, backslash]) [quote] [backslash, quote]))"

definition substituteEnvMacrosInString :: "Yaml \<Rightarrow> string \<Rightarrow> string \<Rightarrow> macro_error + string" where
  "substituteEnvMacrosInString y target scanStr =
     foldE (\<lambda>varName result.
       case lookupEnv y varName of
         None \<Rightarrow> Inl (EnvUnset varName)
       | Some val \<Rightarrow>
           bindE (sanitizeEnvValueForYAML val varName) (\<lambda>val.
             Inr (ReplaceAll result (''${env.'' @ varName @ ''}'') val)))
       (FindAll envMacroRegex scanStr) target"

text \<open>Comments are not scanned when the text is YAML.\<close>

definition substituteEnvMacros :: "Yaml \<Rightarrow> string \<Rightarrow> macro_error + string" where
  "substituteEnvMacros y s =
     (case withoutComments y s of
        None \<Rightarrow> substituteEnvMacrosInString y s s
      | Some clean \<Rightarrow> substituteEnvMacrosInString y s clean)"

section \<open>Declared macros\<close>

definition validateMacro :: "string \<Rightarrow> yvalue \<Rightarrow> macro_error option" where
  "validateMacro name val =
     (if 64 \<le> length name then Some (MacroNameTooLong name)
      else if \<not> macroNameRegex name then Some (MacroNameInvalid name)
      else let reserved = (if name \<in> {''PID'', ''PORT'', ''MODEL_ID''} then Some (MacroReserved name) else None) in
        case val of
          VStr v \<Rightarrow> if contains v (slug name) then Some (MacroSelfReference name) else reserved
        | VInt i \<Rightarrow> reserved
        | VFloat t \<Rightarrow> reserved
        | VBool b \<Rightarrow> reserved
        | _ \<Rightarrow> Some (MacroInvalidType name))"

fun substituteMacroInValue :: "yvalue \<Rightarrow> string \<Rightarrow> yvalue \<Rightarrow> yvalue" where
  "substituteMacroInValue (VStr v) macroName macroValue =
     (if v = slug macroName then macroValue
      else if contains v (slug macroName) then VStr (ReplaceAll v (slug macroName) (sprint macroValue))
      else VStr v)"
| "substituteMacroInValue (VMap es) macroName macroValue =
     VMap (map (\<lambda>(k, v). (k, substituteMacroInValue v macroName macroValue)) es)"
| "substituteMacroInValue (VList xs) macroName macroValue =
     VList (map (\<lambda>v. substituteMacroInValue v macroName macroValue) xs)"
| "substituteMacroInValue v macroName macroValue = v"

text \<open>The last macro of the list goes first.\<close>

definition substituteMacroList :: "yvalue \<Rightarrow> MacroList \<Rightarrow> yvalue" where
  "substituteMacroList resolved macros = fold (\<lambda>(n, v) r. substituteMacroInValue r n v) (rev macros) resolved"

text \<open>A model macro replaces the first entry of its name.\<close>

fun overlay :: "string \<times> yvalue \<Rightarrow> MacroList \<Rightarrow> MacroList" where
  "overlay e [] = [e]"
| "overlay e (x # xs) = (if fst x = fst e then e # xs else x # overlay e xs)"

definition mergeModelMacros :: "string \<Rightarrow> MacroList \<Rightarrow> MacroList \<Rightarrow> MacroList" where
  "mergeModelMacros modelID global model = fold overlay model ((''MODEL_ID'', VStr modelID) # global)"

section \<open>Keys of filters.setParamsByID\<close>

definition newKey :: "MacroList \<Rightarrow> string \<Rightarrow> string" where
  "newKey macros key = fold (\<lambda>(n, v) k. ReplaceAll k (slug n) (sprint v)) (rev macros) key"

definition setParams :: "fields \<Rightarrow> (fields \<times> fields) option" where
  "setParams model =
     (case map_of model ''filters'' of
        Some (VMap filters) \<Rightarrow>
          (case map_of filters ''setParamsByID'' of Some (VMap params) \<Rightarrow> Some (filters, params) | _ \<Rightarrow> None)
      | _ \<Rightarrow> None)"

definition renameKey :: "MacroList \<Rightarrow> string \<times> yvalue \<Rightarrow> fields \<Rightarrow> macro_error + fields" where
  "renameKey macros e resolved =
     (case e of (key, v) \<Rightarrow>
        if hasKey (newKey macros key) resolved then Inl (KeysClash key (newKey macros key))
        else Inr (resolved @ [(newKey macros key, v)]))"

definition substituteSetParamsByIDKeys :: "fields \<Rightarrow> MacroList \<Rightarrow> macro_error + fields" where
  "substituteSetParamsByIDKeys model macros =
     (case setParams model of
        None \<Rightarrow> Inr model
      | Some (filters, params) \<Rightarrow>
          bindE (foldE (renameKey macros) params []) (\<lambda>resolved.
            Inr (AList.update ''filters'' (VMap (AList.update ''setParamsByID'' (VMap resolved) filters)) model)))"

definition validateSetParamsByIDKeys :: "fields \<Rightarrow> string \<Rightarrow> macro_error option" where
  "validateSetParamsByIDKeys model modelID =
     (case setParams model of
        None \<Rightarrow> None
      | Some (filters, params) \<Rightarrow>
          firstErr (\<lambda>(key, v).
            case FindAll macroPatternRegex key of [] \<Rightarrow> None | n # ns \<Rightarrow> Some (UnknownKeyMacro n modelID)) params)"

section \<open>What must be resolved in the end\<close>

definition plainFields :: "string list" where
  "plainFields = [''cmd'', ''cmdStop'', ''proxy'', ''checkEndpoint'', ''filters.stripParams'', ''name'', ''description'']"

definition macroUse :: "string \<Rightarrow> string \<Rightarrow> string \<Rightarrow> string \<Rightarrow> macro_error" where
  "macroUse path modelID fieldPath name =
     (if modelID = [] then UnknownMacroAt path name
      else if fieldPath \<in> set plainFields
      then (if name = ''PORT'' \<or> name = ''MODEL_ID'' then ShouldBeSubstituted name modelID fieldPath
            else UnknownMacroIn name modelID fieldPath)
      else UnknownMacroAt
        (if hasPrefix fieldPath ''capabilities.'' then ''model '' @ modelID @ '' capabilities''
         else if hasPrefix fieldPath ''metadata.'' then ''model '' @ modelID @ '' metadata''
         else ''model '' @ modelID @ '' '' @ fieldPath) name)"

definition stringUses :: "string \<Rightarrow> string \<Rightarrow> string \<Rightarrow> string \<Rightarrow> bool \<Rightarrow> macro_error option" where
  "stringUses v path modelID fieldPath allowPID =
     (case filter (\<lambda>n. \<not> (n = ''PID'' \<and> allowPID)) (FindAll macroPatternRegex v) of
        n # ns \<Rightarrow> Some (macroUse path modelID fieldPath n)
      | [] \<Rightarrow> (case FindAll envMacroRegex v of [] \<Rightarrow> None | n # ns \<Rightarrow> Some (EnvNotSetAt path n)))"

fun validateMacroUses :: "yvalue \<Rightarrow> string \<Rightarrow> string \<Rightarrow> string \<Rightarrow> bool \<Rightarrow> macro_error option"
  and validateEntries :: "fields \<Rightarrow> string \<Rightarrow> string \<Rightarrow> string \<Rightarrow> bool \<Rightarrow> macro_error option"
  and validateItems :: "nat \<Rightarrow> yvalue list \<Rightarrow> string \<Rightarrow> string \<Rightarrow> string \<Rightarrow> bool \<Rightarrow> macro_error option" where
  "validateMacroUses (VStr v) path modelID fieldPath allowPID = stringUses v path modelID fieldPath allowPID"
| "validateMacroUses (VMap es) path modelID fieldPath allowPID = validateEntries es path modelID fieldPath allowPID"
| "validateMacroUses (VList xs) path modelID fieldPath allowPID = validateItems 0 xs path modelID fieldPath allowPID"
| "validateMacroUses v path modelID fieldPath allowPID = None"
| "validateEntries [] path modelID fieldPath allowPID = None"
| "validateEntries ((key, v) # es) path modelID fieldPath allowPID =
     (case validateMacroUses v (path @ ''.'' @ key) modelID
         (if modelID \<noteq> [] then fieldPath @ ''.'' @ key else fieldPath) allowPID of
        Some e \<Rightarrow> Some e
      | None \<Rightarrow> validateEntries es path modelID fieldPath allowPID)"
| "validateItems i [] path modelID fieldPath allowPID = None"
| "validateItems i (v # xs) path modelID fieldPath allowPID =
     (case validateMacroUses v (path @ ''['' @ Itoa (int i) @ '']'') modelID fieldPath allowPID of
        Some e \<Rightarrow> Some e
      | None \<Rightarrow> validateItems (Suc i) xs path modelID fieldPath allowPID)"

definition knownFields :: "string list" where
  "knownFields = [''healthCheckTimeout'', ''logRequests'', ''logLevel'', ''logTimeFormat'', ''logToStdout'',
     ''metricsMaxInMemory'', ''captureBuffer'', ''store'', ''ui'', ''performance'', ''globalTTL'', ''unloadTimeout'',
     ''models'', ''providers'', ''lifecyclePools'', ''profiles'', ''selectors'', ''routing'', ''groups'', ''matrix'',
     ''macros'', ''startPort'', ''hooks'', ''sendLoadingState'', ''includeAliasesInList'', ''apiKeys'', ''peers'',
     ''upstream'']"

definition validateModelUses :: "string \<times> yvalue \<Rightarrow> macro_error option" where
  "validateModelUses e =
     (case e of
        (modelID, VMap model) \<Rightarrow>
          firstErr (\<lambda>(field, v).
            validateMacroUses v (''models.'' @ modelID @ ''.'' @ field) modelID field (field = ''cmdStop'')) model
      | _ \<Rightarrow> None)"

definition validateConfigMacroUses :: "fields \<Rightarrow> macro_error option" where
  "validateConfigMacroUses raw =
     firstErr (\<lambda>(key, v).
       if key \<notin> set knownFields then None
       else if key \<noteq> ''models'' then validateMacroUses v key [] [] False
       else case v of VMap models \<Rightarrow> firstErr validateModelUses models | _ \<Rightarrow> None) raw"

section \<open>Resolving a document\<close>

definition StripComments :: "string \<Rightarrow> string" where
  "StripComments cmdStr = joinLines (filter (\<lambda>l. \<not> hasPrefix (trimSpace l) ''#'') (splitLines cmdStr))"

definition stripField :: "string \<Rightarrow> fields \<Rightarrow> fields" where
  "stripField field model =
     (case map_of model field of Some (VStr v) \<Rightarrow> AList.update field (VStr (StripComments v)) model | _ \<Rightarrow> model)"

definition stripRawCommandComments :: "fields \<Rightarrow> fields" where
  "stripRawCommandComments model = stripField ''cmdStop'' (stripField ''cmd'' model)"

definition prepareModel :: "string \<times> yvalue \<Rightarrow> string \<times> yvalue" where
  "prepareModel e =
     (case e of
        (modelID, VMap model) \<Rightarrow> (modelID, VMap (stripRawCommandComments (AList.delete ''macros'' model)))
      | _ \<Rightarrow> e)"

text \<open>A type assertion to a map, with the zero value when it fails; and the text of a field.\<close>

fun fieldsOf :: "yvalue option \<Rightarrow> fields" where
  "fieldsOf (Some (VMap es)) = es"
| "fieldsOf _ = []"

fun textOf :: "yvalue option \<Rightarrow> string" where
  "textOf (Some (VStr s)) = s"
| "textOf _ = []"

definition rawStartPort :: "Yaml \<Rightarrow> fields \<Rightarrow> macro_error + int" where
  "rawStartPort y raw =
     (case decodeStartPort y 5800 raw of
        Inl e \<Rightarrow> Inl (YamlError e)
      | Inr p \<Rightarrow> if p < 1 then Inl StartPortTooLow else Inr p)"

definition MODEL_CONFIG_DEFAULT_PROXY :: string where
  "MODEL_CONFIG_DEFAULT_PROXY = ''http://localhost:${PORT}''"

definition inModel :: "string \<Rightarrow> macro_error + 'a \<Rightarrow> macro_error + 'a" where
  "inModel modelID = map_sum (InModel modelID) id"

text \<open>A model with its macros expanded, and with the default proxy that refers to its port.\<close>

definition expandModel :: "configMacroConfig \<Rightarrow> string \<Rightarrow> fields \<Rightarrow> macro_error + fields" where
  "expandModel d modelID model =
     (let macros = mergeModelMacros modelID (GlobalMacros d)
            (case map_of (ModelMacros d) modelID of None \<Rightarrow> [] | Some ms \<Rightarrow> ms) in
      bindE (inModel modelID (substituteSetParamsByIDKeys (fieldsOf (Some (substituteMacroList (VMap model) macros))) macros))
        (\<lambda>m. Inr (if textOf (map_of m ''provider'') = [] \<and> (map_of m ''proxy'' = None \<or> map_of m ''proxy'' = Some VNull)
                   then AList.update ''proxy'' (VStr MODEL_CONFIG_DEFAULT_PROXY) m else m)))"

definition cmdHasPort :: "fields \<Rightarrow> bool" where
  "cmdHasPort m \<longleftrightarrow> contains (textOf (map_of m ''cmd'')) ''${PORT}''"

definition proxyHasPort :: "fields \<Rightarrow> bool" where
  "proxyHasPort m \<longleftrightarrow> contains (textOf (map_of m ''proxy'')) ''${PORT}''"

definition withPort :: "string \<Rightarrow> int \<Rightarrow> fields \<Rightarrow> macro_error + fields" where
  "withPort modelID port m =
     inModel modelID (substituteSetParamsByIDKeys
       (fieldsOf (Some (substituteMacroList (VMap m) [(''PORT'', VInt port)]))) [(''PORT'', VInt port)])"

definition allocatePort :: "string \<Rightarrow> int \<Rightarrow> fields \<Rightarrow> macro_error + fields \<times> int" where
  "allocatePort modelID nextPort m =
     (if cmdHasPort m \<or> proxyHasPort m
      then if \<not> cmdHasPort m then Inl (PortNotInCmd modelID)
           else bindE (withPort modelID nextPort m) (\<lambda>m'. Inr (m', nextPort + 1))
      else Inr (m, nextPort))"

definition resolveModel :: "configMacroConfig \<Rightarrow> string \<Rightarrow> fields \<times> int \<Rightarrow> macro_error + fields \<times> int" where
  "resolveModel d modelID st =
     (case st of (models, nextPort) \<Rightarrow>
        (case map_of models modelID of
           Some (VMap model) \<Rightarrow>
             bindE (expandModel d modelID model) (\<lambda>m.
             bindE (allocatePort modelID nextPort m) (\<lambda>(m', nextPort').
             unless (validateSetParamsByIDKeys m' modelID)
               (Inr (AList.update modelID (VMap m') models, nextPort'))))
         | _ \<Rightarrow> Inr (models, nextPort)))"

definition validateDeclarations :: "configMacroConfig \<Rightarrow> macro_error option" where
  "validateDeclarations d =
     (case firstErr (\<lambda>(n, v). validateMacro n v) (GlobalMacros d) of
        Some e \<Rightarrow> Some e
      | None \<Rightarrow> firstErr (\<lambda>(modelID, ms).
          map_option (InModel modelID) (firstErr (\<lambda>(n, v). validateMacro n v) ms)) (ModelMacros d))"

definition prepared :: "configMacroConfig \<Rightarrow> fields \<Rightarrow> fields" where
  "prepared d raw =
     map (\<lambda>(key, v). (key,
       if key = ''models'' then (case v of VMap ms \<Rightarrow> VMap (map prepareModel ms) | _ \<Rightarrow> v)
       else substituteMacroList v (GlobalMacros d))) (AList.delete ''macros'' raw)"

definition resolveRaw :: "Yaml \<Rightarrow> configMacroConfig \<Rightarrow> fields \<Rightarrow> macro_error + fields" where
  "resolveRaw y d raw =
     (let raw1 = prepared d raw; models = fieldsOf (map_of raw1 ''models'') in
      bindE (rawStartPort y raw1) (\<lambda>startPort.
      bindE (foldE (resolveModel d) (sortedKeys models) (models, startPort)) (\<lambda>(models', nextPort).
      let raw2 = AList.update ''models'' (VMap models') raw1 in
      unless (validateConfigMacroUses raw2) (Inr raw2))))"

definition resolveConfigMacros :: "Yaml \<Rightarrow> string \<Rightarrow> macro_error + fields \<times> configMacroConfig" where
  "resolveConfigMacros y yamlStr =
     (case unmarshalMacros y yamlStr of
        Inl e \<Rightarrow> Inl (YamlError e)
      | Inr d \<Rightarrow>
          unless (validateDeclarations d)
          (case unmarshalMap y yamlStr of
             Inl e \<Rightarrow> Inl (YamlError e)
           | Inr raw \<Rightarrow> bindE (resolveRaw y d raw) (\<lambda>raw'. Inr (raw', d))))"

datatype load_error = MacroProblem macro_error | ConfigProblem config_error

definition LoadConfigFromReader :: "Yaml \<Rightarrow> Env \<Rightarrow> string \<Rightarrow> load_error + Config" where
  "LoadConfigFromReader y env text =
     (case bindE (substituteEnvMacros y text) (resolveConfigMacros y) of
        Inl e \<Rightarrow> Inl (MacroProblem e)
      | Inr (raw, d) \<Rightarrow>
          (case decodeConfig y raw of
             Inl e \<Rightarrow> Inl (MacroProblem (YamlError e))
           | Inr c \<Rightarrow> map_sum ConfigProblem id (LoadConfig env c)))"

end
