(* ===== verification/Config_Macros_Props.thy ===== *)
theory Config_Macros_Props
  imports Config_Macros
begin

text \<open>
  What resolving the macros of a configuration guarantees: nothing that reads as a macro is left,
  ports are consecutive and go to the models that ask for one, an environment value survives its
  quoting, and a model's own macros win.
\<close>

section \<open>Names\<close>

lemma char_code: "(c :: char) \<le> d \<longleftrightarrow> of_char c \<le> (of_char d :: nat)"
  by (simp add: less_eq_char_def)

lemma macroChar_closing: "\<not> macroChar (CHR ''}'')" "\<not> macroChar (CHR ''$'')" "\<not> envChar (CHR ''}'')" "\<not> envChar (CHR ''$'')"
  by (simp_all add: macroChar_def envChar_def letter_def digit_def char_code)

definition envName :: "string \<Rightarrow> bool" where
  "envName n \<longleftrightarrow> n \<noteq> [] \<and> envStart (hd n) \<and> list_all envChar n"

text \<open>No placeholder in a string, but for those of allowed names.\<close>

definition resolved :: "string set \<Rightarrow> string \<Rightarrow> bool" where
  "resolved allowed s \<longleftrightarrow>
     (\<forall>n. macroNameRegex n \<longrightarrow> n \<notin> allowed \<longrightarrow> \<not> contains s (slug n)) \<and>
     (\<forall>n. envName n \<longrightarrow> \<not> contains s (''${env.'' @ n @ ''}''))"

lemma macro_found:
  assumes "macroNameRegex n" "contains s (slug n)"
  shows "n \<in> set (FindAll macroPatternRegex s)"
proof -
  have n: "n \<noteq> []" "macroChar (hd n)" "list_all macroChar n"
    using assms(1) by (cases n; simp add: macroNameRegex_def)+
  have "contains s ((CHR ''$'' # ''{'') @ n @ [CHR ''}''])" using assms(2) by (simp add: slug_def)
  from FindAll_complete [of macroChar "CHR ''}''" "CHR ''$''" "''{''" n macroChar s, OF macroChar_closing(1) _ macroChar_closing(2) _ n this]
  show ?thesis by (simp add: macroPatternRegex_def)
qed

lemma no_env_found: "FindAll envMacroRegex s = [] \<longleftrightarrow> (\<forall>n. envName n \<longrightarrow> \<not> contains s (''${env.'' @ n @ ''}''))"
  unfolding envMacroRegex_def envName_def
  by (subst FindAll_bracketed) (auto simp: macroChar_closing)

lemma stringUses_None:
  assumes "stringUses s path modelID fieldPath allowPID = None"
  shows "resolved (if allowPID then {''PID''} else {}) s"
proof -
  have 1: "filter (\<lambda>n. \<not> (n = ''PID'' \<and> allowPID)) (FindAll macroPatternRegex s) = []" and 2: "FindAll envMacroRegex s = []"
    using assms by (auto simp: stringUses_def split: list.splits)
  have "n = ''PID'' \<and> allowPID" if "macroNameRegex n" "contains s (slug n)" for n
    using 1 macro_found [OF that] by (auto simp: filter_empty_conv)
  then show ?thesis using 2 by (auto simp: resolved_def no_env_found)
qed

section \<open>Everything is resolved\<close>

text \<open>The strings of a value; its keys are not among them.\<close>

fun texts :: "yvalue \<Rightarrow> string list" where
  "texts (VStr s) = [s]"
| "texts (VMap es) = concat (map (\<lambda>(k, v). texts v) es)"
| "texts (VList xs) = concat (map texts xs)"
| "texts _ = []"

lemma validated:
  "validateMacroUses v path modelID fieldPath allowPID = None \<Longrightarrow> \<forall>t\<in>set (texts v). resolved (if allowPID then {''PID''} else {}) t"
  "validateEntries es path modelID fieldPath allowPID = None \<Longrightarrow> \<forall>(k, v)\<in>set es. \<forall>t\<in>set (texts v). resolved (if allowPID then {''PID''} else {}) t"
  "validateItems i xs path modelID fieldPath allowPID = None \<Longrightarrow> \<forall>v\<in>set xs. \<forall>t\<in>set (texts v). resolved (if allowPID then {''PID''} else {}) t"
proof (induction v path modelID fieldPath allowPID and es path modelID fieldPath allowPID and i xs path modelID fieldPath allowPID
    rule: validateMacroUses_validateEntries_validateItems.induct)
  case (1 v path modelID fieldPath allowPID)
  then show ?case using stringUses_None by simp
qed (auto split: option.splits)

lemma uses_of_resolveRaw:
  assumes "resolveRaw y d raw = Inr raw'"
  shows "validateConfigMacroUses raw' = None"
  using assms by (auto simp: resolveRaw_def Let_def split: prod.splits)

section \<open>Environment values\<close>

text \<open>A double-quoted YAML scalar up to its closing quote: the reader of the text that was inserted.\<close>

fun unquote :: "string \<Rightarrow> (string \<times> string) option" where
  "unquote [] = None"
| "unquote (c # s) =
     (if c = quote then Some ([], s)
      else if c = backslash
      then (case s of [] \<Rightarrow> None
            | e # t \<Rightarrow> if e = quote \<or> e = backslash then map_option (\<lambda>(v, r). (e # v, r)) (unquote t) else None)
      else map_option (\<lambda>(v, r). (c # v, r)) (unquote s))"

lemma sanitized:
  "ReplaceAll (ReplaceAll v [backslash] [backslash, backslash]) [quote] [backslash, quote] =
   concat (map (\<lambda>c. if c = backslash \<or> c = quote then [backslash, c] else [c]) v)"
  unfolding ReplaceAll_char by (induction v) (auto simp: backslash_def quote_def)

lemma unquote_sanitized:
  "unquote (concat (map (\<lambda>c. if c = backslash \<or> c = quote then [backslash, c] else [c]) v) @ quote # rest) = Some (v, rest)"
  by (induction v) (auto simp: backslash_def quote_def)

section \<open>Ports\<close>

definition asksForPort :: "configMacroConfig \<Rightarrow> fields \<Rightarrow> string \<Rightarrow> bool" where
  "asksForPort d models modelID \<longleftrightarrow>
     (case map_of models modelID of
        Some (VMap model) \<Rightarrow> (case expandModel d modelID model of Inr m \<Rightarrow> cmdHasPort m | Inl e \<Rightarrow> False)
      | _ \<Rightarrow> False)"

definition hasPort :: "configMacroConfig \<Rightarrow> fields \<Rightarrow> fields \<Rightarrow> string \<Rightarrow> int \<Rightarrow> bool" where
  "hasPort d models models' modelID port \<longleftrightarrow>
     (\<exists>model m m'. map_of models modelID = Some (VMap model) \<and> expandModel d modelID model = Inr m \<and>
        withPort modelID port m = Inr m' \<and> map_of models' modelID = Some (VMap m'))"

lemma resolveModel_Inr:
  assumes "resolveModel d i (models, p) = Inr (models', p')"
  shows "p' = (if asksForPort d models i then p + 1 else p)" "\<And>j. j \<noteq> i \<Longrightarrow> map_of models' j = map_of models j"
    "asksForPort d models i \<Longrightarrow> hasPort d models models' i p"
proof -
  consider (skip) "models' = models" "p' = p" "\<not> asksForPort d models i"
    | (model) model m m' where "map_of models i = Some (VMap model)" "expandModel d i model = Inr m"
        "allocatePort i p m = Inr (m', p')" "models' = AList.update i (VMap m') models"
  proof (cases "\<exists>model. map_of models i = Some (VMap model)")
    case True
    then obtain model where m: "map_of models i = Some (VMap model)" by blast
    then show ?thesis using assms that(2) by (auto simp: resolveModel_def split: prod.splits)
  next
    case False
    then have "resolveModel d i (models, p) = Inr (models, p)" "\<not> asksForPort d models i"
      by (simp_all add: resolveModel_def asksForPort_def split: option.split yvalue.split)
    then show ?thesis using assms that(1) by simp
  qed
  then have "p' = (if asksForPort d models i then p + 1 else p) \<and> (\<forall>j. j \<noteq> i \<longrightarrow> map_of models' j = map_of models j) \<and>
      (asksForPort d models i \<longrightarrow> hasPort d models models' i p)"
  proof cases
    case model
    then have "asksForPort d models i \<longleftrightarrow> cmdHasPort m" by (simp add: asksForPort_def)
    then show ?thesis using model
      by (auto simp: allocatePort_def hasPort_def update_conv' split: if_splits)
  qed simp
  then show "p' = (if asksForPort d models i then p + 1 else p)" "\<And>j. j \<noteq> i \<Longrightarrow> map_of models' j = map_of models j"
    "asksForPort d models i \<Longrightarrow> hasPort d models models' i p" by blast+
qed

lemma asksForPort_cong: "map_of models' i = map_of models i \<Longrightarrow> asksForPort d models' i = asksForPort d models i"
  by (simp add: asksForPort_def)

lemma ports_of_loop:
  assumes "foldE (resolveModel d) ids (models, p) = Inr (models', p')" "distinct ids"
  shows "(\<forall>j. j \<notin> set ids \<longrightarrow> map_of models' j = map_of models j) \<and>
    (let users = filter (asksForPort d models) ids in
     p' = p + int (length users) \<and> (\<forall>i<length users. hasPort d models models' (users ! i) (p + int i)))"
  using assms
proof (induction ids arbitrary: models p)
  case (Cons x ids)
  obtain models1 p1 where first: "resolveModel d x (models, p) = Inr (models1, p1)"
    and rest: "foldE (resolveModel d) ids (models1, p1) = Inr (models', p')" using Cons(2) by auto
  note step = resolveModel_Inr [OF first]
  have x: "x \<notin> set ids" using Cons(3) by simp
  have same: "filter (asksForPort d models1) ids = filter (asksForPort d models) ids"
    by (rule filter_cong [OF refl], rule asksForPort_cong, rule step(2)) (use x in blast)
  define users where "users = filter (asksForPort d models) ids"
  have IH: "\<forall>j. j \<notin> set ids \<longrightarrow> map_of models' j = map_of models1 j" "p' = p1 + int (length users)"
      "\<And>i. i < length users \<Longrightarrow> hasPort d models1 models' (users ! i) (p1 + int i)"
    using Cons.IH [OF rest] Cons(3) unfolding same users_def Let_def by auto
  have others: "hasPort d models models' (users ! i) (p1 + int i)" if "i < length users" for i
  proof -
    have "users ! i \<in> set users" using that by (rule nth_mem)
    then have "users ! i \<noteq> x" using x unfolding users_def by auto
    then show ?thesis using IH(3) [OF that] step(2) by (simp add: hasPort_def)
  qed
  have fx: "filter (asksForPort d models) (x # ids) = (if asksForPort d models x then x # users else users)"
    by (simp add: users_def)
  have "hasPort d models models' ((x # users) ! i) (p + int i)" if "asksForPort d models x" "i < Suc (length users)" for i
  proof (cases i)
    case 0
    then show ?thesis using step(3) [OF that(1)] IH(1) x by (simp add: hasPort_def)
  next
    case (Suc j)
    then show ?thesis using others [of j] that step(1) by (simp add: algebra_simps)
  qed
  then show ?case unfolding fx using IH(1,2) others step(1,2) by (auto simp: Let_def)
qed auto

section \<open>Model macros\<close>

lemma map_of_overlay: "map_of (overlay e ms) = (map_of ms)(fst e \<mapsto> snd e)"
  by (induction ms) (auto simp: fun_eq_iff)

lemma map_of_overlays: "map_of (fold overlay es ms) = map_of ms ++ map_of (rev es)"
  by (induction es arbitrary: ms) (auto simp: map_of_overlay map_add_def fun_eq_iff split: option.splits)

section \<open>Properties\<close>

text \<open>C35: In a document that is accepted no string of a known section contains a placeholder of a macro
  or of an environment variable, but for the process id in the stop command of a model.\<close>

theorem accepted_documents_are_resolved:
  assumes "resolveConfigMacros y s = Inr (raw, d)" "(key, v) \<in> set raw" "key \<in> set knownFields"
  shows "(key \<noteq> ''models'' \<longrightarrow> (\<forall>t. t \<in> set (texts v) \<longrightarrow> resolved {} t)) \<and>
    (\<forall>models i model field w t. key = ''models'' \<longrightarrow> v = VMap models \<longrightarrow> (i, VMap model) \<in> set models \<longrightarrow>
       (field, w) \<in> set model \<longrightarrow> t \<in> set (texts w) \<longrightarrow> resolved (if field = ''cmdStop'' then {''PID''} else {}) t)"
proof -
  obtain raw0 where "resolveRaw y d raw0 = Inr raw"
    using assms(1) by (auto simp: resolveConfigMacros_def split: sum.splits)
  from uses_of_resolveRaw [OF this]
  have ok: "if key \<noteq> ''models'' then validateMacroUses v key [] [] False = None
      else (\<forall>models. v = VMap models \<longrightarrow> (\<forall>e\<in>set models. validateModelUses e = None))"
    using assms(2,3) by (fastforce simp: validateConfigMacroUses_def split: if_splits)
  show ?thesis
  proof (intro conjI allI impI)
    show "resolved {} t" if "key \<noteq> ''models''" "t \<in> set (texts v)" for t
      using ok that validated(1) [of v key "[]" "[]" False] by simp
    fix models i model field w t
    assume *: "key = ''models''" "v = VMap models" "(i, VMap model) \<in> set models" "(field, w) \<in> set model" "t \<in> set (texts w)"
    then have "validateModelUses (i, VMap model) = None" using ok by auto
    then have "validateMacroUses w (''models.'' @ i @ ''.'' @ field) i field (field = ''cmdStop'') = None"
      using *(4) by (auto simp: validateModelUses_def)
    from validated(1) [OF this] show "resolved (if field = ''cmdStop'' then {''PID''} else {}) t" using *(5) by simp
  qed
qed

text \<open>C36: Ports are given out one after the other from the start port on, in the order of model names, to
  the models whose command asks for one; each of them has its own, put in everywhere it refers to it.\<close>

theorem ports_are_consecutive:
  assumes "resolveRaw y d raw = Inr raw'" "distinct (map fst models)" "models = fieldsOf (map_of (prepared d raw) ''models'')"
    "users = filter (asksForPort d models) (sortedKeys models)"
  shows "\<exists>start models'. 1 \<le> start \<and> rawStartPort y (prepared d raw) = Inr start \<and> map_of raw' ''models'' = Some (VMap models') \<and>
    distinct users \<and> (\<forall>i. i < length users \<longrightarrow> hasPort d models models' (users ! i) (start + int i))"
proof -
  obtain start models' p' where r: "rawStartPort y (prepared d raw) = Inr start"
      "foldE (resolveModel d) (sortedKeys models) (models, start) = Inr (models', p')"
      "raw' = AList.update ''models'' (VMap models') (prepared d raw)"
    using assms(1,3) by (auto simp: resolveRaw_def Let_def)
  have d: "distinct (sortedKeys models)" using assms(2) by (simp add: sortedKeys_def)
  have "1 \<le> start" using r(1) by (auto simp: rawStartPort_def split: sum.splits if_splits)
  moreover have "distinct users" using d assms(4) by simp
  moreover have "\<forall>i. i < length users \<longrightarrow> hasPort d models models' (users ! i) (start + int i)"
    using ports_of_loop [OF r(2) d] assms(4) by (simp add: Let_def)
  ultimately show ?thesis using r(1,3) by (simp add: update_conv')
qed

text \<open>The text put in for an environment variable reads back, between double quotes, as the value of
  the variable, ends where it should and starts no new line.\<close>

theorem environment_values_survive_quoting:
  assumes "sanitizeEnvValueForYAML v n = Inr w"
  shows "unquote (w @ quote # rest) = Some (v, rest) \<and> (\<forall>c. c \<in> set w \<longrightarrow> c \<notin> {CHR 0x0A, CHR 0x0D, CHR 0x00})"
proof -
  have clean: "\<forall>c\<in>set v. c \<notin> {CHR 0x0A, CHR 0x0D, CHR 0x00}"
    and w: "w = concat (map (\<lambda>c. if c = backslash \<or> c = quote then [backslash, c] else [c]) v)"
    using assms unfolding sanitized [symmetric] by (auto simp: sanitizeEnvValueForYAML_def split: if_splits)
  have "set w \<subseteq> set v \<union> {backslash}" unfolding w by (auto split: if_splits)
  then have "c \<notin> {CHR 0x0A, CHR 0x0D, CHR 0x00}" if "c \<in> set w" for c
    using that clean by (auto simp: backslash_def)
  then show ?thesis unfolding w unquote_sanitized by blast
qed

theorem environment_values_survive_quoting_witness:
  "sanitizeEnvValueForYAML (''say '' @ [quote] @ ''hi'' @ [quote]) ''GREETING'' = Inr (''say '' @ [backslash, quote] @ ''hi'' @ [backslash, quote]) \<and>
   unquote ((''say '' @ [backslash, quote] @ ''hi'' @ [backslash, quote]) @ quote # '': x'') = Some (''say '' @ [quote] @ ''hi'' @ [quote], '': x'')"
proof -
  have e: "sanitizeEnvValueForYAML (''say '' @ [quote] @ ''hi'' @ [quote]) ''GREETING'' = Inr (''say '' @ [backslash, quote] @ ''hi'' @ [backslash, quote])"
    by code_simp
  from environment_values_survive_quoting [OF this] e show ?thesis by blast
qed

text \<open>A model's macros are its own, then the global ones, and its name as the macro of its identifier.\<close>

theorem model_macros_win:
  "map_of (mergeModelMacros modelID global own) n =
     (case map_of (rev own) n of
        Some v \<Rightarrow> Some v
      | None \<Rightarrow> if n = ''MODEL_ID'' then Some (VStr modelID) else map_of global n)"
  by (simp add: mergeModelMacros_def map_of_overlays map_add_def split: option.split)

section \<open>A document\<close>

text \<open>Two models that ask for a port, the second with a macro of its own and the port in its metadata.\<close>

definition sampleYaml :: Yaml where
  "sampleYaml = \<lparr>
     unmarshalMacros = (\<lambda>s. Inr \<lparr>GlobalMacros = [(''bin'', VStr ''serve''), (''ctx'', VInt 4096)],
       ModelMacros = [(''big'', [(''ctx'', VInt 8192)])]\<rparr>),
     unmarshalMap = (\<lambda>s. Inr [
       (''macros'', VMap [(''bin'', VStr ''serve''), (''ctx'', VInt 4096)]),
       (''logLevel'', VStr ''info''),
       (''models'', VMap [
          (''small'', VMap [(''cmd'', VStr ''${bin} -m ${MODEL_ID} -c ${ctx} --port ${PORT}''), (''cmdStop'', VStr ''kill ${PID}'')]),
          (''big'', VMap [(''macros'', VMap [(''ctx'', VInt 8192)]), (''cmd'', VStr ''${bin} -c ${ctx} --port ${PORT}''),
             (''metadata'', VMap [(''port'', VStr ''${PORT}'')])])])]),
     withoutComments = Some,
     decodeStartPort = (\<lambda>dflt raw. Inr dflt),
     decodeConfig = (\<lambda>raw. Inl ''not decoded''),
     lookupEnv = (\<lambda>n. None)\<rparr>"

definition sampleDecls :: configMacroConfig where
  "sampleDecls = \<lparr>GlobalMacros = [(''bin'', VStr ''serve''), (''ctx'', VInt 4096)], ModelMacros = [(''big'', [(''ctx'', VInt 8192)])]\<rparr>"

definition sampleResolved :: fields where
  "sampleResolved = [
     (''logLevel'', VStr ''info''),
     (''models'', VMap [
        (''small'', VMap [(''cmd'', VStr ''serve -m small -c 4096 --port 5801''), (''cmdStop'', VStr ''kill ${PID}''),
           (''proxy'', VStr ''http://localhost:5801'')]),
        (''big'', VMap [(''cmd'', VStr ''serve -c 8192 --port 5800''), (''metadata'', VMap [(''port'', VInt 5800)]),
           (''proxy'', VStr ''http://localhost:5800'')])])]"

lemma sample_resolves: "resolveConfigMacros sampleYaml [] = Inr (sampleResolved, sampleDecls)"
  by code_simp

theorem accepted_documents_are_resolved_witness:
  "resolved {} ''serve -m small -c 4096 --port 5801'' \<and> resolved {''PID''} ''kill ${PID}''"
proof -
  have "(''models'', VMap (fieldsOf (map_of sampleResolved ''models''))) \<in> set sampleResolved" "''models'' \<in> set knownFields"
    by (simp_all add: sampleResolved_def knownFields_def)
  from accepted_documents_are_resolved [OF sample_resolves this]
  have all: "resolved (if field = ''cmdStop'' then {''PID''} else {}) t"
    if "(i, VMap model) \<in> set (fieldsOf (map_of sampleResolved ''models''))" "(field, w) \<in> set model" "t \<in> set (texts w)"
    for i model field w t
    using that by blast
  have small: "(''small'', VMap [(''cmd'', VStr ''serve -m small -c 4096 --port 5801''), (''cmdStop'', VStr ''kill ${PID}''),
           (''proxy'', VStr ''http://localhost:5801'')]) \<in> set (fieldsOf (map_of sampleResolved ''models''))"
    by (simp add: sampleResolved_def)
  show ?thesis
    using all [OF small, of "''cmd''" "VStr ''serve -m small -c 4096 --port 5801''"]
      all [OF small, of "''cmdStop''" "VStr ''kill ${PID}''"] by simp
qed

definition sampleRaw :: fields where
  "sampleRaw = (case unmarshalMap sampleYaml [] of Inr raw \<Rightarrow> raw | Inl e \<Rightarrow> [])"

lemma macro_sample_run:
  "case resolveRaw sampleYaml sampleDecls sampleRaw of
     Inr raw \<Rightarrow> raw = sampleResolved | Inl e \<Rightarrow> False"
  "let models = fieldsOf (map_of (prepared sampleDecls sampleRaw) ''models'') in
   map fst models = [''small'', ''big''] \<and> sortedKeys models = [''big'', ''small''] \<and>
   asksForPort sampleDecls models ''big'' \<and> asksForPort sampleDecls models ''small''"
  by code_simp+

theorem ports_are_consecutive_witness:
  "\<exists>models models' start. hasPort sampleDecls models models' ''big'' start \<and> hasPort sampleDecls models models' ''small'' (start + 1)"
proof -
  define models where "models = fieldsOf (map_of (prepared sampleDecls sampleRaw) ''models'')"
  have r: "resolveRaw sampleYaml sampleDecls sampleRaw = Inr sampleResolved"
    using macro_sample_run(1) by (simp split: sum.splits)
  have m: "map fst models = [''small'', ''big'']" "sortedKeys models = [''big'', ''small'']"
      "asksForPort sampleDecls models ''big''" "asksForPort sampleDecls models ''small''"
    using macro_sample_run(2) unfolding models_def Let_def by blast+
  have u: "filter (asksForPort sampleDecls models) (sortedKeys models) = [''big'', ''small'']" using m by simp
  have d: "distinct (map fst models)" using m(1) by simp
  from ports_are_consecutive [OF r d models_def refl] obtain start models' where
    *: "\<And>i. i < length [''big'', ''small''] \<Longrightarrow> hasPort sampleDecls models models' ([''big'', ''small''] ! i) (start + int i)"
    unfolding u by blast
  from * [of 0] * [of 1] show ?thesis by auto
qed

end
