(* ===== verification/Inflight.thy ===== *)
theory Inflight
  imports Config_Types "HOL-Library.Word"
begin

text \<open>
  \<^verbatim>\<open>internal/server/inflight.go\<close>: the requests being served, and the outbox through which their changes
  reach subscribers without the request path ever waiting for them. The operations are functions of
  the tracker and of the time; the goroutines that meet in it are steps of a transition system. A Go
  map copied and handed on is a value here, and cancelling a context is an entry in a list.
\<close>

section \<open>Requests and events\<close>

record Entry =
  EntryID :: string
  Timestamp :: int
  EntryModel :: string
  ReqPath :: string
  ReqMethod :: string
  ReqHeaders :: "(string \<times> string) list"
  RemoteIP :: string
  RespHeaders :: "(string \<times> string) list"
  RespBytes :: "64 word"
  ElapsedMs :: int
  EntryMetadata :: "(string \<times> string) list"

datatype InFlightEvent = Snapshot "Entry list" | Upsert Entry | Remove string

record inflightRequest =
  entry :: Entry
  lastEmitted :: int
  timer :: bool

record inflightTracker =
  nextID :: "64 word"
  requests :: "(string \<times> inflightRequest) list"
  updates :: "InFlightEvent list"
  needsSnapshot :: bool
  publisherRunning :: bool
  cancelled :: "string list"

definition inflightUpdateInterval :: int where "inflightUpdateInterval = 250 * 1000000"
definition inflightOutboxSize :: nat where "inflightOutboxSize = 128"

definition newInflightTracker :: inflightTracker where
  "newInflightTracker = \<lparr>nextID = 0, requests = [], updates = [], needsSnapshot = False, publisherRunning = False, cancelled = []\<rparr>"

definition setInflightElapsed :: "int \<Rightarrow> Entry \<Rightarrow> Entry" where
  "setInflightElapsed now e = e\<lparr>ElapsedMs := max 0 (now - Timestamp e) div 1000000\<rparr>"

definition upsertInflightEvent :: "int \<Rightarrow> Entry \<Rightarrow> InFlightEvent" where
  "upsertInflightEvent now e = Upsert (setInflightElapsed now e)"

fun refreshInflightElapsed :: "int \<Rightarrow> InFlightEvent \<Rightarrow> InFlightEvent" where
  "refreshInflightElapsed now (Upsert e) = Upsert (setInflightElapsed now e)"
| "refreshInflightElapsed now (Snapshot es) = Snapshot (map (setInflightElapsed now) es)"
| "refreshInflightElapsed now (Remove i) = Remove i"

definition earlier :: "Entry \<Rightarrow> Entry \<Rightarrow> bool" where
  "earlier a b \<longleftrightarrow> (if Timestamp a = Timestamp b then EntryID a < EntryID b else Timestamp a < Timestamp b)"

definition snapshotLocked :: "int \<Rightarrow> inflightTracker \<Rightarrow> Entry list" where
  "snapshotLocked now t = sortBy earlier (map (\<lambda>(i, r). setInflightElapsed now (entry r)) (requests t))"

definition Current :: "int \<Rightarrow> inflightTracker \<Rightarrow> InFlightEvent" where
  "Current now t = Snapshot (snapshotLocked now t)"

section \<open>Operations\<close>

text \<open>Each is what its method does between locking and unlocking \<^verbatim>\<open>mu\<close>, up to the update it hands to
  \<^verbatim>\<open>enqueueLocked\<close>. The request of \<open>Add\<close> is given by the entry made from it, without an identifier.\<close>

definition AddRequest :: "int \<Rightarrow> Entry \<Rightarrow> inflightTracker \<Rightarrow> inflightTracker \<times> InFlightEvent option" where
  "AddRequest now e t =
     (let n = nextID t + 1; i = nat_digits (unat n); e' = e\<lparr>EntryID := i, RespHeaders := [], RespBytes := 0\<rparr> in
      (t\<lparr>nextID := n, requests := AList.update i \<lparr>entry = e', lastEmitted = now, timer = False\<rparr> (requests t)\<rparr>,
       Some (upsertInflightEvent now e')))"

definition RemoveRequest :: "string \<Rightarrow> inflightTracker \<Rightarrow> inflightTracker \<times> InFlightEvent option" where
  "RemoveRequest i t =
     (case map_of (requests t) i of
        None \<Rightarrow> (t, None)
      | Some r \<Rightarrow> (t\<lparr>requests := AList.delete i (requests t)\<rparr>, Some (Remove i)))"

definition emitted :: "int \<Rightarrow> string \<Rightarrow> inflightRequest \<Rightarrow> inflightTracker \<Rightarrow> inflightTracker \<times> InFlightEvent option" where
  "emitted now i r t =
     (t\<lparr>requests := AList.update i (r\<lparr>lastEmitted := now\<rparr>) (requests t)\<rparr>, Some (upsertInflightEvent now (entry r)))"

definition SetResponseHeaders :: "int \<Rightarrow> string \<Rightarrow> (string \<times> string) list \<Rightarrow> inflightTracker \<Rightarrow> inflightTracker \<times> InFlightEvent option" where
  "SetResponseHeaders now i headers t =
     (case map_of (requests t) i of
        None \<Rightarrow> (t, None)
      | Some r \<Rightarrow> emitted now i (r\<lparr>entry := (entry r)\<lparr>RespHeaders := headers\<rparr>\<rparr>) t)"

definition AddResponseBytes :: "int \<Rightarrow> string \<Rightarrow> int \<Rightarrow> inflightTracker \<Rightarrow> inflightTracker \<times> InFlightEvent option" where
  "AddResponseBytes now i sent t =
     (if sent \<le> 0 then (t, None)
      else case map_of (requests t) i of
        None \<Rightarrow> (t, None)
      | Some r \<Rightarrow>
          let r = r\<lparr>entry := (entry r)\<lparr>RespBytes := RespBytes (entry r) + word_of_int sent\<rparr>\<rparr>;
              remaining = inflightUpdateInterval - (now - lastEmitted r) in
          if remaining \<le> 0 \<and> \<not> timer r then emitted now i r t
          else (t\<lparr>requests := AList.update i (r\<lparr>timer := True\<rparr>) (requests t)\<rparr>, None))"

definition emitPending :: "int \<Rightarrow> string \<Rightarrow> inflightTracker \<Rightarrow> inflightTracker \<times> InFlightEvent option" where
  "emitPending now i t =
     (case map_of (requests t) i of None \<Rightarrow> (t, None) | Some r \<Rightarrow> emitted now i (r\<lparr>timer := False\<rparr>) t)"

definition Cancel :: "string \<Rightarrow> inflightTracker \<Rightarrow> bool \<times> inflightTracker" where
  "Cancel i t =
     (case map_of (requests t) i of None \<Rightarrow> (False, t) | Some r \<Rightarrow> (True, t\<lparr>cancelled := i # cancelled t\<rparr>))"

datatype op =
    OpAdd Entry
  | OpRemove string
  | OpHeaders string "(string \<times> string) list"
  | OpBytes string int
  | OpTimer string

fun perform_op :: "int \<Rightarrow> op \<Rightarrow> inflightTracker \<Rightarrow> inflightTracker \<times> InFlightEvent option" where
  "perform_op now (OpAdd e) t = AddRequest now e t"
| "perform_op now (OpRemove i) t = RemoveRequest i t"
| "perform_op now (OpHeaders i hs) t = SetResponseHeaders now i hs t"
| "perform_op now (OpBytes i n) t = AddResponseBytes now i n t"
| "perform_op now (OpTimer i) t = emitPending now i t"

section \<open>A tracked response\<close>

text \<open>\<^verbatim>\<open>inflightResponseWriter\<close>: whether the header is written, and what is called on the tracker.\<close>

datatype response_call = WriteHeader "(string \<times> string) list" | Write "(string \<times> string) list" int | Flush "(string \<times> string) list"

fun writeHeader :: "string \<Rightarrow> (string \<times> string) list \<Rightarrow> bool \<Rightarrow> bool \<times> op list" where
  "writeHeader i hs wrote = (if wrote then (wrote, []) else (True, [OpHeaders i hs]))"

fun respond :: "string \<Rightarrow> response_call \<Rightarrow> bool \<Rightarrow> bool \<times> op list" where
  "respond i (WriteHeader hs) wrote = writeHeader i hs wrote"
| "respond i (Write hs n) wrote = (let (w, ops) = writeHeader i hs wrote in (w, ops @ [OpBytes i n]))"
| "respond i (Flush hs) wrote = writeHeader i hs wrote"

fun responses :: "string \<Rightarrow> response_call list \<Rightarrow> bool \<Rightarrow> op list" where
  "responses i [] wrote = []"
| "responses i (c # cs) wrote = (let (w, ops) = respond i c wrote in ops @ responses i cs w)"

text \<open>\<^verbatim>\<open>CreateInflightMiddleware\<close> around a handler that answers with some calls.\<close>

definition tracked :: "Entry \<Rightarrow> string \<Rightarrow> response_call list \<Rightarrow> op list" where
  "tracked e i cs = OpAdd e # responses i cs False @ [OpRemove i]"

section \<open>The outbox\<close>

text \<open>
  A writer holds \<^verbatim>\<open>mu\<close> from its change to the end of \<^verbatim>\<open>enqueueLocked\<close>: after a failed send it has yet
  to set the flag, and then to start the publisher. A publisher is a goroutine at one of the points
  between which others may act.
\<close>

datatype writer = Unlocked | Flagging | Starting

datatype publisher = Selecting | Publishing InFlightEvent | Swapping | Discarding | Reading | Stopping | Retrying

record System =
  tracker :: inflightTracker
  writing :: writer
  publishers :: "publisher list"
  published :: "InFlightEvent list"

definition newSystem :: System where
  "newSystem = \<lparr>tracker = newInflightTracker, writing = Unlocked, publishers = [], published = []\<rparr>"

definition sendUpdate :: "nat \<Rightarrow> InFlightEvent option \<Rightarrow> inflightTracker \<Rightarrow> inflightTracker \<times> writer" where
  "sendUpdate cap u t =
     (case u of
        None \<Rightarrow> (t, Unlocked)
      | Some u \<Rightarrow> if length (updates t) < cap then (t\<lparr>updates := updates t @ [u]\<rparr>, Starting) else (t, Flagging))"

definition startPublisher :: "System \<Rightarrow> System" where
  "startPublisher s =
     (if publisherRunning (tracker s) then s
      else s\<lparr>tracker := (tracker s)\<lparr>publisherRunning := True\<rparr>, publishers := publishers s @ [Selecting]\<rparr>)"

text \<open>One step of a publisher: the tracker after it, what it published, and where it is then
  (\<open>None\<close> when it has returned).\<close>

fun publisherStep :: "int \<Rightarrow> publisher \<Rightarrow> inflightTracker \<Rightarrow> inflightTracker \<times> InFlightEvent list \<times> publisher option" where
  "publisherStep now Selecting t =
     (case updates t of
        u # us \<Rightarrow> (t\<lparr>updates := us\<rparr>, [], Some (Publishing (refreshInflightElapsed now u)))
      | [] \<Rightarrow> (t\<lparr>publisherRunning := False\<rparr>, [], Some Stopping))"
| "publisherStep now (Publishing u) t = (t, [u], Some Swapping)"
| "publisherStep now Swapping t =
     (if needsSnapshot t then (t\<lparr>needsSnapshot := False\<rparr>, [], Some Discarding) else (t, [], Some Selecting))"
| "publisherStep now Discarding t =
     (case updates t of u # us \<Rightarrow> (t\<lparr>updates := us\<rparr>, [], Some Discarding) | [] \<Rightarrow> (t, [], Some Reading))"
| "publisherStep now Reading t = (t, [], Some (Publishing (Current now t)))"
| "publisherStep now Stopping t = (t, [], if updates t \<noteq> [] then Some Retrying else None)"
| "publisherStep now Retrying t =
     (if publisherRunning t then (t, [], None) else (t\<lparr>publisherRunning := True\<rparr>, [], Some Selecting))"

definition publish :: "int \<Rightarrow> nat \<Rightarrow> System \<Rightarrow> System" where
  "publish now k s =
     (case publisherStep now (publishers s ! k) (tracker s) of (t, out, p) \<Rightarrow>
        s\<lparr>tracker := t, published := published s @ out,
          publishers := (case p of Some q \<Rightarrow> (publishers s)[k := q]
                         | None \<Rightarrow> take k (publishers s) @ drop (Suc k) (publishers s))\<rparr>)"

text \<open>Reading the current state takes the lock for reading.\<close>

definition publisherEnabled :: "nat \<Rightarrow> System \<Rightarrow> bool" where
  "publisherEnabled k s \<longleftrightarrow> k < length (publishers s) \<and> (publishers s ! k = Reading \<longrightarrow> writing s = Unlocked)"

inductive tracker_step :: "nat \<Rightarrow> System \<Rightarrow> System \<Rightarrow> bool" for cap where
  change: "writing s = Unlocked \<Longrightarrow> perform_op now f (tracker s) = (t, u) \<Longrightarrow> sendUpdate cap u t = (t', w) \<Longrightarrow>
     tracker_step cap s (s\<lparr>tracker := t', writing := w\<rparr>)"
| cancel: "writing s = Unlocked \<Longrightarrow> Cancel i (tracker s) = (b, t) \<Longrightarrow> tracker_step cap s (s\<lparr>tracker := t\<rparr>)"
| flag: "writing s = Flagging \<Longrightarrow>
     tracker_step cap s (s\<lparr>tracker := (tracker s)\<lparr>needsSnapshot := True\<rparr>, writing := Starting\<rparr>)"
| start: "writing s = Starting \<Longrightarrow> tracker_step cap s (startPublisher (s\<lparr>writing := Unlocked\<rparr>))"
| publisher: "publisherEnabled k s \<Longrightarrow> tracker_step cap s (publish now k s)"

inductive tracker_reach :: "nat \<Rightarrow> System \<Rightarrow> bool" for cap where
  init: "tracker_reach cap newSystem"
| step: "tracker_reach cap s \<Longrightarrow> tracker_step cap s s' \<Longrightarrow> tracker_reach cap s'"

inductive_cases tracker_stepE: "tracker_step cap s s'"

end
