(* ===== verification/Inflight_Props.thy ===== *)
theory Inflight_Props
  imports Inflight
begin

text \<open>
  What subscribers are told adds up to what is in flight: an invariant of all interleavings of writers
  and publishers, what it means when everything has come to rest, that the publishers do come to rest,
  and the interleaving in which a dropped update is not made up for.
\<close>

section \<open>What subscribers know\<close>

fun absorb :: "InFlightEvent \<Rightarrow> (string \<rightharpoonup> Entry) \<Rightarrow> string \<rightharpoonup> Entry" where
  "absorb (Snapshot es) v = map_of (map (\<lambda>e. (EntryID e, e)) es)"
| "absorb (Upsert e) v = v(EntryID e \<mapsto> e)"
| "absorb (Remove i) v = v(i := None)"

definition known :: "InFlightEvent list \<Rightarrow> string \<rightharpoonup> Entry" where
  "known us = fold absorb us Map.empty"

definition same :: "Entry \<Rightarrow> Entry \<Rightarrow> bool" where
  "same a b \<longleftrightarrow> a\<lparr>RespBytes := 0, ElapsedMs := 0\<rparr> = b\<lparr>RespBytes := 0, ElapsedMs := 0\<rparr>"

text \<open>The bytes of a response may lag behind while a timer is set to send them.\<close>

fun agrees :: "Entry option \<Rightarrow> inflightRequest option \<Rightarrow> bool" where
  "agrees None r \<longleftrightarrow> r = None"
| "agrees (Some e) None \<longleftrightarrow> False"
| "agrees (Some e) (Some r) \<longleftrightarrow> same e (entry r) \<and> (\<not> timer r \<longrightarrow> RespBytes e = RespBytes (entry r))"

definition request :: "inflightTracker \<Rightarrow> string \<Rightarrow> inflightRequest option" where
  "request t = map_of (requests t)"

text \<open>What a sequence of events says of one request, if anything.\<close>

fun says :: "InFlightEvent \<Rightarrow> string \<Rightarrow> Entry option option" where
  "says (Snapshot es) j = Some (map_of (map (\<lambda>e. (EntryID e, e)) es) j)"
| "says (Upsert e) j = (if EntryID e = j then Some (Some e) else None)"
| "says (Remove i) j = (if i = j then Some None else None)"

fun say :: "InFlightEvent list \<Rightarrow> string \<Rightarrow> Entry option option" where
  "say [] j = None"
| "say (u # us) j = (case say us j of Some x \<Rightarrow> Some x | None \<Rightarrow> says u j)"

lemma absorb_says: "absorb u v j = (case says u j of Some x \<Rightarrow> x | None \<Rightarrow> v j)"
  by (cases u) simp_all

lemma fold_absorb: "fold absorb us v j = (case say us j of Some x \<Rightarrow> x | None \<Rightarrow> v j)"
  by (induction us arbitrary: v) (auto simp: absorb_says split: option.splits)

lemma say_append: "say (us @ vs) j = (case say vs j of Some x \<Rightarrow> Some x | None \<Rightarrow> say us j)"
  by (induction us) (auto split: option.splits)

lemma known_append: "known (us @ vs) j = (case say vs j of Some x \<Rightarrow> x | None \<Rightarrow> known us j)"
  unfolding known_def fold_append comp_apply by (rule fold_absorb)

lemma same_refl [simp]: "same e e"
  by (simp add: same_def)

lemma same_elapsed [simp]: "same (setInflightElapsed now e) f = same e f" "same e (setInflightElapsed now f) = same e f"
  by (simp_all add: same_def setInflightElapsed_def)

lemma elapsed_simps [simp]:
  "EntryID (setInflightElapsed now e) = EntryID e" "RespBytes (setInflightElapsed now e) = RespBytes e"
  by (simp_all add: setInflightElapsed_def)

text \<open>Refreshing the elapsed time of an event changes nothing that is compared.\<close>

lemma says_refresh: "agrees x r \<Longrightarrow> says u j = Some x \<Longrightarrow> \<exists>y. says (refreshInflightElapsed now u) j = Some y \<and> agrees y r"
proof (cases u)
  case (Snapshot es)
  assume a: "agrees x r" "says u j = Some x"
  have "map_of (map (\<lambda>e. (EntryID e, e)) (map (setInflightElapsed now) es)) j =
      map_option (setInflightElapsed now) (map_of (map (\<lambda>e. (EntryID e, e)) es) j)"
    by (induction es) simp_all
  then show ?thesis using a Snapshot by (cases x; cases r) auto
qed (auto split: if_splits, (cases r; simp)+)

lemma says_refresh_None: "says u j = None \<Longrightarrow> says (refreshInflightElapsed now u) j = None"
  by (cases u) (auto split: if_splits)

lemma request_frames [simp]:
  "request (t\<lparr>updates := us\<rparr>) = request t" "request (t\<lparr>needsSnapshot := b\<rparr>) = request t"
  "request (t\<lparr>publisherRunning := b\<rparr>) = request t" "request (t\<lparr>nextID := n\<rparr>) = request t"
  "request (t\<lparr>cancelled := c\<rparr>) = request t"
  by (simp_all add: request_def fun_eq_iff)

section \<open>Operations\<close>

definition tracker_ok :: "inflightTracker \<Rightarrow> bool" where
  "tracker_ok t \<longleftrightarrow> distinct (map fst (requests t)) \<and> (\<forall>i r. request t i = Some r \<longrightarrow> EntryID (entry r) = i)"

definition tells :: "InFlightEvent option \<Rightarrow> string \<Rightarrow> Entry option option" where
  "tells u j = (case u of None \<Rightarrow> None | Some e \<Rightarrow> says e j)"

definition op_ok :: "inflightTracker \<Rightarrow> inflightTracker \<Rightarrow> InFlightEvent option \<Rightarrow> bool" where
  "op_ok t t' u \<longleftrightarrow> tracker_ok t' \<and> updates t' = updates t \<and> needsSnapshot t' = needsSnapshot t \<and>
     publisherRunning t' = publisherRunning t \<and>
     (\<forall>j x. tells u j = None \<longrightarrow> agrees x (request t j) \<longrightarrow> agrees x (request t' j)) \<and>
     (\<forall>j x. tells u j = Some x \<longrightarrow> agrees x (request t' j))"

lemma op_ok_None [simp]: "tracker_ok t \<Longrightarrow> op_ok t t None"
  by (simp add: op_ok_def tells_def)

lemma op_ok_update:
  assumes "tracker_ok t" "EntryID (entry r) = i" "t' = t\<lparr>requests := AList.update i r (requests t)\<rparr>"
  shows "op_ok t t' (Some (upsertInflightEvent now (entry r)))"
  using assms by (auto simp: op_ok_def tells_def tracker_ok_def request_def upsertInflightEvent_def distinct_update update_conv')

lemma op_ok_emitted:
  assumes "tracker_ok t" "EntryID (entry r) = i" "emitted now i r t = (t', u)"
  shows "op_ok t t' u"
  using op_ok_update [OF assms(1), of "r\<lparr>lastEmitted := now\<rparr>" i t' now] assms(2,3) by (simp add: emitted_def)

lemma perform_op_ok:
  assumes "perform_op now f t = (t', u)" "tracker_ok t"
  shows "op_ok t t' u"
proof (cases f)
  case (OpAdd e)
  let ?n = "nextID t + 1"
  let ?e = "e\<lparr>EntryID := nat_digits (unat ?n), RespHeaders := [], RespBytes := 0\<rparr>"
  let ?t = "t\<lparr>nextID := ?n\<rparr>"
  have "tracker_ok ?t" using assms(2) by (simp add: tracker_ok_def request_def)
  from op_ok_update [OF this, of "\<lparr>entry = ?e, lastEmitted = now, timer = False\<rparr>" "nat_digits (unat ?n)" t' now]
  have "op_ok ?t t' u" using assms(1) OpAdd by (auto simp: AddRequest_def Let_def)
  then show ?thesis by (simp add: op_ok_def)
next
  case (OpRemove i)
  show ?thesis
  proof (cases "request t i")
    case None
    then show ?thesis using assms OpRemove by (simp add: RemoveRequest_def request_def)
  next
    case (Some r)
    then have "t' = t\<lparr>requests := AList.delete i (requests t)\<rparr>" "u = Some (Remove i)"
      using assms(1) OpRemove by (auto simp: RemoveRequest_def request_def)
    then show ?thesis using assms(2)
      by (auto simp: op_ok_def tells_def tracker_ok_def request_def delete_conv' distinct_delete)
  qed
next
  case (OpHeaders i hs)
  show ?thesis
  proof (cases "request t i")
    case None
    then show ?thesis using assms OpHeaders by (simp add: SetResponseHeaders_def request_def)
  next
    case (Some r)
    then have e: "emitted now i (r\<lparr>entry := (entry r)\<lparr>RespHeaders := hs\<rparr>\<rparr>) t = (t', u)"
      using assms(1) OpHeaders by (simp add: SetResponseHeaders_def request_def)
    show ?thesis by (rule op_ok_emitted [OF assms(2) _ e]) (use Some assms(2) in \<open>simp add: tracker_ok_def\<close>)
  qed
next
  case (OpBytes i n)
  show ?thesis
  proof (cases "n \<le> 0 \<or> request t i = None")
    case True
    then show ?thesis using assms OpBytes by (auto simp: AddResponseBytes_def request_def split: if_splits)
  next
    case False
    then obtain r where r: "request t i = Some r" by blast
    define r' where "r' = r\<lparr>entry := (entry r)\<lparr>RespBytes := RespBytes (entry r) + word_of_int n\<rparr>\<rparr>"
    have id: "EntryID (entry r') = i" using r assms(2) by (simp add: r'_def tracker_ok_def)
    have "(if inflightUpdateInterval - (now - lastEmitted r') \<le> 0 \<and> \<not> timer r' then emitted now i r' t
        else (t\<lparr>requests := AList.update i (r'\<lparr>timer := True\<rparr>) (requests t)\<rparr>, None)) = (t', u)"
      using assms(1) OpBytes False r unfolding r'_def by (simp add: AddResponseBytes_def request_def Let_def)
    then consider "emitted now i r' t = (t', u)"
      | "t' = t\<lparr>requests := AList.update i (r'\<lparr>timer := True\<rparr>) (requests t)\<rparr>" "u = None"
      unfolding if_split [of "\<lambda>p. p = (t', u)"] prod.inject by metis
    then show ?thesis
    proof cases
      case 1
      then show ?thesis by (rule op_ok_emitted [OF assms(2) id])
    next
      case 2
      have "agrees x (Some (r'\<lparr>timer := True\<rparr>))" if "agrees x (Some r)" for x
        using that by (cases x) (simp_all add: r'_def same_def)
      then show ?thesis using 2 id assms(2) r
        by (auto simp: op_ok_def tells_def tracker_ok_def request_def distinct_update update_conv')
    qed
  qed
next
  case (OpTimer i)
  show ?thesis
  proof (cases "request t i")
    case None
    then show ?thesis using assms OpTimer by (simp add: emitPending_def request_def)
  next
    case (Some r)
    then have e: "emitted now i (r\<lparr>timer := False\<rparr>) t = (t', u)"
      using assms(1) OpTimer by (simp add: emitPending_def request_def)
    show ?thesis by (rule op_ok_emitted [OF assms(2) _ e]) (use Some assms(2) in \<open>simp add: tracker_ok_def\<close>)
  qed
qed

text \<open>A snapshot is exactly what is in flight.\<close>

lemma Current_agrees:
  assumes "tracker_ok t" "says (Current now t) j = Some x"
  shows "agrees x (request t j)"
proof -
  let ?es = "snapshotLocked now t"
  have set: "set ?es = (\<lambda>(i, r). setInflightElapsed now (entry r)) ` set (requests t)"
    by (simp add: snapshotLocked_def)
  have in_set: "(i, r) \<in> set (requests t) \<longleftrightarrow> request t i = Some r" for i r
    using assms(1) by (simp add: request_def tracker_ok_def)
  have "distinct (map EntryID (map (\<lambda>(i, r). setInflightElapsed now (entry r)) (requests t)))"
  proof -
    have "map EntryID (map (\<lambda>(i, r). setInflightElapsed now (entry r)) (requests t)) = map fst (requests t)"
      using assms(1) in_set by (auto simp: tracker_ok_def)
    then show ?thesis using assms(1) by (simp only: tracker_ok_def)
  qed
  moreover have "mset (map EntryID ?es) = mset (map EntryID (map (\<lambda>(i, r). setInflightElapsed now (entry r)) (requests t)))"
    by (simp only: snapshotLocked_def mset_map mset_sortBy)
  ultimately have "distinct (map EntryID ?es)" using mset_eq_imp_distinct_iff by blast
  then have d: "distinct (map fst (map (\<lambda>e. (EntryID e, e)) ?es))" by (simp add: comp_def)
  have x: "x = map_of (map (\<lambda>e. (EntryID e, e)) ?es) j" using assms(2) by (simp add: Current_def)
  show ?thesis
  proof (cases "request t j")
    case None
    then have "j \<notin> EntryID ` set ?es" using in_set assms(1) by (force simp: set tracker_ok_def)
    then have "x = None" using x by (simp add: map_of_eq_None_iff image_image)
    then show ?thesis using None by simp
  next
    case (Some r)
    then have "(j, r) \<in> set (requests t)" "EntryID (entry r) = j" using in_set assms(1) by (simp_all add: tracker_ok_def)
    then have "(j, setInflightElapsed now (entry r)) \<in> set (map (\<lambda>e. (EntryID e, e)) ?es)"
      unfolding set_map set by (intro image_eqI [of _ _ "setInflightElapsed now (entry r)"] image_eqI [of _ _ "(j, r)"]) simp_all
    then have "x = Some (setInflightElapsed now (entry r))" using x map_of_is_SomeI [OF d] by simp
    then show ?thesis using Some by simp
  qed
qed

section \<open>Publishers\<close>

text \<open>The publisher whose flag is set, as opposed to those about to leave.\<close>

definition active :: "publisher \<Rightarrow> bool" where
  "active p \<longleftrightarrow> p \<noteq> Stopping \<and> p \<noteq> Retrying"

definition in_hand :: "publisher \<Rightarrow> InFlightEvent list" where
  "in_hand p = (case p of Publishing u \<Rightarrow> [u] | _ \<Rightarrow> [])"

definition hands :: "publisher list \<Rightarrow> InFlightEvent list" where
  "hands ps = concat (map in_hand ps)"

definition fresh :: "inflightTracker \<Rightarrow> bool" where
  "fresh t \<longleftrightarrow> (\<forall>j x. say (updates t) j = Some x \<longrightarrow> agrees x (request t j))"

definition told :: "InFlightEvent list \<Rightarrow> inflightTracker \<Rightarrow> bool" where
  "told us t \<longleftrightarrow> (\<forall>j. agrees (known (us @ updates t) j) (request t j))"

text \<open>An update is missing, or was, and a snapshot will make up for it.\<close>

definition flagged :: "System \<Rightarrow> bool" where
  "flagged s \<longleftrightarrow> needsSnapshot (tracker s) \<or> writing s = Flagging"

definition tracker_inv :: "System \<Rightarrow> bool" where
  "tracker_inv s \<longleftrightarrow>
     tracker_ok (tracker s) \<and>
     length (filter active (publishers s)) = (if publisherRunning (tracker s) then 1 else 0) \<and>
     (updates (tracker s) \<noteq> [] \<longrightarrow> publisherRunning (tracker s) \<or> writing s \<noteq> Unlocked \<or>
        Stopping \<in> set (publishers s) \<or> Retrying \<in> set (publishers s)) \<and>
     (flagged s \<or> Discarding \<in> set (publishers s) \<or> (Reading \<in> set (publishers s) \<and> fresh (tracker s)) \<or>
        told (published s @ hands (publishers s)) (tracker s))"

lemma tracker_inv_init: "tracker_inv newSystem"
  by (simp add: tracker_inv_def newSystem_def newInflightTracker_def tracker_ok_def request_def told_def hands_def known_def)

subsection \<open>Writers\<close>

lemma fresh_op:
  assumes "fresh t" "op_ok t t' u"
  shows "fresh (t'\<lparr>updates := updates t @ (case u of None \<Rightarrow> [] | Some e \<Rightarrow> [e])\<rparr>)"
proof -
  have "agrees x (request t' j)" if "say (updates t @ (case u of None \<Rightarrow> [] | Some e \<Rightarrow> [e])) j = Some x" for j x
  proof (cases "tells u j")
    case None
    then have "say (updates t) j = Some x" using that by (cases u) (simp_all add: say_append tells_def)
    then have "agrees x (request t j)" using assms(1) by (simp add: fresh_def)
    moreover have "\<forall>x. agrees x (request t j) \<longrightarrow> agrees x (request t' j)"
      using assms(2) None unfolding op_ok_def by simp
    ultimately show ?thesis by blast
  next
    case (Some y)
    then have "x = y" using that by (cases u) (simp_all add: say_append tells_def)
    moreover have "agrees y (request t' j)" using assms(2) Some unfolding op_ok_def by simp
    ultimately show ?thesis by simp
  qed
  then show ?thesis by (simp add: fresh_def request_def)
qed

lemma told_op:
  assumes "told us t" "op_ok t t' u"
  shows "told us (t'\<lparr>updates := updates t @ (case u of None \<Rightarrow> [] | Some e \<Rightarrow> [e])\<rparr>)"
proof -
  have "agrees (known (us @ updates t @ (case u of None \<Rightarrow> [] | Some e \<Rightarrow> [e])) j) (request t' j)" for j
  proof (cases "tells u j")
    case None
    then have "known (us @ updates t @ (case u of None \<Rightarrow> [] | Some e \<Rightarrow> [e])) j = known (us @ updates t) j"
      by (cases u) (simp_all add: known_append say_append tells_def)
    moreover have "agrees (known (us @ updates t) j) (request t j)" using assms(1) by (simp add: told_def)
    moreover have "\<forall>x. agrees x (request t j) \<longrightarrow> agrees x (request t' j)"
      using assms(2) None unfolding op_ok_def by simp
    ultimately show ?thesis by simp
  next
    case (Some y)
    then have "known (us @ updates t @ (case u of None \<Rightarrow> [] | Some e \<Rightarrow> [e])) j = y"
      by (cases u) (simp_all add: known_append say_append tells_def)
    moreover have "agrees y (request t' j)" using assms(2) Some unfolding op_ok_def by simp
    ultimately show ?thesis by simp
  qed
  then show ?thesis by (simp add: told_def request_def)
qed

lemma tracker_inv_change:
  assumes "tracker_inv s" "writing s = Unlocked" "perform_op now f (tracker s) = (t, u)" "sendUpdate cap u t = (t', w)"
  shows "tracker_inv (s\<lparr>tracker := t', writing := w\<rparr>)"
proof -
  have ok: "op_ok (tracker s) t u" using perform_op_ok [OF assms(3)] assms(1) by (simp add: tracker_inv_def)
  then have frame: "tracker_ok t" "updates t = updates (tracker s)" "needsSnapshot t = needsSnapshot (tracker s)"
      "publisherRunning t = publisherRunning (tracker s)" by (simp_all add: op_ok_def)
  consider (dropped) "t' = t" "w = Flagging" | (sent) "t' = t\<lparr>updates := updates (tracker s) @ (case u of None \<Rightarrow> [] | Some e \<Rightarrow> [e])\<rparr>" "u = None \<longrightarrow> w = Unlocked"
      "u \<noteq> None \<longrightarrow> w = Starting"
    using assms(4) frame(2) by (auto simp: sendUpdate_def split: option.splits if_splits)
  then show ?thesis
  proof cases
    case dropped
    then show ?thesis using assms(1) frame by (simp add: tracker_inv_def flagged_def)
  next
    case sent
    have "flagged s \<longrightarrow> flagged (s\<lparr>tracker := t', writing := w\<rparr>)" using assms(2) sent(1) frame(3) by (simp add: flagged_def)
    moreover have "fresh (tracker s) \<longrightarrow> fresh t'" "told us (tracker s) \<longrightarrow> told us t'" for us
      using fresh_op [OF _ ok] told_op [OF _ ok] sent(1) by simp_all
    moreover have "tracker_ok t'" "publisherRunning t' = publisherRunning (tracker s)"
      using frame sent(1) by (simp_all add: tracker_ok_def request_def)
    moreover have "updates t' \<noteq> [] \<longrightarrow> updates (tracker s) \<noteq> [] \<or> w \<noteq> Unlocked" using sent by (cases u) auto
    ultimately show ?thesis using assms(1,2) unfolding tracker_inv_def by (auto split: if_splits)
  qed
qed

lemma tracker_inv_cong:
  assumes "tracker_inv s" "requests (tracker s') = requests (tracker s)" "updates (tracker s') = updates (tracker s)"
    "publisherRunning (tracker s') = publisherRunning (tracker s)" "publishers s' = publishers s" "published s' = published s"
    "flagged s \<longrightarrow> flagged s'" "writing s \<noteq> Unlocked \<longrightarrow> writing s' \<noteq> Unlocked"
  shows "tracker_inv s'"
proof -
  have "request (tracker s') = request (tracker s)" using assms(2) by (simp add: request_def)
  then have "tracker_ok (tracker s') = tracker_ok (tracker s)" "fresh (tracker s') = fresh (tracker s)"
      "told us (tracker s') = told us (tracker s)" for us
    using assms(2,3) by (simp_all add: tracker_ok_def fresh_def told_def)
  then show ?thesis using assms unfolding tracker_inv_def by (auto split: if_splits)
qed

lemma hands_append [simp]: "hands (ps @ qs) = hands ps @ hands qs" "hands (p # ps) = in_hand p @ hands ps" "hands [] = []"
  by (simp_all add: hands_def)

lemma in_hand_simps [simp]:
  "in_hand Selecting = []" "in_hand (Publishing u) = [u]" "in_hand Swapping = []" "in_hand Discarding = []"
  "in_hand Reading = []" "in_hand Stopping = []" "in_hand Retrying = []"
  by (simp_all add: in_hand_def)

lemma active_simps [simp]:
  "active Selecting" "active (Publishing u)" "active Swapping" "active Discarding" "active Reading"
  "\<not> active Stopping" "\<not> active Retrying"
  by (simp_all add: active_def)

lemma inactive_hand: "\<not> active p \<Longrightarrow> in_hand p = []"
  by (cases p) simp_all

lemma inactive_hands: "filter active ps = [] \<Longrightarrow> hands ps = [] \<and> Discarding \<notin> set ps \<and> Reading \<notin> set ps"
  by (induction ps) (auto simp: inactive_hand split: if_splits)

lemma tracker_frames [simp]:
  "tracker_ok (t\<lparr>updates := us\<rparr>) = tracker_ok t" "tracker_ok (t\<lparr>needsSnapshot := b\<rparr>) = tracker_ok t"
  "tracker_ok (t\<lparr>publisherRunning := b\<rparr>) = tracker_ok t"
  "fresh (t\<lparr>needsSnapshot := b\<rparr>) = fresh t" "fresh (t\<lparr>publisherRunning := b\<rparr>) = fresh t"
  "told vs (t\<lparr>needsSnapshot := b\<rparr>) = told vs t" "told vs (t\<lparr>publisherRunning := b\<rparr>) = told vs t"
  by (simp_all add: tracker_ok_def fresh_def told_def)

lemma tracker_inv_start:
  assumes "tracker_inv s" "writing s = Starting"
  shows "tracker_inv (startPublisher (s\<lparr>writing := Unlocked\<rparr>))"
  using assms by (cases "publisherRunning (tracker s)") (auto simp: tracker_inv_def startPublisher_def flagged_def)

subsection \<open>Publisher steps\<close>

lemma told_refresh:
  assumes "told us t" "updates t = u # vs"
  shows "told (us @ [refreshInflightElapsed now u]) (t\<lparr>updates := vs\<rparr>)"
proof -
  have "agrees (known ((us @ [refreshInflightElapsed now u]) @ vs) j) (request t j)" for j
  proof -
    have old: "agrees (known (us @ u # vs) j) (request t j)" using assms by (simp add: told_def)
    show ?thesis
    proof (cases "say vs j")
      case (Some x)
      then show ?thesis using old by (simp add: known_append)
    next
      case None
      show ?thesis
      proof (cases "says u j")
        case None
        then show ?thesis using \<open>say vs j = None\<close> old says_refresh_None by (simp add: known_append)
      next
        case (Some x)
        then have "agrees x (request t j)" using \<open>say vs j = None\<close> old by (simp add: known_append)
        from says_refresh [OF this Some] obtain y
          where "says (refreshInflightElapsed now u) j = Some y" "agrees y (request t j)" by blast
        then show ?thesis using \<open>say vs j = None\<close> by (simp add: known_append)
      qed
    qed
  qed
  then show ?thesis by (simp add: told_def)
qed

lemma told_fresh: "told us t \<Longrightarrow> fresh t"
  by (auto simp: told_def fresh_def known_append split: option.splits)

lemma told_snapshot:
  assumes "fresh t" "tracker_ok t"
  shows "told (us @ [Current now t]) t"
proof -
  have "agrees (known ((us @ [Current now t]) @ updates t) j) (request t j)" for j
  proof (cases "say (updates t) j")
    case (Some x)
    then show ?thesis using assms(1) by (simp add: known_append fresh_def)
  next
    case None
    obtain x where "says (Current now t) j = Some x" by (simp add: Current_def)
    then show ?thesis using None Current_agrees [OF assms(2)] by (simp add: known_append)
  qed
  then show ?thesis by (simp add: told_def)
qed

text \<open>A step of the publisher between \<open>as\<close> and \<open>bs\<close>.\<close>

lemma publish_split:
  assumes "publisherEnabled k s"
  obtains as p bs t out q where "publishers s = as @ p # bs" "publisherStep now p (tracker s) = (t, out, q)"
    "publish now k s = s\<lparr>tracker := t, published := published s @ out,
       publishers := as @ (case q of Some r \<Rightarrow> [r] | None \<Rightarrow> []) @ bs\<rparr>"
    "p = Reading \<Longrightarrow> writing s = Unlocked"
proof -
  have k: "k < length (publishers s)" using assms by (simp add: publisherEnabled_def)
  define as where "as = take k (publishers s)"
  define bs where "bs = drop (Suc k) (publishers s)"
  have ps: "publishers s = as @ publishers s ! k # bs" using k by (simp add: as_def bs_def id_take_nth_drop)
  obtain t out q where step: "publisherStep now (publishers s ! k) (tracker s) = (t, out, q)" by (metis prod_cases3)
  have upd: "(publishers s)[k := r] = as @ r # bs" for r using k by (simp add: as_def bs_def upd_conv_take_nth_drop)
  have "publish now k s = s\<lparr>tracker := t, published := published s @ out,
       publishers := as @ (case q of Some r \<Rightarrow> [r] | None \<Rightarrow> []) @ bs\<rparr>"
    by (cases q) (simp_all add: publish_def step upd, simp add: as_def bs_def)
  with ps step that assms show ?thesis by (simp add: publisherEnabled_def)
qed

lemma tracker_inv_publish:
  assumes inv: "tracker_inv s" and enabled: "publisherEnabled k s"
  shows "tracker_inv (publish now k s)"
proof -
  obtain as p bs t out q where ps: "publishers s = as @ p # bs" and step: "publisherStep now p (tracker s) = (t, out, q)"
    and s': "publish now k s = s\<lparr>tracker := t, published := published s @ out,
       publishers := as @ (case q of Some r \<Rightarrow> [r] | None \<Rightarrow> []) @ bs\<rparr>"
    and locked: "p = Reading \<Longrightarrow> writing s = Unlocked"
    using publish_split [OF enabled] by metis
  have others: "filter active as = []" "filter active bs = []" "publisherRunning (tracker s)" if "active p"
    using inv ps that by (auto simp: tracker_inv_def split: if_splits)
  have quiet: "hands as = []" "Discarding \<notin> set as" "Reading \<notin> set as" "hands bs = []" "Discarding \<notin> set bs" "Reading \<notin> set bs"
    if "active p" using inactive_hands others that by blast+
  note parts = inv [unfolded tracker_inv_def ps flagged_def]
  show ?thesis
  proof (cases p)
    case Selecting
    show ?thesis
    proof (cases "updates (tracker s)")
      case Nil
      then show ?thesis using parts step others quiet Selecting
        by (auto simp: s' tracker_inv_def flagged_def split: if_splits)
    next
      case (Cons u us)
      have "told (published s) (tracker s) \<Longrightarrow> told (published s @ [refreshInflightElapsed now u]) (tracker s\<lparr>updates := us\<rparr>)"
        by (rule told_refresh [OF _ Cons])
      then show ?thesis using Cons parts step others quiet Selecting
        by (auto simp: s' tracker_inv_def flagged_def split: if_splits)
    qed
  next
    case (Publishing u)
    then show ?thesis using parts step others quiet by (auto simp: s' tracker_inv_def flagged_def split: if_splits)
  next
    case Swapping
    then show ?thesis using parts step others quiet by (auto simp: s' tracker_inv_def flagged_def split: if_splits)
  next
    case Discarding
    then show ?thesis using parts step others quiet
      by (cases "updates (tracker s)") (auto simp: s' tracker_inv_def flagged_def fresh_def split: if_splits)
  next
    case Reading
    have "told (published s @ [Current now (tracker s)]) (tracker s)" if "fresh (tracker s)"
      using told_snapshot [OF that] parts by blast
    then show ?thesis using parts step others quiet Reading told_fresh [of "published s" "tracker s"]
      by (auto simp: s' tracker_inv_def flagged_def split: if_splits)
  next
    case Stopping
    then show ?thesis using parts step by (auto simp: s' tracker_inv_def flagged_def split: if_splits)
  next
    case Retrying
    then show ?thesis using parts step by (auto simp: s' tracker_inv_def flagged_def split: if_splits)
  qed
qed

lemma tracker_reach_inv: "tracker_reach cap s \<Longrightarrow> tracker_inv s"
proof (induction rule: tracker_reach.induct)
  case init
  show ?case by (rule tracker_inv_init)
next
  case (step s s')
  from step(2,3) show ?case
  proof (cases rule: tracker_step.cases)
    case (change now f t u t' w)
    then show ?thesis using tracker_inv_change [OF step(3)] by simp
  next
    case (cancel i b t)
    then show ?thesis
      by (auto intro!: tracker_inv_cong [OF step(3)] simp: Cancel_def flagged_def split: option.splits)
  next
    case flag
    then show ?thesis by (auto intro!: tracker_inv_cong [OF step(3)] simp: flagged_def)
  next
    case start
    then show ?thesis using tracker_inv_start [OF step(3)] by simp
  next
    case (publisher k now)
    then show ?thesis using tracker_inv_publish [OF step(3)] by simp
  qed
qed

section \<open>Coming to rest\<close>

definition publisher_move :: "System \<Rightarrow> System \<Rightarrow> bool" where
  "publisher_move s s' \<longleftrightarrow> (\<exists>now k. publisherEnabled k s \<and> s' = publish now k s)"

fun rank :: "inflightTracker \<Rightarrow> publisher \<Rightarrow> nat" where
  "rank t Discarding = 6"
| "rank t Reading = 5"
| "rank t (Publishing u) = 4"
| "rank t Swapping = 3"
| "rank t Stopping = (if updates t \<noteq> [] then 4 else 1)"
| "rank t Retrying = 3"
| "rank t Selecting = 2"

definition work :: "System \<Rightarrow> nat \<times> nat \<times> nat" where
  "work s = (if needsSnapshot (tracker s) then 1 else 0, length (updates (tracker s)),
     sum_list (map (rank (tracker s)) (publishers s)))"

lemma rank_cong: "updates t' = updates t \<Longrightarrow> rank t' = rank t"
proof
  fix p assume "updates t' = updates t"
  then show "rank t' p = rank t p" by (cases p) simp_all
qed

lemma publish_works:
  assumes "publisherEnabled k s"
  shows "(work (publish now k s), work s) \<in> less_than <*lex*> less_than <*lex*> less_than"
proof -
  obtain as p bs t out q where ps: "publishers s = as @ p # bs" and step: "publisherStep now p (tracker s) = (t, out, q)"
    and s': "publish now k s = s\<lparr>tracker := t, published := published s @ out,
       publishers := as @ (case q of Some r \<Rightarrow> [r] | None \<Rightarrow> []) @ bs\<rparr>"
    using publish_split [OF assms] by metis
  consider (needs) "needsSnapshot (tracker s)" "\<not> needsSnapshot t"
    | (queue) "needsSnapshot t = needsSnapshot (tracker s)" "length (updates t) < length (updates (tracker s))"
    | (rank) "needsSnapshot t = needsSnapshot (tracker s)" "updates t = updates (tracker s)"
        "(case q of Some r \<Rightarrow> rank t r | None \<Rightarrow> 0) < rank (tracker s) p"
    using step by (cases p; cases "updates (tracker s)") (auto split: if_splits)
  then show ?thesis
  proof cases
    case rank
    then show ?thesis using rank_cong [OF rank(2)] by (cases q) (simp_all add: work_def s' ps)
  qed (simp_all add: work_def s')
qed

lemma publisher_move_wf: "wf {(s', s). publisher_move s s'}"
proof (rule wf_subset)
  show "wf (inv_image (less_than <*lex*> less_than <*lex*> less_than) work)" by (intro wf_inv_image wf_lex_prod wf_less_than)
  show "{(s', s). publisher_move s s'} \<subseteq> inv_image (less_than <*lex*> less_than <*lex*> less_than) work"
    using publish_works by (auto simp: publisher_move_def)
qed

lemma at_rest:
  assumes "tracker_reach cap s" "writing s = Unlocked" "publishers s = []"
  shows "updates (tracker s) = []" "\<not> needsSnapshot (tracker s) \<Longrightarrow> agrees (known (published s) j) (request (tracker s) j)"
proof -
  have inv: "tracker_inv s" by (rule tracker_reach_inv [OF assms(1)])
  then show rest: "updates (tracker s) = []" using assms(2,3) by (auto simp: tracker_inv_def split: if_splits)
  assume "\<not> needsSnapshot (tracker s)"
  then have "told (published s) (tracker s)" using inv assms(2,3) by (simp add: tracker_inv_def flagged_def)
  then show "agrees (known (published s) j) (request (tracker s) j)" using rest by (simp add: told_def)
qed

section \<open>Runs\<close>

text \<open>A schedule: operations, the two halves of an overflowing send, and steps of publishers.\<close>

datatype act = Perform op | SetFlag | Start | Turn nat

fun go :: "nat \<Rightarrow> act \<Rightarrow> System \<Rightarrow> System option" where
  "go cap (Perform f) s =
     (if writing s \<noteq> Unlocked then None
      else case perform_op 0 f (tracker s) of (t, u) \<Rightarrow>
        (case sendUpdate cap u t of (t', w) \<Rightarrow> Some (s\<lparr>tracker := t', writing := w\<rparr>)))"
| "go cap SetFlag s =
     (if writing s = Flagging then Some (s\<lparr>tracker := (tracker s)\<lparr>needsSnapshot := True\<rparr>, writing := Starting\<rparr>) else None)"
| "go cap Start s = (if writing s = Starting then Some (startPublisher (s\<lparr>writing := Unlocked\<rparr>)) else None)"
| "go cap (Turn k) s = (if publisherEnabled k s then Some (publish 0 k s) else None)"

lemma go_step: "go cap a s = Some s' \<Longrightarrow> tracker_step cap s s'"
proof (cases a)
  case (Perform f)
  assume a: "go cap a s = Some s'"
  obtain t u where r: "perform_op 0 f (tracker s) = (t, u)" by force
  obtain t' w where w: "sendUpdate cap u t = (t', w)" by force
  show ?thesis using a Perform r w tracker_step.change [OF _ r w] by (auto split: if_splits)
qed (auto intro: tracker_step.intros split: if_splits)

lemma acts_reach: "tracker_reach cap s \<Longrightarrow> fold_opt (go cap) as s = Some s' \<Longrightarrow> tracker_reach cap s'"
  by (rule fold_opt_inv [where P = "tracker_reach cap"]) (auto intro: tracker_reach.step go_step)

definition sampleEntry :: Entry where
  "sampleEntry = \<lparr>EntryID = [], Timestamp = 0, EntryModel = ''m'', ReqPath = ''/v1/completions'', ReqMethod = ''POST'',
     ReqHeaders = [], RemoteIP = [], RespHeaders = [], RespBytes = 0, ElapsedMs = 0, EntryMetadata = []\<rparr>"

text \<open>A request is added and some of its response sent; everything is published.\<close>

definition answering :: "act list" where
  "answering = [Perform (OpAdd sampleEntry), Start, Turn 0, Turn 0, Perform (OpBytes ''1'' 10), Turn 0,
     Turn 0, Turn 0]"

text \<open>The outbox holds one update. Removing the request finds it full, and before the flag is set the
  publisher has emptied it and gone.\<close>

definition racing :: "act list" where
  "racing = [Perform (OpAdd sampleEntry), Start, Perform (OpRemove ''1''),
     Turn 0, Turn 0, Turn 0, Turn 0, Turn 0, SetFlag, Start, Turn 0, Turn 0]"

lemma answering_run:
  "case fold_opt (go 1) answering newSystem of None \<Rightarrow> False
   | Some s \<Rightarrow> publishers s = [] \<and> writing s = Unlocked \<and> \<not> needsSnapshot (tracker s) \<and> known (published s) ''1'' \<noteq> None"
  by code_simp

lemma racing_run:
  "case fold_opt (go 1) racing newSystem of None \<Rightarrow> False
   | Some s \<Rightarrow> publishers s = [] \<and> writing s = Unlocked \<and> updates (tracker s) = [] \<and> requests (tracker s) = [] \<and>
       known (published s) ''1'' \<noteq> None"
  by code_simp

section \<open>Properties\<close>

text \<open>C38: When nobody is changing the tracker, no publisher is running and no snapshot is owed, what
  subscribers have been told adds up to exactly the requests in flight, with the bytes of every response
  for which no timer is set; and nothing is left in the outbox.\<close>

theorem subscribers_know_what_is_in_flight:
  assumes "tracker_reach cap s" "writing s = Unlocked" "publishers s = []" "\<not> needsSnapshot (tracker s)"
  shows "updates (tracker s) = [] \<and> (\<forall>j. agrees (known (published s) j) (request (tracker s) j))"
  using at_rest [OF assms(1-3)] assms(4) by blast

theorem subscribers_know_what_is_in_flight_witness:
  "\<exists>(s :: System) e. known (published s) ''1'' = Some e \<and> agrees (Some e) (request (tracker s) ''1'')"
proof -
  obtain s where s: "fold_opt (go 1) answering newSystem = Some s" "publishers s = []" "writing s = Unlocked"
      "\<not> needsSnapshot (tracker s)" "known (published s) ''1'' \<noteq> None"
    using answering_run by (cases "fold_opt (go 1) answering newSystem") auto
  have "agrees (known (published s) ''1'') (request (tracker s) ''1'')"
    using subscribers_know_what_is_in_flight [OF acts_reach [OF tracker_reach.init s(1)] s(3,2,4)] by blast
  moreover obtain e where "known (published s) ''1'' = Some e" using s(5) by (cases "known (published s) ''1''") simp_all
  ultimately have "known (published s) ''1'' = Some e \<and> agrees (Some e) (request (tracker s) ''1'')" by simp
  then show ?thesis by blast
qed

text \<open>Publishing ends: publishers cannot go on forever by themselves, and as long as one is left and
  nobody holds the lock, one of them can go on.\<close>

theorem publishing_ends:
  "wf {(s', s). publisher_move s s'} \<and>
   (publishers s \<noteq> [] \<and> writing s = Unlocked \<longleftrightarrow> writing s = Unlocked \<and> (\<exists>s'. publisher_move s s'))"
proof -
  have "\<exists>s'. publisher_move s s'" if "publishers s \<noteq> []" "writing s = Unlocked"
  proof -
    have "publisherEnabled 0 s" using that by (simp add: publisherEnabled_def)
    then show ?thesis unfolding publisher_move_def by blast
  qed
  moreover have "publishers s \<noteq> []" if "\<exists>s'. publisher_move s s'"
    using that by (auto simp: publisher_move_def publisherEnabled_def)
  ultimately have "publishers s \<noteq> [] \<and> writing s = Unlocked \<longleftrightarrow> writing s = Unlocked \<and> (\<exists>s'. publisher_move s s')"
    by blast
  then show ?thesis using publisher_move_wf by (rule conjI [rotated])
qed

text \<open>An update dropped because the outbox was full may never be made up for: when the publisher
  empties the outbox and leaves before the flag is set, all is at rest and subscribers still see a request
  that has ended.\<close>

theorem dropped_update_stays_lost:
  "\<exists>s. tracker_reach 1 s \<and> publishers s = [] \<and> writing s = Unlocked \<and> updates (tracker s) = [] \<and>
     requests (tracker s) = [] \<and> known (published s) ''1'' \<noteq> None"
proof -
  obtain s where "fold_opt (go 1) racing newSystem = Some s" "publishers s = []" "writing s = Unlocked"
      "updates (tracker s) = []" "requests (tracker s) = []" "known (published s) ''1'' \<noteq> None"
    using racing_run by (cases "fold_opt (go 1) racing newSystem") auto
  then show ?thesis using acts_reach [OF tracker_reach.init] by blast
qed

section \<open>One request\<close>

text \<open>What a handler writes reaches the tracker as the headers, once, before any bytes.\<close>

lemma responses_written: "\<exists>ns. responses i cs True = map (OpBytes i) ns"
proof (induction cs)
  case (Cons c cs)
  then obtain ns where "responses i cs True = map (OpBytes i) ns" by blast
  then show ?case by (cases c) (auto intro: exI [of _ "_ # ns"])
qed simp

lemma responses_fresh: "responses i cs False = [] \<or> (\<exists>hs ns. responses i cs False = OpHeaders i hs # map (OpBytes i) ns)"
proof (cases cs)
  case (Cons c rest)
  obtain ns where "responses i rest True = map (OpBytes i) ns" using responses_written by blast
  then show ?thesis using Cons by (cases c) (auto intro: exI [of _ "_ # ns"])
qed simp

end
