(* ===== verification/Event_Dispatcher.thy ===== *)
theory Event_Dispatcher
  imports Config_Types "HOL-Library.Word"
begin

text \<open>
  \<^verbatim>\<open>internal/event/event.go\<close>: subscribers grouped by event type in a sorted table, and the queues through
  which a group hands events to the goroutines of its subscribers. What is done under the group's mutex is
  one step; waiting on its condition variable and waking are steps of their own. A Go type is its name.
\<close>

section \<open>The table of groups\<close>

record 'g registry =
  keys :: "32 word list"
  grps :: "'g list"

text \<open>The loop of \<^verbatim>\<open>findGroup\<close>, and \<^verbatim>\<open>sort.Search\<close>, which is the same search for a predicate.\<close>

function searchFrom :: "(nat \<Rightarrow> bool) \<Rightarrow> nat \<Rightarrow> nat \<Rightarrow> nat" where
  "searchFrom found left right =
     (if left < right
      then let mid = left + (right - left) div 2 in
           if \<not> found mid then searchFrom found (mid + 1) right else searchFrom found left mid
      else left)"
  by auto
termination by (relation "measure (\<lambda>(found, left, right). right - left)") auto

declare searchFrom.simps [simp del]

definition findGroup :: "'g registry \<Rightarrow> 32 word \<Rightarrow> 'g option" where
  "findGroup reg eventType =
     (let left = searchFrom (\<lambda>i. \<not> keys reg ! i < eventType) 0 (length (keys reg)) in
      if left < length (keys reg) \<and> keys reg ! left = eventType then Some (grps reg ! left) else None)"

text \<open>The copy with a new group in its place.\<close>

definition insertGroup :: "32 word \<Rightarrow> 'g \<Rightarrow> 'g registry \<Rightarrow> 'g registry" where
  "insertGroup eventType g reg =
     (let idx = searchFrom (\<lambda>i. eventType \<le> keys reg ! i) 0 (length (keys reg)) in
      \<lparr>keys = take idx (keys reg) @ [eventType] @ drop idx (keys reg),
       grps = take idx (grps reg) @ [g] @ drop idx (grps reg)\<rparr>)"

section \<open>Groups\<close>

text \<open>
  A consumer's goroutine is about to take the lock, waits, works off the buffer it swapped out, or has
  returned. The last three fields keep book of what has been passed to the handler and of the events
  broadcast when the consumer was added and removed; the code has no such fields.
\<close>

datatype 'e listening = Locking | Waiting | Working "'e list" | Returned

record 'e consumer =
  queue :: "'e list"
  stop :: bool
  listener :: "'e listening"
  received :: "'e list"
  since :: nat
  till :: "nat option"

text \<open>A sender is a goroutine in \<^verbatim>\<open>Broadcast\<close>: whether it waits, and its event. \<open>broadcasts\<close> keeps book.\<close>

record 'e Group =
  consumers :: "'e consumer list"
  subs :: "nat list"
  maxQueue :: nat
  maxLen :: nat
  senders :: "(bool \<times> 'e) list"
  broadcasts :: "'e list"

definition newGroup :: "nat \<Rightarrow> 'e Group" where
  "newGroup n = \<lparr>consumers = [], subs = [], maxQueue = n, maxLen = 0, senders = [], broadcasts = []\<rparr>"

definition AddConsumer :: "'e Group \<Rightarrow> nat \<times> 'e Group" where
  "AddConsumer g =
     (let i = length (consumers g) in
      (i, g\<lparr>consumers := consumers g @ [\<lparr>queue = [], stop = False, listener = Locking, received = [],
              since = length (broadcasts g), till = None\<rparr>], subs := subs g @ [i]\<rparr>))"

definition Del :: "nat \<Rightarrow> 'e Group \<Rightarrow> 'e Group" where
  "Del i g =
     (let c = consumers g ! i in
      g\<lparr>consumers := (consumers g)[i := c\<lparr>stop := True, till := (if i \<in> set (subs g) then Some (length (broadcasts g)) else till c)\<rparr>],
        subs := remove1 i (subs g)\<rparr>)"

definition wake :: "'e consumer \<Rightarrow> 'e consumer" where
  "wake c = (if listener c = Waiting then c\<lparr>listener := Locking\<rparr> else c)"

definition wakeAll :: "'e Group \<Rightarrow> 'e Group" where
  "wakeAll g = g\<lparr>consumers := map wake (consumers g), senders := map (\<lambda>(w, ev). (False, ev)) (senders g)\<rparr>"

definition longest :: "'e Group \<Rightarrow> nat" where
  "longest g = fold (\<lambda>i m. max m (length (queue (consumers g ! i)))) (subs g) 0"

definition enqueueAll :: "'e \<Rightarrow> 'e Group \<Rightarrow> 'e Group" where
  "enqueueAll ev g =
     g\<lparr>consumers := fold (\<lambda>i cs. cs[i := (cs ! i)\<lparr>queue := queue (cs ! i) @ [ev]\<rparr>]) (subs g) (consumers g)\<rparr>"

definition StartBroadcast :: "'e \<Rightarrow> 'e Group \<Rightarrow> 'e Group" where
  "StartBroadcast ev g = g\<lparr>senders := senders g @ [(False, ev)]\<rparr>"

text \<open>The \<open>k\<close>-th sender, with the lock: it waits, or its event is in all queues and everybody is woken.\<close>

definition Broadcast :: "nat \<Rightarrow> 'e Group \<Rightarrow> 'e Group" where
  "Broadcast k g =
     (let ev = snd (senders g ! k); m = longest g in
      if maxQueue g \<le> m then g\<lparr>maxLen := m, senders := (senders g)[k := (True, ev)]\<rparr>
      else let g1 = enqueueAll ev (g\<lparr>senders := take k (senders g) @ drop (Suc k) (senders g), broadcasts := broadcasts g @ [ev]\<rparr>)
           in wakeAll (g1\<lparr>maxLen := longest g1\<rparr>))"

text \<open>One step of a consumer's goroutine.\<close>

definition setConsumer :: "nat \<Rightarrow> 'e consumer \<Rightarrow> 'e Group \<Rightarrow> 'e Group" where
  "setConsumer i c g = g\<lparr>consumers := (consumers g)[i := c]\<rparr>"

definition Listen :: "nat \<Rightarrow> 'e Group \<Rightarrow> 'e Group" where
  "Listen i g =
     (let c = consumers g ! i in
      case listener c of
        Locking \<Rightarrow>
          if queue c \<noteq> [] then setConsumer i (c\<lparr>queue := [], listener := Working (queue c)\<rparr>) g
          else if stop c then setConsumer i (c\<lparr>listener := Returned\<rparr>) g
          else setConsumer i (c\<lparr>listener := Waiting\<rparr>) g
      | Working (ev # evs) \<Rightarrow> setConsumer i (c\<lparr>listener := Working evs, received := received c @ [ev]\<rparr>) g
      | Working [] \<Rightarrow> wakeAll (setConsumer i (c\<lparr>listener := Locking\<rparr>) g)
      | _ \<Rightarrow> g)"

definition runnable :: "'e consumer \<Rightarrow> bool" where
  "runnable c \<longleftrightarrow> listener c \<noteq> Waiting \<and> listener c \<noteq> Returned"

definition consumer_move :: "'e Group \<Rightarrow> 'e Group \<Rightarrow> bool" where
  "consumer_move g g' \<longleftrightarrow> (\<exists>i<length (consumers g). runnable (consumers g ! i) \<and> g' = Listen i g)"

inductive group_step :: "'e Group \<Rightarrow> 'e Group \<Rightarrow> bool" where
  add: "group_step g (snd (AddConsumer g))"
| del: "i < length (consumers g) \<Longrightarrow> group_step g (Del i g)"
| send: "group_step g (StartBroadcast ev g)"
| broadcast: "k < length (senders g) \<Longrightarrow> \<not> fst (senders g ! k) \<Longrightarrow> group_step g (Broadcast k g)"
| listen: "i < length (consumers g) \<Longrightarrow> runnable (consumers g ! i) \<Longrightarrow> group_step g (Listen i g)"

inductive group_reach :: "nat \<Rightarrow> 'e Group \<Rightarrow> bool" for n where
  init: "group_reach n (newGroup n)"
| step: "group_reach n g \<Longrightarrow> group_step g g' \<Longrightarrow> group_reach n g'"

section \<open>The dispatcher\<close>

text \<open>A group is known by its index; it carries the name of the Go type of its events.\<close>

record 'e Dispatcher =
  registered :: "nat registry"
  groups :: "(string \<times> 'e Group) list"
  isClosed :: bool
  maxQueueSize :: nat

definition NewDispatcherConfig :: "nat \<Rightarrow> 'e Dispatcher" where
  "NewDispatcherConfig n = \<lparr>registered = \<lparr>keys = [], grps = []\<rparr>, groups = [], isClosed = False, maxQueueSize = n\<rparr>"

definition NewDispatcher :: "'e Dispatcher" where
  "NewDispatcher = NewDispatcherConfig 50000"

definition groupOf :: "string \<Rightarrow> nat \<Rightarrow> 'e Dispatcher \<Rightarrow> 'e Group option" where
  "groupOf ty k d = (if fst (groups d ! k) = ty then Some (snd (groups d ! k)) else None)"

text \<open>A panic is \<open>None\<close>; otherwise the group and the consumer, which \<^verbatim>\<open>Del\<close> needs, and the dispatcher.\<close>

definition SubscribeTo :: "string \<Rightarrow> 32 word \<Rightarrow> 'e Dispatcher \<Rightarrow> ((nat \<times> nat) \<times> 'e Dispatcher) option" where
  "SubscribeTo ty eventType d =
     (if isClosed d then None
      else case findGroup (registered d) eventType of
        Some k \<Rightarrow>
          Option.bind (groupOf ty k d) (\<lambda>g.
            let (i, g') = AddConsumer g in Some ((k, i), d\<lparr>groups := (groups d)[k := (ty, g')]\<rparr>))
      | None \<Rightarrow>
          let k = length (groups d); (i, g) = AddConsumer (newGroup (maxQueueSize d)) in
          Some ((k, i), d\<lparr>groups := groups d @ [(ty, g)], registered := insertGroup eventType k (registered d)\<rparr>))"

definition Publish :: "string \<Rightarrow> 32 word \<Rightarrow> 'e \<Rightarrow> 'e Dispatcher \<Rightarrow> 'e Dispatcher option" where
  "Publish ty eventType ev d =
     (case findGroup (registered d) eventType of
        None \<Rightarrow> Some d
      | Some k \<Rightarrow> Option.bind (groupOf ty k d) (\<lambda>g. Some (d\<lparr>groups := (groups d)[k := (ty, StartBroadcast ev g)]\<rparr>)))"

end
