(* ===== verification/Event_Props.thy ===== *)
theory Event_Props
  imports Event_Dispatcher
begin

text \<open>
  The table finds what was put into it; every subscriber is handed exactly the events broadcast while it was
  subscribed, in order, from a bounded queue; no wake-up is lost; and a listener that is removed while it
  waits is not woken.
\<close>

section \<open>Searching\<close>

lemma searchFrom_least:
  assumes "left \<le> right" "\<And>i j. i \<le> j \<Longrightarrow> j < right \<Longrightarrow> found i \<Longrightarrow> found j"
  shows "left \<le> searchFrom found left right \<and> searchFrom found left right \<le> right \<and>
    (\<forall>i. left \<le> i \<longrightarrow> i < searchFrom found left right \<longrightarrow> \<not> found i) \<and>
    (\<forall>i. searchFrom found left right \<le> i \<longrightarrow> i < right \<longrightarrow> found i)"
  using assms
proof (induction found left right rule: searchFrom.induct)
  case (1 found left right)
  show ?case
  proof (cases "left < right")
    case False
    then show ?thesis using 1(3) by (subst (1 2 3 4) searchFrom.simps) auto
  next
    case True
    define mid where "mid = left + (right - left) div 2"
    have mid: "left \<le> mid" "mid < right" using True by (auto simp: mid_def)
    have eq: "searchFrom found left right = (if \<not> found mid then searchFrom found (mid + 1) right else searchFrom found left mid)"
      using True by (subst searchFrom.simps) (simp add: mid_def Let_def)
    show ?thesis
    proof (cases "found mid")
      case False
      have IH: "mid + 1 \<le> searchFrom found (mid + 1) right \<and> searchFrom found (mid + 1) right \<le> right \<and>
          (\<forall>i. mid + 1 \<le> i \<longrightarrow> i < searchFrom found (mid + 1) right \<longrightarrow> \<not> found i) \<and>
          (\<forall>i. searchFrom found (mid + 1) right \<le> i \<longrightarrow> i < right \<longrightarrow> found i)"
        using 1(1) [OF True mid_def False] mid 1(4) by simp
      have "\<not> found i" if "i \<le> mid" for i using 1(4) [OF that mid(2)] False by blast
      then show ?thesis using IH mid False eq by (metis Suc_eq_plus1 le_trans not_less_eq_eq nat_le_linear)
    next
      case True
      have IH: "left \<le> searchFrom found left mid \<and> searchFrom found left mid \<le> mid \<and>
          (\<forall>i. left \<le> i \<longrightarrow> i < searchFrom found left mid \<longrightarrow> \<not> found i) \<and>
          (\<forall>i. searchFrom found left mid \<le> i \<longrightarrow> i < mid \<longrightarrow> found i)"
        using 1(2) [OF \<open>left < right\<close> mid_def] True mid 1(4) by simp
      have "found i" if "mid \<le> i" "i < right" for i using 1(4) [OF that True] .
      then show ?thesis using IH mid True eq by (metis le_trans less_imp_le linorder_le_less_linear)
    qed
  qed
qed

definition table_ok :: "'g registry \<Rightarrow> bool" where
  "table_ok reg \<longleftrightarrow> sorted_wrt (<) (keys reg) \<and> length (grps reg) = length (keys reg)"

lemma findGroup_map_of:
  assumes "table_ok reg"
  shows "findGroup reg t = map_of (zip (keys reg) (grps reg)) t"
proof -
  let ?ks = "keys reg"
  have less: "?ks ! i < ?ks ! j" if "i < j" "j < length ?ks" for i j
    using assms that by (simp add: table_ok_def sorted_wrt_iff_nth_less)
  define r where "r = searchFrom (\<lambda>i. \<not> ?ks ! i < t) 0 (length ?ks)"
  have mono: "\<not> ?ks ! j < t" if "i \<le> j" "j < length ?ks" "\<not> ?ks ! i < t" for i j
    using less [of i j] that by (cases "i = j") auto
  have r: "r \<le> length ?ks" "\<And>i. i < r \<Longrightarrow> ?ks ! i < t" "\<And>i. r \<le> i \<Longrightarrow> i < length ?ks \<Longrightarrow> \<not> ?ks ! i < t"
  proof -
    have "0 \<le> r \<and> r \<le> length ?ks \<and> (\<forall>i. 0 \<le> i \<longrightarrow> i < r \<longrightarrow> \<not> \<not> ?ks ! i < t) \<and>
        (\<forall>i. r \<le> i \<longrightarrow> i < length ?ks \<longrightarrow> \<not> ?ks ! i < t)"
      unfolding r_def by (rule searchFrom_least [OF le0]) (rule mono)
    then show "r \<le> length ?ks" "\<And>i. i < r \<Longrightarrow> ?ks ! i < t" "\<And>i. r \<le> i \<Longrightarrow> i < length ?ks \<Longrightarrow> \<not> ?ks ! i < t"
      by simp_all
  qed
  have d: "distinct ?ks" using assms by (auto simp: table_ok_def strict_sorted_iff)
  show ?thesis
  proof (cases "t \<in> set ?ks")
    case True
    then obtain i where i: "i < length ?ks" "?ks ! i = t" by (auto simp: in_set_conv_nth)
    have "r = i"
    proof (rule ccontr)
      assume "r \<noteq> i"
      then consider "i < r" | "r < i" by linarith
      then show False
      proof cases
        case 1
        then show False using r(2) i(2) by force
      next
        case 2
        then show False using r(3) [of r] less [OF 2 i(1)] i by simp
      qed
    qed
    moreover have "(t, grps reg ! i) \<in> set (zip ?ks (grps reg))"
      using i assms by (auto simp: set_zip table_ok_def intro!: exI [of _ i])
    then have "map_of (zip ?ks (grps reg)) t = Some (grps reg ! i)"
      using d assms by (intro map_of_is_SomeI) (simp_all add: table_ok_def)
    ultimately show ?thesis using i by (simp add: findGroup_def r_def [symmetric])
  next
    case False
    then have "findGroup reg t = None" unfolding findGroup_def Let_def by (simp, metis nth_mem)
    moreover have "map_of (zip ?ks (grps reg)) t = None"
      using False assms by (metis map_fst_zip map_of_eq_None_iff set_map table_ok_def)
    ultimately show ?thesis by simp
  qed
qed

lemma insertGroup_ok:
  assumes "table_ok reg" "findGroup reg t = None"
  shows "table_ok (insertGroup t g reg) \<and> findGroup (insertGroup t g reg) = (findGroup reg)(t \<mapsto> g)"
proof -
  let ?ks = "keys reg"
  have len: "length (grps reg) = length ?ks" and sorted: "sorted_wrt (<) ?ks" using assms(1) by (simp_all add: table_ok_def)
  have less: "?ks ! i < ?ks ! j" if "i < j" "j < length ?ks" for i j
    using sorted that by (simp add: sorted_wrt_iff_nth_less)
  define idx where "idx = searchFrom (\<lambda>i. t \<le> ?ks ! i) 0 (length ?ks)"
  have mono: "t \<le> ?ks ! j" if "i \<le> j" "j < length ?ks" "t \<le> ?ks ! i" for i j
    using less [of i j] that by (cases "i = j") auto
  have idx: "idx \<le> length ?ks" "\<And>i. i < idx \<Longrightarrow> ?ks ! i < t" "\<And>i. idx \<le> i \<Longrightarrow> i < length ?ks \<Longrightarrow> t \<le> ?ks ! i"
  proof -
    have "0 \<le> idx \<and> idx \<le> length ?ks \<and> (\<forall>i. 0 \<le> i \<longrightarrow> i < idx \<longrightarrow> \<not> t \<le> ?ks ! i) \<and>
        (\<forall>i. idx \<le> i \<longrightarrow> i < length ?ks \<longrightarrow> t \<le> ?ks ! i)"
      unfolding idx_def by (rule searchFrom_least [OF le0]) (rule mono)
    then show "idx \<le> length ?ks" "\<And>i. i < idx \<Longrightarrow> ?ks ! i < t" "\<And>i. idx \<le> i \<Longrightarrow> i < length ?ks \<Longrightarrow> t \<le> ?ks ! i"
      by (simp_all add: not_le)
  qed
  have t: "t \<notin> set ?ks"
    using assms(2) len unfolding findGroup_map_of [OF assms(1)] by (metis map_fst_zip map_of_eq_None_iff set_map)
  have below: "k < t" if "k \<in> set (take idx ?ks)" for k
    using that idx(1,2) by (auto simp: in_set_conv_nth)
  have above: "t < k" if k: "k \<in> set (drop idx ?ks)" for k
  proof -
    obtain i where i: "i < length (drop idx ?ks)" "k = drop idx ?ks ! i"
      using k unfolding in_set_conv_nth by blast
    have "idx + i < length ?ks" using i(1) by simp
    moreover have "k = ?ks ! (idx + i)" unfolding i(2) by (rule nth_drop [OF idx(1)])
    ultimately have "idx + i < length ?ks" "k = ?ks ! (idx + i)" .
    then have "t \<le> k" "k \<noteq> t" using idx(3) [of "idx + i"] t nth_mem [of "idx + i" ?ks] by auto
    then show ?thesis by simp
  qed
  have "sorted_wrt (<) (take idx ?ks @ drop idx ?ks)" using sorted by simp
  then have "sorted_wrt (<) (take idx ?ks @ [t] @ drop idx ?ks)"
    unfolding sorted_wrt_append using below above by fastforce
  then have ok: "table_ok (insertGroup t g reg)"
    using len idx(1) by (simp add: table_ok_def insertGroup_def Let_def idx_def [symmetric])
  have zip: "zip (keys (insertGroup t g reg)) (grps (insertGroup t g reg)) =
      zip (take idx ?ks) (take idx (grps reg)) @ (t, g) # zip (drop idx ?ks) (drop idx (grps reg))"
    using len idx(1) by (simp add: insertGroup_def Let_def idx_def [symmetric] zip_append)
  have old: "zip ?ks (grps reg) = zip (take idx ?ks) (take idx (grps reg)) @ zip (drop idx ?ks) (drop idx (grps reg))"
    by (metis append_take_drop_id drop_zip take_zip)
  have "t \<notin> fst ` set (zip (take idx ?ks) (take idx (grps reg)))"
    using t by (auto dest!: set_zip_leftD in_set_takeD)
  then have "map_of (zip (take idx ?ks) (take idx (grps reg))) t = None" by (simp add: map_of_eq_None_iff)
  then have "findGroup (insertGroup t g reg) = (findGroup reg)(t \<mapsto> g)"
    by (rule_tac ext) (simp add: findGroup_map_of [OF ok] findGroup_map_of [OF assms(1)] zip old map_add_def split: option.split)
  then show ?thesis using ok by blast
qed

section \<open>Groups\<close>

definition pending :: "'e consumer \<Rightarrow> 'e list" where
  "pending c = (case listener c of Working evs \<Rightarrow> evs | _ \<Rightarrow> [])"

text \<open>The events broadcast between adding and removing a consumer.\<close>

definition due :: "'e list \<Rightarrow> 'e consumer \<Rightarrow> 'e list" where
  "due evs c = (case till c of None \<Rightarrow> drop (since c) evs | Some t \<Rightarrow> take (t - since c) (drop (since c) evs))"

definition busy :: "'e consumer \<Rightarrow> bool" where
  "busy c \<longleftrightarrow> (\<exists>evs. listener c = Working evs) \<or> (listener c = Locking \<and> queue c \<noteq> [])"

definition consumer_ok :: "nat \<Rightarrow> 'e list \<Rightarrow> bool \<Rightarrow> 'e consumer \<Rightarrow> bool" where
  "consumer_ok n evs subscribed c \<longleftrightarrow>
     received c @ pending c @ queue c = due evs c \<and> since c \<le> length evs \<and>
     (\<forall>t. till c = Some t \<longrightarrow> since c \<le> t \<and> t \<le> length evs) \<and>
     (subscribed \<longleftrightarrow> till c = None) \<and> (stop c \<longleftrightarrow> till c \<noteq> None) \<and> length (queue c) \<le> n \<and>
     (listener c = Waiting \<or> listener c = Returned \<longrightarrow> queue c = []) \<and> (listener c = Returned \<longrightarrow> stop c)"

definition consumers_ok :: "nat \<Rightarrow> 'e Group \<Rightarrow> bool" where
  "consumers_ok n g \<longleftrightarrow> maxQueue g = n \<and> distinct (subs g) \<and> set (subs g) \<subseteq> {..<length (consumers g)} \<and>
     (\<forall>i<length (consumers g). consumer_ok n (broadcasts g) (i \<in> set (subs g)) (consumers g ! i))"

definition someone_busy :: "'e Group \<Rightarrow> bool" where
  "someone_busy g \<longleftrightarrow> (\<exists>i<length (consumers g). busy (consumers g ! i))"

definition sleeping :: "'e Group \<Rightarrow> bool" where
  "sleeping g \<longleftrightarrow> (\<exists>x\<in>set (senders g). fst x)"

lemma due_fields [simp]:
  "due evs (c\<lparr>listener := l\<rparr>) = due evs c" "due evs (c\<lparr>queue := q\<rparr>) = due evs c" "due evs (c\<lparr>received := r\<rparr>) = due evs c"
  by (simp_all add: due_def split: option.split)

lemma pending_fields [simp]:
  "pending (c\<lparr>queue := q\<rparr>) = pending c" "pending (c\<lparr>received := r\<rparr>) = pending c"
  "pending (c\<lparr>listener := Working evs\<rparr>) = evs" "pending (c\<lparr>listener := Locking\<rparr>) = []"
  "pending (c\<lparr>listener := Waiting\<rparr>) = []" "pending (c\<lparr>listener := Returned\<rparr>) = []"
  by (simp_all add: pending_def)

lemma wake_fields [simp]:
  "queue (wake c) = queue c" "stop (wake c) = stop c" "received (wake c) = received c" "since (wake c) = since c"
  "till (wake c) = till c" "pending (wake c) = pending c" "due evs (wake c) = due evs c"
  "listener (wake c) \<noteq> Waiting" "listener (wake c) = Returned \<longleftrightarrow> listener c = Returned"
  by (simp_all add: wake_def) (simp add: pending_def)

lemma consumer_ok_wake: "consumer_ok n evs b c \<Longrightarrow> consumer_ok n evs b (wake c)"
  unfolding consumer_ok_def by auto

lemma wakeAll_fields [simp]:
  "length (consumers (wakeAll g)) = length (consumers g)" "subs (wakeAll g) = subs g" "maxQueue (wakeAll g) = maxQueue g"
  "broadcasts (wakeAll g) = broadcasts g" "i < length (consumers g) \<Longrightarrow> consumers (wakeAll g) ! i = wake (consumers g ! i)"
  "\<not> sleeping (wakeAll g)"
  by (auto simp: wakeAll_def sleeping_def)

lemma consumers_ok_wakeAll: "consumers_ok n g \<Longrightarrow> consumers_ok n (wakeAll g)"
  by (simp add: consumers_ok_def consumer_ok_wake)

lemma fold_update:
  assumes "distinct js" "set js \<subseteq> {..<length cs}"
  shows "length (fold (\<lambda>i cs. cs[i := f (cs ! i)]) js cs) = length cs"
    "i < length cs \<Longrightarrow> fold (\<lambda>i cs. cs[i := f (cs ! i)]) js cs ! i = (if i \<in> set js then f (cs ! i) else cs ! i)"
  using assms by (induction js arbitrary: cs) (auto simp: nth_list_update)

lemma fold_max: "fold (\<lambda>i m. max m (f i)) js (m :: nat) = Max (insert m (f ` set js))"
proof (induction js arbitrary: m)
  case (Cons j js)
  have "Max (insert m (insert (f j) (f ` set js))) = max m (Max (insert (f j) (f ` set js)))" by (rule Max_insert) auto
  moreover have "Max (insert (max m (f j)) (f ` set js)) = max m (Max (insert (f j) (f ` set js)))"
    by (cases "js = []") (simp_all add: max.assoc)
  ultimately show ?case using Cons by simp
qed simp

lemma longest_bounds:
  "i \<in> set (subs g) \<Longrightarrow> length (queue (consumers g ! i)) \<le> longest g"
  "0 < longest g \<Longrightarrow> \<exists>i\<in>set (subs g). queue (consumers g ! i) \<noteq> []"
proof -
  let ?S = "insert 0 ((\<lambda>i. length (queue (consumers g ! i))) ` set (subs g))"
  have l: "longest g = Max ?S" by (simp add: longest_def fold_max)
  show "i \<in> set (subs g) \<Longrightarrow> length (queue (consumers g ! i)) \<le> longest g" unfolding l by (rule Max_ge) auto
  assume pos: "0 < longest g"
  have "Max ?S \<in> ?S" by (rule Max_in) auto
  then show "\<exists>i\<in>set (subs g). queue (consumers g ! i) \<noteq> []" using pos unfolding l by force
qed

lemma due_more:
  assumes "since c \<le> length evs" "\<forall>t. till c = Some t \<longrightarrow> since c \<le> t \<and> t \<le> length evs"
  shows "due (evs @ [ev]) c = (if till c = None then due evs c @ [ev] else due evs c)"
  using assms by (cases "till c") (simp_all add: due_def)

lemma consumer_ok_event:
  assumes "consumer_ok n evs b c" "b \<Longrightarrow> length (queue c) < n"
  shows "consumer_ok n (evs @ [ev]) b (wake (if b then c\<lparr>queue := queue c @ [ev]\<rparr> else c))"
proof -
  have "due (evs @ [ev]) c = (if b then due evs c @ [ev] else due evs c)"
    using due_more [of c evs ev] assms(1) by (auto simp: consumer_ok_def)
  then show ?thesis using assms by (cases b) (auto simp: consumer_ok_def)
qed

lemma consumers_ok_broadcast:
  assumes "consumers_ok n g" "0 < n"
  shows "consumers_ok n (Broadcast k g) \<and> (sleeping (Broadcast k g) \<longrightarrow> someone_busy (Broadcast k g))"
proof (cases "maxQueue g \<le> longest g")
  case True
  then have "0 < longest g" using assms by (simp add: consumers_ok_def)
  then obtain i where i: "i \<in> set (subs g)" "queue (consumers g ! i) \<noteq> []" using longest_bounds(2) by blast
  then have lt: "i < length (consumers g)" using assms(1) by (auto simp: consumers_ok_def)
  then have "consumer_ok n (broadcasts g) True (consumers g ! i)" using assms(1) i(1) by (auto simp: consumers_ok_def)
  then have "busy (consumers g ! i)" using i(2) by (cases "listener (consumers g ! i)") (auto simp: busy_def consumer_ok_def)
  then have "someone_busy g" using lt unfolding someone_busy_def by blast
  then show ?thesis using True assms(1) by (simp add: Broadcast_def consumers_ok_def someone_busy_def)
next
  case False
  have d: "distinct (subs g)" "set (subs g) \<subseteq> {..<length (consumers g)}" using assms(1) by (simp_all add: consumers_ok_def)
  let ?g = "Broadcast k g" and ?f = "\<lambda>c. c\<lparr>queue := queue c @ [snd (senders g ! k)]\<rparr>"
  define H where "H = fold (\<lambda>i cs. cs[i := ?f (cs ! i)]) (subs g) (consumers g)"
  have H: "consumers ?g = map wake H"
    using False by (simp add: Broadcast_def enqueueAll_def Let_def wakeAll_def H_def)
  have len: "length (consumers ?g) = length (consumers g)"
    unfolding H H_def length_map by (rule fold_update(1) [OF d])
  have nth: "consumers ?g ! i = wake (if i \<in> set (subs g) then ?f (consumers g ! i) else consumers g ! i)"
    if "i < length (consumers g)" for i
    using that len fold_update(2) [OF d that, where f = ?f] unfolding H by (simp add: H_def)
  have rest: "subs ?g = subs g" "maxQueue ?g = maxQueue g" "broadcasts ?g = broadcasts g @ [snd (senders g ! k)]" "\<not> sleeping ?g"
    using False by (simp_all add: Broadcast_def enqueueAll_def Let_def)
  have "consumer_ok n (broadcasts ?g) (i \<in> set (subs ?g)) (consumers ?g ! i)" if i: "i < length (consumers ?g)" for i
  proof -
    have "consumer_ok n (broadcasts g) (i \<in> set (subs g)) (consumers g ! i)" using assms(1) i len by (simp add: consumers_ok_def)
    moreover have "length (queue (consumers g ! i)) < n" if "i \<in> set (subs g)"
      using longest_bounds(1) [OF that] False assms(1) by (simp add: consumers_ok_def)
    ultimately show ?thesis unfolding rest nth [OF i [unfolded len]] by (rule consumer_ok_event)
  qed
  then show ?thesis using assms(1) rest len by (simp add: consumers_ok_def)
qed

lemma nth_setConsumer: "i < length (consumers g) \<Longrightarrow> j < length (consumers g) \<Longrightarrow>
    consumers (setConsumer i c g) ! j = (if j = i then c else consumers g ! j)"
  by (simp add: setConsumer_def nth_list_update)

lemma setConsumer_fields [simp]:
  "length (consumers (setConsumer i c g)) = length (consumers g)" "subs (setConsumer i c g) = subs g"
  "maxQueue (setConsumer i c g) = maxQueue g" "broadcasts (setConsumer i c g) = broadcasts g"
  "senders (setConsumer i c g) = senders g" "sleeping (setConsumer i c g) = sleeping g"
  by (simp_all add: setConsumer_def sleeping_def)

lemma consumers_ok_set:
  assumes "consumers_ok n g" "i < length (consumers g)" "consumer_ok n (broadcasts g) (i \<in> set (subs g)) c"
  shows "consumers_ok n (setConsumer i c g)"
  using assms by (simp add: consumers_ok_def nth_setConsumer)

lemma someone_busy_set:
  assumes "someone_busy g" "i < length (consumers g)" "busy (consumers g ! i) \<Longrightarrow> busy c"
  shows "someone_busy (setConsumer i c g)"
  using assms unfolding someone_busy_def by (metis nth_setConsumer setConsumer_fields(1))

lemma group_inv_listen:
  assumes ok: "consumers_ok n g" and i: "i < length (consumers g)" "runnable (consumers g ! i)"
    and alert: "sleeping g \<longrightarrow> someone_busy g"
  shows "consumers_ok n (Listen i g) \<and> (sleeping (Listen i g) \<longrightarrow> someone_busy (Listen i g))"
proof -
  define c where "c = consumers g ! i"
  have c: "consumer_ok n (broadcasts g) (i \<in> set (subs g)) c" using ok i(1) by (simp add: consumers_ok_def c_def)
  have use_set: "consumers_ok n (setConsumer i d g) \<and> (sleeping (setConsumer i d g) \<longrightarrow> someone_busy (setConsumer i d g))"
    if "consumer_ok n (broadcasts g) (i \<in> set (subs g)) d" "busy c \<longrightarrow> busy d" for d
    using consumers_ok_set [OF ok i(1) that(1)] someone_busy_set [OF _ i(1)] that(2) alert by (simp add: c_def)
  consider (swap) "listener c = Locking" "queue c \<noteq> []" | (leave) "listener c = Locking" "queue c = []" "stop c"
    | (sleep) "listener c = Locking" "queue c = []" "\<not> stop c" | (work) ev evs where "listener c = Working (ev # evs)"
    | (notify) "listener c = Working []"
    using i(2) unfolding runnable_def c_def [symmetric] by (cases "listener c") (auto, metis list.exhaust)
  then show ?thesis
  proof cases
    case swap
    have "consumer_ok n (broadcasts g) (i \<in> set (subs g)) (c\<lparr>queue := [], listener := Working (queue c)\<rparr>)"
      using c swap by (simp add: consumer_ok_def pending_def)
    then show ?thesis using use_set [of "c\<lparr>queue := [], listener := Working (queue c)\<rparr>"] swap
      by (simp add: Listen_def c_def [symmetric] busy_def)
  next
    case leave
    have "consumer_ok n (broadcasts g) (i \<in> set (subs g)) (c\<lparr>listener := Returned\<rparr>)"
      using c leave by (simp add: consumer_ok_def pending_def)
    then show ?thesis using use_set [of "c\<lparr>listener := Returned\<rparr>"] leave by (simp add: Listen_def c_def [symmetric] busy_def)
  next
    case sleep
    have "consumer_ok n (broadcasts g) (i \<in> set (subs g)) (c\<lparr>listener := Waiting\<rparr>)"
      using c sleep by (simp add: consumer_ok_def pending_def)
    then show ?thesis using use_set [of "c\<lparr>listener := Waiting\<rparr>"] sleep by (simp add: Listen_def c_def [symmetric] busy_def)
  next
    case (work ev evs)
    have "consumer_ok n (broadcasts g) (i \<in> set (subs g)) (c\<lparr>listener := Working evs, received := received c @ [ev]\<rparr>)"
      using c work by (simp add: consumer_ok_def pending_def)
    then show ?thesis using use_set [of "c\<lparr>listener := Working evs, received := received c @ [ev]\<rparr>"] work
      by (simp add: Listen_def c_def [symmetric] busy_def)
  next
    case notify
    have "consumer_ok n (broadcasts g) (i \<in> set (subs g)) (c\<lparr>listener := Locking\<rparr>)"
      using c notify by (simp add: consumer_ok_def pending_def)
    then show ?thesis using consumers_ok_wakeAll [OF consumers_ok_set [OF ok i(1)]] notify
      by (simp add: Listen_def c_def [symmetric])
  qed
qed

lemma group_inv_add:
  assumes "consumers_ok n g" "sleeping g \<longrightarrow> someone_busy g"
  shows "consumers_ok n (snd (AddConsumer g)) \<and> (sleeping (snd (AddConsumer g)) \<longrightarrow> someone_busy (snd (AddConsumer g)))"
proof -
  have "length (consumers g) \<notin> set (subs g)" using assms(1) by (auto simp: consumers_ok_def)
  then have "consumers_ok n (snd (AddConsumer g))" using assms(1)
    by (auto simp: consumers_ok_def AddConsumer_def Let_def nth_append consumer_ok_def pending_def due_def less_Suc_eq)
  moreover have "someone_busy g \<Longrightarrow> someone_busy (snd (AddConsumer g))"
    unfolding someone_busy_def AddConsumer_def Let_def by (auto simp: nth_append less_Suc_eq)
  ultimately show ?thesis using assms(2) by (simp add: AddConsumer_def Let_def sleeping_def)
qed

lemma group_inv_del:
  assumes "consumers_ok n g" "sleeping g \<longrightarrow> someone_busy g" "i < length (consumers g)"
  shows "consumers_ok n (Del i g) \<and> (sleeping (Del i g) \<longrightarrow> someone_busy (Del i g))"
proof -
  define c where "c = consumers g ! i"
  let ?d = "c\<lparr>stop := True, till := (if i \<in> set (subs g) then Some (length (broadcasts g)) else till c)\<rparr>"
  have c: "consumer_ok n (broadcasts g) (i \<in> set (subs g)) c" using assms(1,3) by (simp add: consumers_ok_def c_def)
  have "due (broadcasts g) ?d = due (broadcasts g) c" using c by (auto simp: due_def consumer_ok_def split: option.split)
  moreover have "pending ?d = pending c" by (simp add: pending_def)
  ultimately have d: "consumer_ok n (broadcasts g) False ?d" using c by (auto simp: consumer_ok_def)
  have del: "Del i g = (setConsumer i ?d g)\<lparr>subs := remove1 i (subs g)\<rparr>" by (simp add: Del_def setConsumer_def c_def Let_def)
  have "consumer_ok n (broadcasts g) (j \<in> set (remove1 i (subs g))) (consumers (setConsumer i ?d g) ! j)"
    if "j < length (consumers g)" for j
    using that assms(1,3) d by (cases "j = i") (simp_all add: nth_setConsumer consumers_ok_def)
  then have "consumers_ok n (Del i g)" using assms(1) unfolding del
    by (auto simp: consumers_ok_def)
  moreover have "someone_busy (Del i g)" if "someone_busy g"
    using someone_busy_set [OF that assms(3), of ?d] unfolding del by (simp add: someone_busy_def busy_def c_def)
  moreover have "sleeping (Del i g) = sleeping g" by (simp add: Del_def sleeping_def Let_def)
  ultimately show ?thesis using assms(2) by blast
qed

lemma group_reach_inv:
  assumes "group_reach n g" "0 < n"
  shows "consumers_ok n g \<and> (sleeping g \<longrightarrow> someone_busy g)"
  using assms(1)
proof (induction rule: group_reach.induct)
  case init
  show ?case by (simp add: consumers_ok_def newGroup_def sleeping_def)
next
  case (step g g')
  from step(2,3) show ?case
  proof (cases rule: group_step.cases)
    case (send ev)
    then show ?thesis using step(3) by (simp add: StartBroadcast_def consumers_ok_def sleeping_def someone_busy_def)
  qed (use assms(2) group_inv_add group_inv_del group_inv_listen consumers_ok_broadcast in blast)+
qed

section \<open>Coming to rest\<close>

fun load :: "'e listening \<Rightarrow> nat" where
  "load (Working evs) = length evs + 1"
| "load _ = 0"

definition labour :: "'e Group \<Rightarrow> nat \<times> nat" where
  "labour g = (sum_list (map (\<lambda>c. 3 * length (queue c) + load (listener c)) (consumers g)),
     length (filter (\<lambda>c. listener c = Locking) (consumers g)))"

lemma load_wake [simp]: "load (listener (wake c)) = load (listener c)"
  by (simp add: wake_def)

lemma sum_setConsumer:
  "i < length xs \<Longrightarrow> f c < f (xs ! i) \<Longrightarrow> sum_list (map f (xs[i := c])) < (sum_list (map f xs) :: nat)"
  "i < length xs \<Longrightarrow> f c = f (xs ! i) \<Longrightarrow> sum_list (map f (xs[i := c])) = (sum_list (map f xs) :: nat)"
  by (induction xs arbitrary: i) (auto split: nat.splits)

lemma filter_setConsumer: "i < length xs \<Longrightarrow> P (xs ! i) \<Longrightarrow> \<not> P c \<Longrightarrow> length (filter P (xs[i := c])) < length (filter P xs)"
  by (induction xs arbitrary: i) (auto split: nat.splits)

lemma Listen_works:
  assumes "i < length (consumers g)" "runnable (consumers g ! i)"
  shows "(labour (Listen i g), labour g) \<in> less_than <*lex*> less_than"
proof -
  define c where "c = consumers g ! i"
  let ?f = "\<lambda>c. 3 * length (queue c) + load (listener c)"
  have i: "i < length (consumers g)" by (rule assms(1))
  consider (swap) "listener c = Locking" "queue c \<noteq> []" | (wait) l where "listener c = Locking" "queue c = []" "l = Waiting \<or> l = Returned"
      "Listen i g = setConsumer i (c\<lparr>listener := l\<rparr>) g"
    | (work) ev evs where "listener c = Working (ev # evs)" | (notify) "listener c = Working []"
  proof (cases "listener c")
    case Locking
    then show ?thesis using that(1) that(2) [of Waiting] that(2) [of Returned]
      by (cases "queue c = []"; cases "stop c") (simp_all add: Listen_def c_def [symmetric])
  next
    case (Working evs)
    then show ?thesis using that(3,4) by (cases evs) simp_all
  qed (use assms(2) in \<open>simp_all add: runnable_def c_def\<close>)
  then show ?thesis
  proof cases
    case swap
    then have "?f (c\<lparr>queue := [], listener := Working (queue c)\<rparr>) < ?f c" by (cases "queue c") simp_all
    then show ?thesis using swap sum_setConsumer(1) [OF i, of ?f] by (simp add: Listen_def c_def [symmetric] labour_def setConsumer_def)
  next
    case wait
    have same: "?f (c\<lparr>listener := l\<rparr>) = ?f c" using wait by auto
    show ?thesis
      using same wait sum_setConsumer(2) [OF i, of ?f] filter_setConsumer [OF i, of "\<lambda>c. listener c = Locking"]
      by (auto simp: c_def [symmetric] labour_def setConsumer_def)
  next
    case (work ev evs)
    then have "?f (c\<lparr>listener := Working evs, received := received c @ [ev]\<rparr>) < ?f c" by simp
    then show ?thesis using work sum_setConsumer(1) [OF i, of ?f] by (simp add: Listen_def c_def [symmetric] labour_def setConsumer_def)
  next
    case notify
    then have "?f (c\<lparr>listener := Locking\<rparr>) < ?f c" by simp
    from sum_setConsumer(1) [OF i, of ?f, OF this [unfolded c_def]] show ?thesis using notify
      by (simp add: Listen_def c_def [symmetric] labour_def setConsumer_def wakeAll_def comp_def)
  qed
qed

lemma consumer_move_wf: "wf {(g', g :: 'e Group). consumer_move g g'}"
proof (rule wf_subset)
  show "wf (inv_image (less_than <*lex*> less_than) (labour :: 'e Group \<Rightarrow> _))" by (intro wf_inv_image wf_lex_prod wf_less_than)
  show "{(g', g). consumer_move g g'} \<subseteq> inv_image (less_than <*lex*> less_than) (labour :: 'e Group \<Rightarrow> _)"
    using Listen_works by (auto simp: consumer_move_def)
qed

lemma delivered:
  assumes "group_reach n g" "0 < n" "\<nexists>g'. consumer_move g g'"
  shows "\<not> sleeping g" "i < length (consumers g) \<Longrightarrow> received (consumers g ! i) = due (broadcasts g) (consumers g ! i)"
proof -
  have rest: "listener (consumers g ! i) = Waiting \<or> listener (consumers g ! i) = Returned" if "i < length (consumers g)" for i
    using assms(3) that by (auto simp: consumer_move_def runnable_def)
  have inv: "consumers_ok n g" "sleeping g \<longrightarrow> someone_busy g" using group_reach_inv [OF assms(1,2)] by simp_all
  have "\<not> someone_busy g" using rest by (fastforce simp: someone_busy_def busy_def)
  then show "\<not> sleeping g" using inv(2) by blast
  assume i: "i < length (consumers g)"
  then have "consumer_ok n (broadcasts g) (i \<in> set (subs g)) (consumers g ! i)" using inv(1) by (simp add: consumers_ok_def)
  then show "received (consumers g ! i) = due (broadcasts g) (consumers g ! i)"
    using rest [OF i] by (auto simp: consumer_ok_def pending_def split: listening.splits)
qed

section \<open>Properties\<close>

text \<open>C39: What a subscriber's handler has been given, what it is working on and what is queued for it are,
  in this order, the events broadcast from when it was added to when it was removed; and its queue never
  exceeds the limit.\<close>

theorem events_arrive_in_order:
  assumes "group_reach n g" "0 < n" "i < length (consumers g)"
  shows "received (consumers g ! i) @ pending (consumers g ! i) @ queue (consumers g ! i) =
      due (broadcasts g) (consumers g ! i) \<and> length (queue (consumers g ! i)) \<le> n"
  using group_reach_inv [OF assms(1,2)] assms(3) by (simp add: consumers_ok_def consumer_ok_def)

text \<open>C40: Handing out ends by itself, and then no sender is left waiting for room and every subscriber has
  been given all that was broadcast for it.\<close>

theorem no_wakeup_is_lost:
  assumes "group_reach n (g :: 'e Group)" "0 < n"
  shows "wf {(g', g :: 'e Group). consumer_move g g'} \<and>
    ((\<nexists>g'. consumer_move g g') \<longrightarrow> \<not> sleeping g \<and>
       (\<forall>i. i < length (consumers g) \<longrightarrow> received (consumers g ! i) = due (broadcasts g) (consumers g ! i)))"
  using delivered [OF assms] consumer_move_wf by blast

text \<open>A run: one subscriber, a queue of one event, two senders of which the second has to wait.\<close>

definition sampleGroup :: "string Group" where
  "sampleGroup =
     (let g = Broadcast 0 (StartBroadcast ''b'' (StartBroadcast ''a'' (Listen 0 (snd (AddConsumer (newGroup 1)))))) in
      Listen 0 (Listen 0 (Listen 0 (Broadcast 0 g))))"

lemma sample_group_reach: "group_reach 1 sampleGroup"
proof -
  let ?g1 = "Listen 0 (snd (AddConsumer (newGroup 1))) :: string Group"
  let ?g2 = "StartBroadcast ''b'' (StartBroadcast ''a'' ?g1)"
  have "group_reach 1 (snd (AddConsumer (newGroup 1)) :: string Group)" by (rule group_reach.step [OF group_reach.init group_step.add])
  then have "group_reach 1 ?g1"
    by (rule group_reach.step) (rule group_step.listen; code_simp)
  then have "group_reach 1 ?g2" by (blast intro: group_reach.step group_step.send)
  then have "group_reach 1 (Broadcast 0 ?g2)"
    by (rule group_reach.step) (rule group_step.broadcast; code_simp)
  then have "group_reach 1 (Broadcast 0 (Broadcast 0 ?g2))"
    by (rule group_reach.step) (rule group_step.broadcast; code_simp)
  then have "group_reach 1 (Listen 0 (Broadcast 0 (Broadcast 0 ?g2)))"
    by (rule group_reach.step) (rule group_step.listen; code_simp)
  then have "group_reach 1 (Listen 0 (Listen 0 (Broadcast 0 (Broadcast 0 ?g2))))"
    by (rule group_reach.step) (rule group_step.listen; code_simp)
  then have "group_reach 1 (Listen 0 (Listen 0 (Listen 0 (Broadcast 0 (Broadcast 0 ?g2)))))"
    by (rule group_reach.step) (rule group_step.listen; code_simp)
  then show ?thesis by (simp add: sampleGroup_def)
qed

theorem events_arrive_in_order_witness:
  "received (consumers sampleGroup ! 0) @ pending (consumers sampleGroup ! 0) @ queue (consumers sampleGroup ! 0) = [''a''] \<and>
   senders sampleGroup = [(False, ''b'')]"
proof -
  have "length (consumers sampleGroup) = 1 \<and> due (broadcasts sampleGroup) (consumers sampleGroup ! 0) = [''a''] \<and>
      senders sampleGroup = [(False, ''b'')]"
    by code_simp
  then show ?thesis using events_arrive_in_order [OF sample_group_reach, of 0] by simp
qed

theorem no_wakeup_is_lost_witness: "wf {(g', g :: string Group). consumer_move g g'}"
  using no_wakeup_is_lost [OF sample_group_reach] by simp

text \<open>A subscriber removed while it waits is not woken: its goroutine is left waiting, with nothing to
  do but to return, until some event is broadcast.\<close>

theorem removed_listener_keeps_waiting:
  "\<exists>g :: 'e Group. group_reach 1 g \<and> subs g = [] \<and> (\<nexists>g'. consumer_move g g') \<and>
     length (consumers g) = 1 \<and> stop (consumers g ! 0) \<and> listener (consumers g ! 0) = Waiting"
proof -
  let ?g = "Listen 0 (snd (AddConsumer (newGroup 1))) :: 'e Group"
  have "group_reach 1 (snd (AddConsumer (newGroup 1)) :: 'e Group)" by (rule group_reach.step [OF group_reach.init group_step.add])
  then have "group_reach 1 ?g"
    by (rule group_reach.step) (rule group_step.listen; simp add: AddConsumer_def newGroup_def runnable_def Let_def)
  then have "group_reach 1 (Del 0 ?g)"
    by (rule group_reach.step) (rule group_step.del; simp add: AddConsumer_def newGroup_def Listen_def setConsumer_def Let_def)
  moreover have "Del 0 ?g = \<lparr>consumers = [\<lparr>queue = [], stop = True, listener = Waiting, received = [], since = 0, till = Some 0\<rparr>],
      subs = [], maxQueue = 1, maxLen = 0, senders = [], broadcasts = []\<rparr>"
    by (simp add: Del_def AddConsumer_def newGroup_def Listen_def setConsumer_def Let_def)
  ultimately show ?thesis by (intro exI [of _ "Del 0 ?g"]) (auto simp: consumer_move_def runnable_def)
qed

section \<open>Subscribing\<close>

definition dispatcher_ok :: "'e Dispatcher \<Rightarrow> bool" where
  "dispatcher_ok d \<longleftrightarrow> table_ok (registered d) \<and> (\<forall>t k. findGroup (registered d) t = Some k \<longrightarrow> k < length (groups d)) \<and>
     (\<forall>t u k. findGroup (registered d) t = Some k \<longrightarrow> findGroup (registered d) u = Some k \<longrightarrow> t = u)"

lemma dispatcher_ok_new: "dispatcher_ok (NewDispatcherConfig n)"
  by (simp add: dispatcher_ok_def NewDispatcherConfig_def table_ok_def findGroup_def)

text \<open>Subscribing to an event type makes the new consumer a subscriber of the type's group, found by the
  search from then on, and leaves every other type and its group alone.\<close>

theorem subscribing_finds_its_group:
  assumes "dispatcher_ok d" "SubscribeTo ty t d = Some ((k, i), d')"
  shows "dispatcher_ok d' \<and> findGroup (registered d') t = Some k \<and> fst (groups d' ! k) = ty \<and>
    i \<in> set (subs (snd (groups d' ! k))) \<and>
    (\<forall>u. u \<noteq> t \<longrightarrow> findGroup (registered d') u = findGroup (registered d) u) \<and>
    (\<forall>j. j < length (groups d) \<longrightarrow> j \<noteq> k \<longrightarrow> groups d' ! j = groups d ! j)"
proof (cases "findGroup (registered d) t")
  case (Some k')
  then have "k' < length (groups d)" using assms(1) by (auto simp: dispatcher_ok_def)
  then show ?thesis using Some assms
    by (auto simp: SubscribeTo_def groupOf_def AddConsumer_def Let_def dispatcher_ok_def split: if_splits)
next
  case None
  have d': "k = length (groups d)" "d' = d\<lparr>groups := groups d @ [(ty, snd (AddConsumer (newGroup (maxQueueSize d))))],
      registered := insertGroup t k (registered d)\<rparr>" "i = 0"
    using assms(2) None by (auto simp: SubscribeTo_def AddConsumer_def newGroup_def Let_def split: if_splits)
  have ins: "table_ok (registered d')" "findGroup (registered d') = (findGroup (registered d))(t \<mapsto> k)"
    using insertGroup_ok [OF _ None, of k] assms(1) by (simp_all add: d'(2) dispatcher_ok_def)
  have fresh: "findGroup (registered d) u = Some j \<Longrightarrow> j < k" for u j using assms(1) d'(1) by (auto simp: dispatcher_ok_def)
  have "dispatcher_ok d'"
    unfolding dispatcher_ok_def ins(2) using ins(1) fresh d' assms(1) by (force simp: dispatcher_ok_def)
  then show ?thesis using ins(2) d' by (auto simp: nth_append AddConsumer_def newGroup_def Let_def)
qed

theorem subscribing_finds_its_group_witness:
  "case SubscribeTo ''shared.ConfigFileChangedEvent'' 3 (NewDispatcherConfig 25000 :: string Dispatcher) of
     None \<Rightarrow> False | Some ((k, i), d) \<Rightarrow> findGroup (registered d) 3 = Some k"
proof -
  let ?d = "NewDispatcherConfig 25000 :: string Dispatcher"
  have "SubscribeTo ''shared.ConfigFileChangedEvent'' 3 ?d \<noteq> None"
    by (simp add: SubscribeTo_def NewDispatcherConfig_def findGroup_def Let_def AddConsumer_def)
  then obtain k i d where r: "SubscribeTo ''shared.ConfigFileChangedEvent'' 3 ?d = Some ((k, i), d)" by auto
  have "findGroup (registered d) 3 = Some k" using subscribing_finds_its_group [OF dispatcher_ok_new r] by blast
  then show ?thesis by (simp add: r)
qed

end
