(* ===== verification/Go_Url.thy ===== *)
theory Go_Url
  imports Go_Text
begin

text \<open>
  What the HTTP code uses of \<^verbatim>\<open>strings\<close>, \<^verbatim>\<open>net/url\<close> and \<^verbatim>\<open>encoding/base64\<close>: splitting, cutting and
  joining at a byte; \<^verbatim>\<open>url.Values\<close> with its query encoding; and the standard base64 decoder. Values
  are a map from keys to lists of values, an association list with distinct keys. The lemmas show that
  a query string written by \<^verbatim>\<open>Encode\<close> is read back by \<^verbatim>\<open>ParseQuery\<close>.
\<close>

section \<open>Splitting and joining\<close>

fun splitChar :: "char \<Rightarrow> string \<Rightarrow> string list" where
  "splitChar d [] = [[]]"
| "splitChar d (c # s) =
     (if c = d then [] # splitChar d s
      else case splitChar d s of [] \<Rightarrow> [[c]] | p # ps \<Rightarrow> (c # p) # ps)"

fun joinWith :: "string \<Rightarrow> string list \<Rightarrow> string" where
  "joinWith sep [] = []"
| "joinWith sep [p] = p"
| "joinWith sep (p # ps) = p @ sep @ joinWith sep ps"

text \<open>\<^verbatim>\<open>strings.Cut\<close> at one byte: what precedes it, what follows it and whether it occurs.\<close>

definition cutChar :: "char \<Rightarrow> string \<Rightarrow> string \<times> string \<times> bool" where
  "cutChar d s = (takeWhile (\<lambda>c. c \<noteq> d) s, drop 1 (dropWhile (\<lambda>c. c \<noteq> d) s), d \<in> set s)"

lemma splitChar_not_Nil [simp]: "splitChar d s \<noteq> []"
  by (induction s) (auto split: list.splits)

lemma splitChar_append: "d \<notin> set p \<Longrightarrow> splitChar d (p @ d # s) = p # splitChar d s"
  by (induction p) auto

lemma splitChar_single: "d \<notin> set p \<Longrightarrow> splitChar d p = [p]"
  by (induction p) auto

lemma joinWith_Cons: "ps \<noteq> [] \<Longrightarrow> joinWith sep (p # ps) = p @ sep @ joinWith sep ps"
  by (cases ps) simp_all

lemma split_joinWith:
  "ps \<noteq> [] \<Longrightarrow> (\<And>p. p \<in> set ps \<Longrightarrow> d \<notin> set p) \<Longrightarrow> splitChar d (joinWith [d] ps) = ps"
  by (induction "[d]" ps rule: joinWith.induct) (simp_all add: splitChar_append splitChar_single)

lemma joinWith_split: "joinWith [d] (splitChar d s) = s"
proof (induction s)
  case (Cons c s)
  obtain p ps where "splitChar d s = p # ps" by (cases "splitChar d s") simp_all
  then show ?case using Cons by (cases ps) auto
qed simp

lemma cutChar_append: "d \<notin> set p \<Longrightarrow> cutChar d (p @ d # s) = (p, s, True)"
  by (simp add: cutChar_def takeWhile_append dropWhile_append)

section \<open>Escaping\<close>

text \<open>
  The bytes \<^verbatim>\<open>shouldEscape\<close> leaves alone in a query component; a space becomes a plus sign and any
  other byte a percent sign and two hexadecimal digits.
\<close>

definition alnum :: "char \<Rightarrow> bool" where
  "alnum c \<longleftrightarrow> list_ex (\<lambda>(lo, hi). within lo hi c) (zip ''aA0'' ''zZ9'')"

definition unreserved :: "char \<Rightarrow> bool" where
  "unreserved c \<longleftrightarrow> alnum c \<or> c \<in> set ''-_.~''"

definition upperhex :: string where
  "upperhex = ''0123456789ABCDEF''"

definition escapeByte :: "char \<Rightarrow> string" where
  "escapeByte c =
     (if c = CHR '' '' then ''+''
      else if unreserved c then [c]
      else [CHR ''%'', upperhex ! (of_char c div 16), upperhex ! (of_char c mod 16)])"

definition QueryEscape :: "string \<Rightarrow> string" where
  "QueryEscape s = concat (map escapeByte s)"

definition unhex :: "char \<Rightarrow> nat option" where
  "unhex c =
     (if within (CHR ''0'') (CHR ''9'') c then Some (of_char c - 48)
      else if within (CHR ''a'') (CHR ''f'') c then Some (of_char c - 87)
      else if within (CHR ''A'') (CHR ''F'') c then Some (of_char c - 55)
      else None)"

fun QueryUnescape :: "string \<Rightarrow> string option" where
  "QueryUnescape [] = Some []"
| "QueryUnescape (c # s) =
     (if c = CHR ''%''
      then (case s of
              h # l # t \<Rightarrow>
                (case (unhex h, unhex l) of
                   (Some i, Some j) \<Rightarrow> map_option (Cons (char_of (16 * i + j))) (QueryUnescape t)
                 | _ \<Rightarrow> None)
            | _ \<Rightarrow> None)
      else map_option (Cons (if c = CHR ''+'' then CHR '' '' else c)) (QueryUnescape s))"

lemma unhex_upperhex: "n < 16 \<Longrightarrow> unhex (upperhex ! n) = Some n"
proof -
  assume "n < 16"
  moreover have "\<forall>n\<in>set [0..<16]. unhex (upperhex ! n) = Some n" by code_simp
  ultimately show ?thesis by simp
qed

lemma unreserved_plain:
  assumes "unreserved c" shows "c \<notin> {CHR ''%'', CHR ''+'', CHR '' '', CHR ''&'', CHR '';'', CHR ''=''}"
proof -
  have "\<forall>d\<in>set ''%+ &;=''. \<not> unreserved d" by code_simp
  with assms show ?thesis by auto
qed

lemma unescape_byte: "QueryUnescape (escapeByte c @ s) = map_option (Cons c) (QueryUnescape s)"
proof -
  have "(of_char c :: nat) div 16 < 16" by (simp add: less_mult_imp_div_less)
  then show ?thesis
    using unreserved_plain [of c] by (auto simp: escapeByte_def unhex_upperhex)
qed

lemma unescape_escape [simp]: "QueryUnescape (QueryEscape s) = Some s"
proof -
  have "QueryUnescape (QueryEscape s @ t) = map_option ((@) s) (QueryUnescape t)" for t
    by (induction s) (simp_all add: QueryEscape_def unescape_byte option.map_comp comp_def option.map_ident)
  from this [of "[]"] show ?thesis by simp
qed

lemma upperhex_plain: "n < 16 \<Longrightarrow> upperhex ! n \<notin> {CHR ''&'', CHR '';'', CHR ''=''}"
proof -
  assume "n < 16"
  moreover have "\<forall>n\<in>set [0..<16]. upperhex ! n \<notin> set ''&;=''" by code_simp
  ultimately show ?thesis by simp
qed

lemma QueryEscape_plain: "{CHR ''&'', CHR '';'', CHR ''=''} \<inter> set (QueryEscape s) = {}"
proof -
  have "(of_char c :: nat) div 16 < 16" for c :: char
    by (simp add: less_mult_imp_div_less)
  then have "{CHR ''&'', CHR '';'', CHR ''=''} \<inter> set (escapeByte c) = {}" for c
    using unreserved_plain [of c] upperhex_plain [of "of_char c div 16"] upperhex_plain [of "of_char c mod 16"]
    by (auto simp: escapeByte_def)
  then show ?thesis by (auto simp: QueryEscape_def)
qed

section \<open>Values\<close>

type_synonym Values = "(string \<times> string list) list"

definition vals :: "Values \<Rightarrow> string \<Rightarrow> string list" where
  "vals f k = (case map_of f k of Some vs \<Rightarrow> vs | None \<Rightarrow> [])"

definition Get :: "Values \<Rightarrow> string \<Rightarrow> string" where
  "Get f k = (case vals f k of [] \<Rightarrow> [] | v # _ \<Rightarrow> v)"

definition SetValue :: "string \<Rightarrow> string \<Rightarrow> Values \<Rightarrow> Values" where
  "SetValue k v f = AList.update k [v] f"

text \<open>\<^verbatim>\<open>m[key] = append(m[key], values...)\<close>, and the loop \<^verbatim>\<open>copyValues\<close> makes of it.\<close>

definition appendValues :: "string \<times> string list \<Rightarrow> Values \<Rightarrow> Values" where
  "appendValues = (\<lambda>(k, vs) f. AList.update k (vals f k @ vs) f)"

definition copyValues :: "Values \<Rightarrow> Values \<Rightarrow> Values" where
  "copyValues src dst = fold appendValues src dst"

definition pairText :: "string \<times> string \<Rightarrow> string" where
  "pairText = (\<lambda>(k, v). QueryEscape k @ ''='' @ QueryEscape v)"

definition pairs :: "Values \<Rightarrow> (string \<times> string) list" where
  "pairs f = concat (map (\<lambda>k. map (Pair k) (vals f k)) (sortedKeys f))"

definition Encode :: "Values \<Rightarrow> string" where
  "Encode f = joinWith ''&'' (map pairText (pairs f))"

text \<open>
  One parameter of a query: a semicolon or a bad escape leaves it out and is reported at the end,
  an empty one is passed over.
\<close>

definition parsePair :: "string \<Rightarrow> Values \<times> bool \<Rightarrow> Values \<times> bool" where
  "parsePair p = (\<lambda>(f, ok).
     if CHR '';'' \<in> set p then (f, False)
     else if p = [] then (f, ok)
     else let (k, v, _) = cutChar (CHR ''='') p in
       case QueryUnescape k of
         None \<Rightarrow> (f, False)
       | Some k' \<Rightarrow>
           (case QueryUnescape v of
              None \<Rightarrow> (f, False)
            | Some v' \<Rightarrow> (appendValues (k', [v']) f, ok)))"

text \<open>The library refuses a query with more than ten thousand parameters. The flag says whether
  the returned error is nil.\<close>

definition maxParams :: int where
  "maxParams = 10000"

definition ParseQuery :: "string \<Rightarrow> Values \<times> bool" where
  "ParseQuery q =
     (let ps = splitChar (CHR ''&'') q in
      if int (length ps) > maxParams then ([], False) else fold parsePair ps ([], True))"

lemma map_of_AList_update [simp]: "map_of (AList.update k v f) = (map_of f)(k \<mapsto> v)"
  by (rule AList.update_conv')

lemma vals_Nil [simp]: "vals [] k = []"
  by (simp add: vals_def)

lemma vals_update: "vals (AList.update k vs f) j = (if j = k then vs else vals f j)"
  by (simp add: vals_def)

lemma vals_absent: "k \<notin> fst ` set f \<Longrightarrow> vals f k = []"
  by (simp add: vals_def map_of_eq_None_iff [THEN iffD2])

lemma vals_append: "vals (appendValues (k, vs) f) j = vals f j @ (if j = k then vs else [])"
  by (simp add: appendValues_def vals_update)

lemma distinct_append: "distinct (map fst f) \<Longrightarrow> distinct (map fst (appendValues kv f))"
  by (cases kv) (simp add: appendValues_def distinct_update)

lemma Get_SetValue [simp]: "Get (SetValue k v f) k = v"
  by (simp add: Get_def SetValue_def vals_update)

lemma vals_copy: "distinct (map fst src) \<Longrightarrow> vals (copyValues src dst) k = vals dst k @ vals src k"
proof (induction src arbitrary: dst)
  case (Cons kv src)
  obtain j vs where "kv = (j, vs)" by force
  moreover from this Cons.prems have "vals src j = []" by (simp add: vals_absent)
  moreover have "vals (kv # src) k = (if k = j then vs else vals src k)" using \<open>kv = (j, vs)\<close> by (simp add: vals_def)
  ultimately show ?case using Cons by (simp add: copyValues_def vals_append)
qed (simp add: copyValues_def)

lemma distinct_copy: "distinct (map fst dst) \<Longrightarrow> distinct (map fst (copyValues src dst))"
  unfolding copyValues_def by (induction src arbitrary: dst) (simp_all add: distinct_append)

subsection \<open>Reading what was written\<close>

lemma parsePair_text: "parsePair (pairText (k, v)) (f, ok) = (appendValues (k, [v]) f, ok)"
proof -
  have "CHR ''='' \<notin> set (QueryEscape k)" "CHR '';'' \<notin> set (QueryEscape k @ QueryEscape v)"
    using QueryEscape_plain [of k] QueryEscape_plain [of v] by auto
  then show ?thesis by (simp add: parsePair_def pairText_def cutChar_append)
qed

lemma parse_texts:
  "fold parsePair (map pairText ps) (f, ok) = (fold (\<lambda>(k, v). appendValues (k, [v])) ps f, ok)"
  by (induction ps arbitrary: f) (auto simp: parsePair_text)

lemma vals_fold_pairs: "vals (fold (\<lambda>(k, v). appendValues (k, [v])) ps f) j = vals f j @ map snd (filter (\<lambda>p. fst p = j) ps)"
  by (induction ps arbitrary: f) (auto simp: vals_append)

lemma pairs_of_key:
  assumes "distinct (map fst f)"
  shows "map snd (filter (\<lambda>p. fst p = j) (pairs f)) = vals f j"
proof -
  have "map snd (filter (\<lambda>p. fst p = j) (concat (map (\<lambda>k. map (Pair k) (vals f k)) ks))) =
      (if j \<in> set ks then vals f j else [])" if "distinct ks" for ks
    using that by (induction ks) (auto simp: filter_map comp_def filter_empty_conv)
  from this [of "sortedKeys f"] show ?thesis
    using assms vals_absent [of j f] by (simp add: pairs_def sortedKeys_def split: if_splits)
qed

lemma ParseQuery_Encode:
  assumes "distinct (map fst f)" "int (length (pairs f)) \<le> maxParams"
  shows "\<exists>g. ParseQuery (Encode f) = (g, True) \<and> (\<forall>k. vals g k = vals f k)"
proof (cases "pairs f = []")
  case True
  then have "ParseQuery (Encode f) = ([], True)" by (simp add: ParseQuery_def Encode_def parsePair_def maxParams_def)
  moreover have "vals f k = []" for k using pairs_of_key [OF assms(1), of k] True by simp
  ultimately show ?thesis by simp
next
  case False
  have "splitChar (CHR ''&'') (Encode f) = map pairText (pairs f)"
    unfolding Encode_def
  proof (rule split_joinWith)
    show "CHR ''&'' \<notin> set p" if "p \<in> set (map pairText (pairs f))" for p
      using that QueryEscape_plain by (fastforce simp: pairText_def)
  qed (simp add: False)
  then show ?thesis
    using assms by (simp add: ParseQuery_def Let_def parse_texts vals_fold_pairs pairs_of_key not_less [symmetric])
qed

subsection \<open>The number of parameters\<close>

definition paramCount :: "Values \<Rightarrow> nat" where
  "paramCount f = sum_list (map (\<lambda>(k, vs). length vs) f)"

lemma total_update: "paramCount (AList.update k vs f) + length (vals f k) = paramCount f + length vs"
  by (induction f) (auto simp: paramCount_def vals_def)

lemma total_append: "paramCount (appendValues (k, vs) f) = paramCount f + length vs"
  using total_update [of k "vals f k @ vs" f] by (simp add: appendValues_def)

lemma total_SetValue: "vals f k \<noteq> [] \<Longrightarrow> paramCount (SetValue k v f) \<le> paramCount f"
  using total_update [of k "[v]" f] by (cases "vals f k") (simp_all add: SetValue_def)

lemma length_pairs:
  assumes "distinct (map fst f)"
  shows "length (pairs f) = paramCount f"
proof -
  have "length (pairs f) = sum_mset (image_mset (\<lambda>k. length (vals f k)) (mset (sortedKeys f)))"
    by (simp add: pairs_def length_concat comp_def sum_mset_sum_list flip: mset_map)
  also have "\<dots> = sum_list (map (\<lambda>k. length (vals f k)) (map fst f))"
    by (simp add: sortedKeys_def sum_mset_sum_list flip: mset_map)
  also have "\<dots> = paramCount f"
    unfolding paramCount_def map_map using assms
    by (intro arg_cong [where f = sum_list] map_cong) (auto simp: vals_def)
  finally show ?thesis .
qed

lemma parsePair_total:
  assumes "parsePair p (f, ok) = (g, ok')" "distinct (map fst f)"
  shows "distinct (map fst g) \<and> paramCount g \<le> Suc (paramCount f)"
  using assms
  by (auto simp: parsePair_def distinct_append total_append split: if_splits option.splits prod.splits)

lemma fold_parsePair_total:
  "fold parsePair ps (f, ok) = (g, ok') \<Longrightarrow> distinct (map fst f) \<Longrightarrow>
     distinct (map fst g) \<and> paramCount g \<le> paramCount f + length ps"
proof (induction ps arbitrary: f ok)
  case (Cons p ps)
  obtain h okh where h: "parsePair p (f, ok) = (h, okh)" by force
  show ?case using Cons.IH [of h okh] Cons.prems h parsePair_total [OF h] by auto
qed simp

lemma ParseQuery_ok:
  assumes "ParseQuery q = (f, ok)"
  shows "distinct (map fst f) \<and> int (paramCount f) \<le> maxParams"
  using assms fold_parsePair_total [of "splitChar (CHR ''&'') q" "[]" True f ok]
  by (auto simp: ParseQuery_def Let_def paramCount_def maxParams_def split: if_splits)

text \<open>Replacing a parameter that is there and writing the query out again changes nothing else.\<close>

lemma query_replaced:
  assumes "ParseQuery q = (f, ok)" "vals f k \<noteq> []"
  shows "\<exists>g. ParseQuery (Encode (SetValue k v f)) = (g, True) \<and> (\<forall>j. vals g j = (if j = k then [v] else vals f j))"
proof -
  have f: "distinct (map fst f)" "int (paramCount f) \<le> maxParams" using ParseQuery_ok [OF assms(1)] by auto
  have d: "distinct (map fst (SetValue k v f))" using f(1) by (simp add: SetValue_def distinct_update)
  have "int (length (pairs (SetValue k v f))) \<le> maxParams"
    using f(2) total_SetValue [OF assms(2), of v] by (simp add: length_pairs [OF d])
  from ParseQuery_Encode [OF d this] show ?thesis by (auto simp: SetValue_def vals_update)
qed

section \<open>Base64\<close>

text \<open>\<^verbatim>\<open>StdEncoding.DecodeString\<close>: line breaks are passed over, padding is required.\<close>

definition digit64 :: "char \<Rightarrow> nat option" where
  "digit64 c =
     (if within (CHR ''A'') (CHR ''Z'') c then Some (of_char c - 65)
      else if within (CHR ''a'') (CHR ''z'') c then Some (of_char c - 71)
      else if within (CHR ''0'') (CHR ''9'') c then Some (of_char c + 4)
      else if c = CHR ''+'' then Some 62
      else if c = CHR ''/'' then Some 63
      else None)"

fun decode64 :: "string \<Rightarrow> string option" where
  "decode64 [] = Some []"
| "decode64 (a # b # c # d # s) =
     (case (digit64 a, digit64 b) of
        (Some i, Some j) \<Rightarrow>
          (case (digit64 c, digit64 d) of
             (Some k, Some l) \<Rightarrow>
               map_option (\<lambda>t. char_of (4 * i + j div 16) # char_of (16 * (j mod 16) + k div 4) #
                 char_of (64 * (k mod 4) + l) # t) (decode64 s)
           | (Some k, None) \<Rightarrow>
               if d = CHR ''='' \<and> s = []
               then Some [char_of (4 * i + j div 16), char_of (16 * (j mod 16) + k div 4)] else None
           | (None, None) \<Rightarrow>
               if c = CHR ''='' \<and> d = CHR ''='' \<and> s = [] then Some [char_of (4 * i + j div 16)] else None
           | _ \<Rightarrow> None)
      | _ \<Rightarrow> None)"
| "decode64 _ = None"

definition DecodeString :: "string \<Rightarrow> string option" where
  "DecodeString s = decode64 (filter (\<lambda>c. c \<noteq> CHR 0x0A \<and> c \<noteq> CHR 0x0D) s)"

end
