(* ===== verification/Http_Request.thy ===== *)
theory Http_Request
  imports Go_Url Config_Data
begin

text \<open>
  \<^verbatim>\<open>internal/shared/http.go\<close>, \<^verbatim>\<open>httperror.go\<close>: where a request names its model, its API key and the
  context kept with it, how its model is replaced, and the error responses. A \<open>Request\<close> carries the
  parsed forms \<^verbatim>\<open>net/http\<close> caches in it (\<^verbatim>\<open>Form\<close>, \<^verbatim>\<open>PostForm\<close>, \<^verbatim>\<open>MultipartForm\<close>); functions that take a
  \<^verbatim>\<open>*http.Request\<close> return it updated. \<open>Codecs\<close> holds what is parsed elsewhere: JSON documents
  (\<^verbatim>\<open>gjson\<close>, \<^verbatim>\<open>sjson\<close>), media types and multipart bodies.
\<close>

section \<open>Requests\<close>

text \<open>Headers by canonical name; \<^verbatim>\<open>Get\<close> reads the first value.\<close>

type_synonym Header = "string \<Rightarrow> string list"

definition noHeader :: Header where
  "noHeader = (\<lambda>_. [])"

definition headerGet :: "Header \<Rightarrow> string \<Rightarrow> string" where
  "headerGet h k = (case h k of [] \<Rightarrow> [] | v # _ \<Rightarrow> v)"

definition headerSet :: "string \<Rightarrow> string \<Rightarrow> Header \<Rightarrow> Header" where
  "headerSet k v h = h(k := [v])"

definition headerDel :: "string \<Rightarrow> Header \<Rightarrow> Header" where
  "headerDel k h = h(k := [])"

text \<open>A multipart form: its values and, by key, the names and contents of its files.\<close>

record MForm =
  formValue :: Values
  formFile :: "(string \<times> (string \<times> string) list) list"

record ReqContextData =
  ctxApiKey :: string
  ctxModel :: string
  ctxModelID :: string
  ctxStreaming :: bool
  ctxSendLoadingState :: bool
  ctxMetadata :: "(string \<rightharpoonup> string) option"

text \<open>What the context holds under \<^verbatim>\<open>ReqContextKey\<close>: nothing, the data, or the empty struct that
  invalidates it.\<close>

datatype ctx_value = NoValue | Stored ReqContextData | Invalidated

text \<open>\<open>Body\<close> is what reading the body gives, \<open>None\<close> a read that fails.\<close>

record Request =
  Method :: string
  Path :: string
  upstreamPath :: string
  RawQuery :: string
  Headers :: Header
  Body :: "string option"
  ContentLength :: int
  Form :: "Values option"
  PostForm :: "Values option"
  MultipartForm :: "MForm option"
  ReqContext :: ctx_value
  selectorContext :: string

text \<open>
  \<open>mediaType\<close> is the type \<^verbatim>\<open>mime.ParseMediaType\<close> returns and whether its error is nil; \<open>readForm\<close>
  parses a body under its content type; \<open>writeForm\<close> writes one and returns its content type.
\<close>

record Codecs =
  jsonModel :: "string \<Rightarrow> string"
  jsonStream :: "string \<Rightarrow> bool"
  jsonSetModel :: "string \<Rightarrow> string \<Rightarrow> string option"
  mediaType :: "string \<Rightarrow> string \<times> bool"
  readForm :: "string \<Rightarrow> string \<Rightarrow> MForm option"
  writeForm :: "MForm \<Rightarrow> (string \<times> string) option"

datatype request_error =
    BodyUnreadable | FormUnparsable | MultipartUnparsable | ModelNotRewritten | FormNotRecreated
  | NoModelInContext

section \<open>Parsing forms, as the library does\<close>

definition ContentType :: "Request \<Rightarrow> string" where
  "ContentType r = headerGet (Headers r) ''Content-Type''"

definition maxFormSize :: int where
  "maxFormSize = 10 * 2 ^ 20"

definition parsePostForm :: "Codecs \<Rightarrow> Request \<Rightarrow> Values option \<times> bool" where
  "parsePostForm cd r =
     (let (ct, ok) = mediaType cd (if ContentType r = [] then ''application/octet-stream'' else ContentType r) in
      if ct = ''application/x-www-form-urlencoded''
      then (case Body r of
              None \<Rightarrow> (None, False)
            | Some b \<Rightarrow>
                if int (length b) > maxFormSize then (None, False)
                else (case ParseQuery b of (vs, parsed) \<Rightarrow> (Some vs, ok \<and> parsed)))
      else (None, ok))"

text \<open>What is cached is not parsed again, whatever became of the body since.\<close>

definition fillPostForm :: "Codecs \<Rightarrow> Request \<Rightarrow> bool \<times> Request" where
  "fillPostForm cd r =
     (case PostForm r of
        Some _ \<Rightarrow> (True, r)
      | None \<Rightarrow>
          (let (vs, ok) = (if Method r \<in> {''POST'', ''PUT'', ''PATCH''} then parsePostForm cd r else (None, True)) in
           (ok, r\<lparr>PostForm := Some (case vs of Some f \<Rightarrow> f | None \<Rightarrow> [])\<rparr>)))"

definition fillForm :: "Request \<Rightarrow> bool \<times> Request" where
  "fillForm r =
     (case Form r of
        Some _ \<Rightarrow> (True, r)
      | None \<Rightarrow>
          (let post = (case PostForm r of Some f \<Rightarrow> f | None \<Rightarrow> []);
               (query, ok) = ParseQuery (RawQuery r) in
           (ok, r\<lparr>Form := Some (copyValues query (copyValues post []))\<rparr>)))"

definition ParseForm :: "Codecs \<Rightarrow> Request \<Rightarrow> bool \<times> Request" where
  "ParseForm cd r =
     (let (ok1, r1) = fillPostForm cd r; (ok2, r2) = fillForm r1 in (ok1 \<and> ok2, r2))"

definition formOf :: "Values option \<Rightarrow> Values" where
  "formOf f = (case f of Some vs \<Rightarrow> vs | None \<Rightarrow> [])"

definition ParseMultipartForm :: "Codecs \<Rightarrow> Request \<Rightarrow> bool \<times> Request" where
  "ParseMultipartForm cd r =
     (let (ok, r1) = (case Form r of None \<Rightarrow> ParseForm cd r | Some _ \<Rightarrow> (True, r)) in
      case MultipartForm r1 of
        Some _ \<Rightarrow> (True, r1)
      | None \<Rightarrow>
          (case Option.bind (Body r1) (readForm cd (ContentType r1)) of
             None \<Rightarrow> (False, r1)
           | Some f \<Rightarrow>
               (ok, r1\<lparr>Form := Some (copyValues (formValue f) (formOf (Form r1))),
                       PostForm := Some (copyValues (formValue f) (formOf (PostForm r1))),
                       MultipartForm := Some f\<rparr>)))"

text \<open>\<^verbatim>\<open>FormValue\<close> after one of the two: both leave \<open>Form\<close> set.\<close>

definition FormValue :: "Request \<Rightarrow> string \<Rightarrow> string" where
  "FormValue r k = Get (formOf (Form r)) k"

section \<open>API keys\<close>

definition ExtractAPIKey :: "Request \<Rightarrow> string" where
  "ExtractAPIKey r =
     (let (scheme, credentials, ok) = cutChar (CHR '' '') (headerGet (Headers r) ''Authorization'');
          bearerKey = (if ok \<and> ToLower scheme = ''bearer'' then credentials else []);
          basicKey =
            (if ok \<and> ToLower scheme = ''basic''
             then (case DecodeString credentials of
                     None \<Rightarrow> []
                   | Some text \<Rightarrow> (let (_, password, found) = cutChar (CHR '':'') text in if found then password else []))
             else []) in
      if basicKey \<noteq> [] then basicKey
      else if bearerKey \<noteq> [] then bearerKey
      else headerGet (Headers r) ''X-Api-Key'')"

section \<open>The model of a request\<close>

definition requestData :: "Request \<Rightarrow> string \<Rightarrow> bool \<Rightarrow> ReqContextData" where
  "requestData r model streaming =
     \<lparr>ctxApiKey = ExtractAPIKey r, ctxModel = model, ctxModelID = [], ctxStreaming = streaming,
      ctxSendLoadingState = False, ctxMetadata = Some (\<lambda>_. None)\<rparr>"

definition isJson :: "Request \<Rightarrow> bool" where
  "isJson r = contains (ContentType r) ''application/json''"

definition isMultipart :: "Request \<Rightarrow> bool" where
  "isMultipart r = contains (ContentType r) ''multipart/form-data''"

text \<open>The body is read and put back, whatever the outcome.\<close>

definition extractContext :: "Codecs \<Rightarrow> Request \<Rightarrow> (request_error + ReqContextData) \<times> Request" where
  "extractContext cd r =
     (if Method r = ''GET''
      then (let q = fst (ParseQuery (RawQuery r)) in
            (Inr (requestData r (Get q ''model'') (Get q ''stream'' = ''true'')), r))
      else case Body r of
        None \<Rightarrow> (Inl BodyUnreadable, r)
      | Some b \<Rightarrow>
          if isJson r then (Inr (requestData r (jsonModel cd b) (jsonStream cd b)), r)
          else if isMultipart r
          then (let (ok, r1) = ParseMultipartForm cd r in
                if ok then (Inr (requestData r (FormValue r1 ''model'') (FormValue r1 ''stream'' = ''true'')), r1)
                else (Inl MultipartUnparsable, r1))
          else (let (ok, r1) = ParseForm cd r in
                if ok then (Inr (requestData r (FormValue r1 ''model'') (FormValue r1 ''stream'' = ''true'')), r1)
                else (Inl FormUnparsable, r1)))"

definition ExtractModel :: "Codecs \<Rightarrow> Request \<Rightarrow> (request_error + string) \<times> Request" where
  "ExtractModel cd r = (let (res, r1) = extractContext cd r in (map_sum id ctxModel res, r1))"

section \<open>Replacing the model\<close>

definition invalidateRequestContext :: "Request \<Rightarrow> Request" where
  "invalidateRequestContext r =
     (case ReqContext r of Stored _ \<Rightarrow> r\<lparr>ReqContext := Invalidated\<rparr> | _ \<Rightarrow> r)"

definition replaceRequestBody :: "string \<Rightarrow> Request \<Rightarrow> Request" where
  "replaceRequestBody b r =
     r\<lparr>Body := Some b,
       Headers := headerSet ''Content-Length'' (Itoa (int (length b))) (headerDel ''Transfer-Encoding'' (Headers r)),
       ContentLength := int (length b)\<rparr>"

text \<open>Every value of the field is replaced; a form without the field gets none.\<close>

definition renamedForm :: "string \<Rightarrow> MForm \<Rightarrow> MForm" where
  "renamedForm replacement f =
     f\<lparr>formValue := map (\<lambda>(k, vs). (k, if k = ''model'' then map (\<lambda>_. replacement) vs else vs)) (formValue f)\<rparr>"

definition replaceMultipartModel :: "Codecs \<Rightarrow> MForm \<Rightarrow> string \<Rightarrow> (string \<times> string) option" where
  "replaceMultipartModel cd f replacement = writeForm cd (renamedForm replacement f)"

definition trimSlash :: "string \<Rightarrow> string" where
  "trimSlash p = (if hasPrefix p ''/'' then tl p else p)"

definition replaceUpstream :: "string \<Rightarrow> string \<Rightarrow> Request \<Rightarrow> Request" where
  "replaceUpstream model replacement r =
     (let up = trimSlash (upstreamPath r) in
      if up \<noteq> model \<and> \<not> hasPrefix up (model @ ''/'') then r
      else (let rewritten = (if replacement = [] then [] else replacement @ drop (length model) up) in
            invalidateRequestContext (r\<lparr>upstreamPath := rewritten, Path := ''/upstream/'' @ rewritten\<rparr>)))"

definition replaceForm :: "Codecs \<Rightarrow> string \<Rightarrow> Request \<Rightarrow> request_error option \<times> Request" where
  "replaceForm cd replacement r =
     (let (ok, r1) = ParseForm cd r in
      if \<not> ok then (Some FormUnparsable, r1)
      else (let post = SetValue ''model'' replacement (formOf (PostForm r1)) in
            (None, invalidateRequestContext (replaceRequestBody (Encode post) (r1\<lparr>PostForm := Some post\<rparr>)))))"

definition replaceInBody :: "Codecs \<Rightarrow> string \<Rightarrow> Request \<Rightarrow> request_error option \<times> Request" where
  "replaceInBody cd replacement r =
     (if isJson r
      then (case Body r of
              None \<Rightarrow> (Some BodyUnreadable, r)
            | Some b \<Rightarrow>
                (case jsonSetModel cd b replacement of
                   None \<Rightarrow> (Some ModelNotRewritten, r)
                 | Some b' \<Rightarrow> (None, invalidateRequestContext (replaceRequestBody b' r))))
      else if isMultipart r
      then (let (ok, r1) = ParseMultipartForm cd r in
            if \<not> ok then (Some MultipartUnparsable, r1)
            else (case Option.bind (MultipartForm r1) (\<lambda>f. replaceMultipartModel cd f replacement) of
                    None \<Rightarrow> (Some FormNotRecreated, r1)
                  | Some (ct, b) \<Rightarrow>
                      (None, invalidateRequestContext (replaceRequestBody b
                         (r1\<lparr>MultipartForm := None, Form := None, PostForm := None,
                             Headers := headerSet ''Content-Type'' ct (Headers r1)\<rparr>)))))
      else replaceForm cd replacement r)"

definition replaceInQuery :: "string \<Rightarrow> Request \<Rightarrow> Request" where
  "replaceInQuery replacement r =
     invalidateRequestContext
       (r\<lparr>RawQuery := Encode (SetValue ''model'' replacement (fst (ParseQuery (RawQuery r))))\<rparr>)"

text \<open>The error returned and the request, changed or not.\<close>

definition ReplaceRequestModel :: "Codecs \<Rightarrow> string \<Rightarrow> string \<Rightarrow> Request \<Rightarrow> request_error option \<times> Request" where
  "ReplaceRequestModel cd model replacement r =
     (if hasPrefix (Path r) ''/upstream/'' then (None, replaceUpstream model replacement r)
      else case ExtractModel cd r of
        (Inl e, r1) \<Rightarrow> (Some e, r1)
      | (Inr current, r1) \<Rightarrow>
          if current \<noteq> model then (None, r1)
          else if Method r1 = ''GET'' then (None, replaceInQuery replacement r1)
          else replaceInBody cd replacement r1)"

section \<open>The context of a request\<close>

text \<open>The result of a walk along a path: the name matched, its model and the path that remains.\<close>

type_synonym path_match = "(string \<times> string \<times> string) option"

fun walkPath :: "(string \<Rightarrow> string option) \<Rightarrow> string \<Rightarrow> string list \<Rightarrow> path_match \<Rightarrow> path_match" where
  "walkPath resolve name [] found = found"
| "walkPath resolve name (part # parts) found =
     (if part = [] then walkPath resolve name parts found
      else let name' = (if name = [] then part else name @ ''/'' @ part) in
        walkPath resolve name' parts
          (case resolve name' of
             Some modelID \<Rightarrow> Some (name', modelID, ''/'' @ joinWith ''/'' parts)
           | None \<Rightarrow> found))"

definition FindModelInPath :: "Config \<Rightarrow> string \<Rightarrow> path_match" where
  "FindModelInPath c path = walkPath (ResolveBaseModel c) [] (splitChar (CHR ''/'') (trimSpace path)) None"

definition sendLoadingState :: "Config \<Rightarrow> string \<Rightarrow> bool" where
  "sendLoadingState c modelID =
     (case map_of (Models c) modelID of Some mc \<Rightarrow> SendLoadingState mc = Some True | None \<Rightarrow> False)"

definition extractUpstreamContext :: "Config \<Rightarrow> Request \<Rightarrow> ReqContextData option" where
  "extractUpstreamContext c r =
     (case FindModelInPath c (drop (length ''/upstream'') (Path r)) of
        None \<Rightarrow> None
      | Some (searchName, realName, _) \<Rightarrow>
          Some ((requestData r searchName (Get (fst (ParseQuery (RawQuery r))) ''stream'' = ''true''))
            \<lparr>ctxModelID := realName, ctxSendLoadingState := sendLoadingState c realName\<rparr>))"

definition resolveData :: "Config \<Rightarrow> ReqContextData \<Rightarrow> ReqContextData" where
  "resolveData c d =
     (let realName = (case RealModelName c (ctxModel d) of
            Some m \<Rightarrow> if m = [] then ctxModel d else m | None \<Rightarrow> ctxModel d) in
      d\<lparr>ctxModelID := realName, ctxSendLoadingState := sendLoadingState c realName\<rparr>)"

definition FetchContext :: "Codecs \<Rightarrow> Config \<Rightarrow> Request \<Rightarrow> (request_error + ReqContextData) \<times> Request" where
  "FetchContext cd c r =
     (case ReqContext r of
        Stored d \<Rightarrow> (Inr d, r)
      | _ \<Rightarrow>
          if hasPrefix (Path r) ''/upstream/''
          then (case extractUpstreamContext c r of
                  Some d \<Rightarrow> (Inr d, r\<lparr>ReqContext := Stored d\<rparr>)
                | None \<Rightarrow> (Inl NoModelInContext, r))
          else case extractContext cd r of
            (Inr d, r1) \<Rightarrow>
              if ctxModel d \<noteq> []
              then (Inr (resolveData c d), r1\<lparr>ReqContext := Stored (resolveData c d)\<rparr>)
              else (Inl NoModelInContext, r1)
          | (Inl _, r1) \<Rightarrow> (Inl NoModelInContext, r1))"

datatype metadata_error = NoRequestData | NoMetadataMap

definition SetReqData :: "string \<Rightarrow> string \<Rightarrow> ctx_value \<Rightarrow> metadata_error + ctx_value" where
  "SetReqData key v ctx =
     (case ctx of
        Stored d \<Rightarrow>
          (case ctxMetadata d of
             None \<Rightarrow> Inl NoMetadataMap
           | Some m \<Rightarrow> Inr (Stored (d\<lparr>ctxMetadata := Some (m(key \<mapsto> v))\<rparr>)))
      | _ \<Rightarrow> Inl NoRequestData)"

section \<open>Responses\<close>

text \<open>A JSON body is the object it is marshalled from, its keys in order; \<open>Moved\<close> stands for the page of
  \<^verbatim>\<open>http.Redirect\<close>.\<close>

datatype payload = Bytes string | JsonObject "(string \<times> string) list" | Moved string

record Response =
  status :: int
  respHeader :: Header
  payload :: payload

fun escapeHtml :: "char \<Rightarrow> string" where
  "escapeHtml c =
     (if c = CHR ''<'' then ''&lt;'' else if c = CHR ''>'' then ''&gt;'' else if c = CHR ''&'' then ''&amp;''
      else if c = CHR 0x27 then ''&#39;'' else if c = CHR 0x22 then ''&#34;'' else [c])"

definition EscapeString :: "string \<Rightarrow> string" where
  "EscapeString s = concat (map escapeHtml s)"

text \<open>The first argument is what the response's header holds already.\<close>

definition SendResponse :: "Header \<Rightarrow> Request \<Rightarrow> int \<Rightarrow> string \<Rightarrow> Response" where
  "SendResponse h r st message =
     (let accept = headerGet (Headers r) ''Accept'' in
      if contains accept ''text/plain''
      then \<lparr>status = st, respHeader = headerSet ''Content-Type'' ''text/plain'' h,
            payload = Bytes (''llemon-swap: '' @ message)\<rparr>
      else if contains accept ''text/html''
      then \<lparr>status = st, respHeader = headerSet ''Content-Type'' ''text/html'' h,
            payload = Bytes (''<html><body><h1>llemon-swap</h1><p>'' @ EscapeString message @ ''</p></body></html>'')\<rparr>
      else \<lparr>status = st, respHeader = headerSet ''Content-Type'' ''application/json'' h,
            payload = JsonObject [(''error'', message), (''src'', ''llemon-swap'')]\<rparr>)"

text \<open>The concurrency-limit response of \<^verbatim>\<open>httperror.go\<close>, an \<^verbatim>\<open>HTTPError\<close>.\<close>

record LimitError =
  RetryAfter :: int
  limitMessage :: string

definition limitResponse :: "LimitError \<Rightarrow> Header \<Rightarrow> Response" where
  "limitResponse e h =
     \<lparr>status = 429,
      respHeader = headerSet ''Retry-After'' (if RetryAfter e > 0 then Itoa (RetryAfter e) else ''1'')
        (headerSet ''Content-Type'' ''application/json'' h),
      payload = JsonObject [(''error'', if limitMessage e \<noteq> [] then limitMessage e else ''Too many requests'')]\<rparr>"

datatype send_error =
    HttpError LimitError | ErrNoModelInContext | ErrNoPeerModelFound | ErrNoLocalModel | ErrNoRouterFound
  | OtherError string

definition SendError :: "Header \<Rightarrow> Request \<Rightarrow> send_error \<Rightarrow> Response" where
  "SendError h r err =
     (case err of
        HttpError e \<Rightarrow> limitResponse e h
      | ErrNoModelInContext \<Rightarrow> SendResponse h r 404 ''no model id could be identified''
      | ErrNoPeerModelFound \<Rightarrow> SendResponse h r 404 ''no peer found for requested model''
      | ErrNoLocalModel \<Rightarrow> SendResponse h r 404 ''no local server found for requested model''
      | ErrNoRouterFound \<Rightarrow> SendResponse h r 404 ''no router for requested model''
      | OtherError text \<Rightarrow> SendResponse h r 500 (''unspecific error: '' @ text))"

end
