(* ===== verification/Http_Server.thy ===== *)
theory Http_Server
  imports Http_Request Selector
begin

text \<open>
  \<^verbatim>\<open>internal/chain\<close> and the middleware, dispatch and route table of \<^verbatim>\<open>internal/server\<close> (\<^verbatim>\<open>auth.go\<close>,
  \<^verbatim>\<open>profiles.go\<close>, \<^verbatim>\<open>selector.go\<close>, \<^verbatim>\<open>filters.go\<close>, \<^verbatim>\<open>server.go\<close>, \<open>handleUpstream\<close> of \<^verbatim>\<open>api.go\<close>), with the peer
  router of \<^verbatim>\<open>internal/router/peer.go\<close>. A handler maps the server's state, the header set so far on
  the response and the request to the new state and the response; whatever other requests do while
  it runs is part of that change of state. The local router is the Go interface it has, a record of
  its functions.
\<close>

section \<open>Handlers and chains\<close>

record 's Server =
  activeProfile :: string
  spillovers :: tracker
  peerDown :: bool
  localState :: 's

type_synonym 's handler = "'s Server \<Rightarrow> Header \<Rightarrow> Request \<Rightarrow> 's Server \<times> Response"
type_synonym 's middleware = "'s handler \<Rightarrow> 's handler"

record 's Chain =
  mws :: "'s middleware list"

definition NewChain :: "'s middleware list \<Rightarrow> 's Chain" where
  "NewChain ms = \<lparr>mws = ms\<rparr>"

definition AppendChain :: "'s middleware list \<Rightarrow> 's Chain \<Rightarrow> 's Chain" where
  "AppendChain ms c = \<lparr>mws = mws c @ ms\<rparr>"

text \<open>The loop of \<^verbatim>\<open>Then\<close> runs from the last middleware to the first.\<close>

fun wrapFrom :: "'s middleware list \<Rightarrow> 's handler \<Rightarrow> 's handler" where
  "wrapFrom [] h = h"
| "wrapFrom (m # reversed) h = wrapFrom reversed (m h)"

definition Then :: "'s Chain \<Rightarrow> 's handler \<Rightarrow> 's handler" where
  "Then c final = wrapFrom (rev (mws c)) final"

lemma Then_foldr: "Then c final = foldr (\<lambda>m. m) (mws c) final"
proof -
  have "wrapFrom ms h = fold (\<lambda>m. m) ms h" for ms and h :: "'a handler"
    by (induction ms arbitrary: h) simp_all
  then show ?thesis by (simp add: Then_def foldr_conv_fold)
qed

lemma Then_simps [simp]:
  "Then (NewChain []) final = final"
  "Then (NewChain (m # ms)) final = m (Then (NewChain ms) final)"
  "Then (AppendChain ms c) final = Then c (Then (NewChain ms) final)"
  by (simp_all add: Then_foldr NewChain_def AppendChain_def)

section \<open>Authorisation and cross-origin requests\<close>

definition CreateAuthMiddleware :: "Config \<Rightarrow> 's middleware" where
  "CreateAuthMiddleware c next =
     (if RequiredAPIKeys c = [] then next
      else (\<lambda>s h r.
        if ExtractAPIKey r \<in> set (RequiredAPIKeys c) then next s h r
        else (s, SendResponse (headerSet ''Www-Authenticate'' ''Basic realm=\"llemon-swap\"'' h) r 401
                ''unauthorized: invalid or missing API key'')))"

definition isTokenChar :: "char \<Rightarrow> bool" where
  "isTokenChar c \<longleftrightarrow> alnum c \<or> c \<in> set ''!#$%&*+-.^_|~'' \<or> c = CHR 0x27 \<or> c = CHR 0x60"

definition sanitizeAccessControlRequestHeaderValues :: "string \<Rightarrow> string" where
  "sanitizeAccessControlRequestHeaderValues values =
     joinWith '', '' (filter (\<lambda>v. v \<noteq> [] \<and> list_all isTokenChar v) (map trimSpace (splitChar (CHR '','') values)))"

definition CreateCORSMiddleware :: "'s middleware" where
  "CreateCORSMiddleware next = (\<lambda>s h0 r.
     let h = headerSet ''Access-Control-Allow-Origin'' ''*'' h0 in
     if Method r \<noteq> ''OPTIONS'' then next s h r
     else let asked = headerGet (Headers r) ''Access-Control-Request-Headers'';
              allowed = (if asked \<noteq> [] then sanitizeAccessControlRequestHeaderValues asked
                         else ''Content-Type, Authorization, Accept, X-Requested-With'') in
       (s, \<lparr>status = 204,
            respHeader = headerSet ''Access-Control-Max-Age'' ''86400''
              (headerSet ''Access-Control-Allow-Headers'' allowed
              (headerSet ''Access-Control-Allow-Methods'' ''GET, POST, PUT, PATCH, DELETE, OPTIONS'' h)),
            payload = Bytes []\<rparr>))"

section \<open>Profiles\<close>

definition setActiveProfile :: "Config \<Rightarrow> string \<Rightarrow> 's Server \<Rightarrow> (string + bool) \<times> 's Server" where
  "setActiveProfile c profile s =
     (if profile \<noteq> [] \<and> \<not> hasKey profile (Profiles c)
      then (Inl (''profile \"'' @ profile @ ''\" not found''), s)
      else if activeProfile s = profile then (Inr False, s)
      else (Inr True, s\<lparr>activeProfile := profile\<rparr>))"

text \<open>The loop over the pins keeps the longest one seen that is the path or leads it.\<close>

definition considerPin :: "string \<Rightarrow> string \<times> string \<Rightarrow> string \<times> string \<Rightarrow> string \<times> string" where
  "considerPin up = (\<lambda>(pin, candidate) (matched, replacement).
     if (up = pin \<or> hasPrefix up (pin @ ''/'')) \<and> length pin > length matched
     then (pin, candidate) else (matched, replacement))"

definition upstreamProfilePin :: "string \<Rightarrow> (string \<times> string) list \<Rightarrow> (string \<times> string) option" where
  "upstreamProfilePin up pins =
     (let (matched, replacement) = fold (considerPin (trimSlash up)) pins ([], []) in
      if matched \<noteq> [] then Some (matched, replacement) else None)"

text \<open>The texts of the errors, without the cause the library adds.\<close>

fun requestErrorText :: "request_error \<Rightarrow> string" where
  "requestErrorText BodyUnreadable = ''error reading request body''"
| "requestErrorText FormUnparsable = ''error parsing form''"
| "requestErrorText MultipartUnparsable = ''error parsing multipart form''"
| "requestErrorText ModelNotRewritten = ''could not rewrite model in JSON body''"
| "requestErrorText FormNotRecreated = ''error recreating form''"
| "requestErrorText NoModelInContext = ''no model in request context''"

text \<open>The pin of a request: the pinned model and its replacement, and the request its model was read from.\<close>

definition requestPin :: "Codecs \<Rightarrow> (string \<times> string) list \<Rightarrow> Request \<Rightarrow> (string \<times> string) option \<times> Request" where
  "requestPin cd pins r =
     (if hasPrefix (Path r) ''/upstream/'' then (upstreamProfilePin (upstreamPath r) pins, r)
      else case ExtractModel cd r of
        (Inl _, r1) \<Rightarrow> (None, r1)
      | (Inr model, r1) \<Rightarrow>
          (if model \<noteq> [] then map_option (Pair model) (map_of pins model) else None, r1))"

definition CreateProfileMiddleware :: "Codecs \<Rightarrow> Config \<Rightarrow> 's middleware" where
  "CreateProfileMiddleware cd c next = (\<lambda>s h r.
     case map_of (Profiles c) (activeProfile s) of
       None \<Rightarrow> next s h r
     | Some profile \<Rightarrow>
         (case requestPin cd (Pins profile) r of
            (None, r1) \<Rightarrow> next s h r1
          | (Some (model, replacement), r1) \<Rightarrow>
              (case ReplaceRequestModel cd model replacement r1 of
                 (Some e, r2) \<Rightarrow> (s, SendResponse h r2 400 (requestErrorText e))
               | (None, r2) \<Rightarrow> next s h r2)))"

section \<open>Selectors\<close>

record 's LocalRouter =
  RunningModels :: "'s \<Rightarrow> running"
  localHandles :: "string \<Rightarrow> bool"
  localServe :: "'s handler"

fun selectorErrorText :: "error \<Rightarrow> string" where
  "selectorErrorText (ErrText text) = text"
| "selectorErrorText ErrNoLocalModelFound = ''local model not found''"
| "selectorErrorText ConcurrencyLimitError = ''concurrency limit reached''"
| "selectorErrorText (ProviderError p code message st) = ''provider '' @ p @ '': '' @ message"

definition releaseIfSpillover :: "SelectorConfig \<Rightarrow> string \<Rightarrow> string \<Rightarrow> 's Server \<Rightarrow> 's Server" where
  "releaseIfSpillover sel model tgt s =
     (if Strategy sel = ''spillover'' then s\<lparr>spillovers := release_spillover model tgt (spillovers s)\<rparr> else s)"

text \<open>The reservation of a spillover target is given back when the rest of the chain returns.\<close>

definition CreateSelectorMiddleware :: "Codecs \<Rightarrow> Config \<Rightarrow> 's LocalRouter \<Rightarrow> 's middleware" where
  "CreateSelectorMiddleware cd c rt next = (\<lambda>s h r.
     if Selectors c = [] then next s h r
     else case ExtractModel cd r of
       (Inl _, r1) \<Rightarrow> next s h r1
     | (Inr model, r1) \<Rightarrow>
         (case (if model = [] then None else map_of (Selectors c) model) of
            None \<Rightarrow> next s h r1
          | Some sel \<Rightarrow>
              (case selectTarget c (RunningModels rt (localState s)) model sel (spillovers s) of
                 Inl e \<Rightarrow> (s, SendResponse h r1 503 (selectorErrorText e))
               | Inr (tgt, tracker) \<Rightarrow>
                   (case ReplaceRequestModel cd model tgt r1 of
                      (Some e, r2) \<Rightarrow>
                        (releaseIfSpillover sel model tgt (s\<lparr>spillovers := tracker\<rparr>),
                         SendResponse h r2 400 (requestErrorText e))
                    | (None, r2) \<Rightarrow>
                        (let (s', resp) = next (s\<lparr>spillovers := tracker\<rparr>) h (r2\<lparr>selectorContext := model\<rparr>) in
                         (releaseIfSpillover sel model tgt s', resp))))))"

section \<open>Context and form filter\<close>

definition CreateRequestContextMiddleware :: "Codecs \<Rightarrow> Config \<Rightarrow> 's middleware" where
  "CreateRequestContextMiddleware cd c next = (\<lambda>s h r.
     case FetchContext cd c r of
       (Inl _, r1) \<Rightarrow> (s, SendError h r1 ErrNoModelInContext)
     | (Inr _, r1) \<Rightarrow> next s h r1)"

text \<open>The name a model goes by upstream; peers have none.\<close>

definition upstreamName :: "Config \<Rightarrow> string \<Rightarrow> string option" where
  "upstreamName c requested =
     (case RealModelName c requested of
        Some realName \<Rightarrow> Some (case map_of (Models c) realName of Some mc \<Rightarrow> UseModelName mc | None \<Rightarrow> [])
      | None \<Rightarrow> (case ResolvePeerModel c requested of Some _ \<Rightarrow> Some [] | None \<Rightarrow> None))"

definition CreateFormFilterMiddleware :: "Codecs \<Rightarrow> Config \<Rightarrow> 's middleware" where
  "CreateFormFilterMiddleware cd c next = (\<lambda>s h r.
     if \<not> isMultipart r then next s h r
     else case FetchContext cd c r of
       (Inl _, r1) \<Rightarrow> (s, SendError h r1 ErrNoModelInContext)
     | (Inr d, r1) \<Rightarrow>
         (case upstreamName c (ctxModel d) of
            None \<Rightarrow> next s h r1
          | Some useModelName \<Rightarrow>
              if useModelName = [] then next s h r1
              else (case ReplaceRequestModel cd (ctxModel d) useModelName r1 of
                      (Some e, r2) \<Rightarrow> (s, SendResponse h r2 400 (requestErrorText e))
                    | (None, r2) \<Rightarrow> next s h (r2\<lparr>ReqContext := ReqContext r1\<rparr>))))"

section \<open>Peers\<close>

text \<open>The routes of \<^verbatim>\<open>NewPeer\<close>: qualified names, then the bare names that only one peer serves.\<close>

definition fqnRoutes :: "(string \<times> string) list \<Rightarrow> string \<rightharpoonup> string \<times> string" where
  "fqnRoutes pms = fold (\<lambda>(peerID, model) m. m(PeerModelFQN peerID model \<mapsto> (peerID, model))) pms Map.empty"

definition bareRoutes :: "(string \<times> string) list \<Rightarrow> string \<Rightarrow> (string \<times> string) list" where
  "bareRoutes pms model = filter (\<lambda>pm. snd pm = model) pms"

definition peerRoutes :: "(string \<times> string) list \<Rightarrow> string \<Rightarrow> (string \<times> string) option" where
  "peerRoutes pms model =
     (case fqnRoutes pms model of
        Some route \<Rightarrow> Some route
      | None \<Rightarrow> (case bareRoutes pms model of [route] \<Rightarrow> Some route | _ \<Rightarrow> None))"

definition NewPeer :: "Config \<Rightarrow> peer_error + (string \<Rightarrow> (string \<times> string) option)" where
  "NewPeer c = (case ValidatePeerNamespace c of Some e \<Rightarrow> Inl e | None \<Rightarrow> Inr (peerRoutes (sortedPairs c)))"

text \<open>The configured API keys of the peers and the reverse proxy to each.\<close>

record Proxies =
  peerKey :: "string \<Rightarrow> string"
  forward :: "string \<Rightarrow> Header \<Rightarrow> Request \<Rightarrow> Response"

definition withPeerKey :: "string \<Rightarrow> Request \<Rightarrow> Request" where
  "withPeerKey key r =
     (if key = [] then r
      else r\<lparr>Headers := headerSet ''X-Api-Key'' key (headerSet ''Authorization'' (''Bearer '' @ key) (Headers r))\<rparr>)"

definition peerServe ::
  "Codecs \<Rightarrow> Config \<Rightarrow> (string \<Rightarrow> (string \<times> string) option) \<Rightarrow> Proxies \<Rightarrow> 's handler" where
  "peerServe cd c routes px s h r =
     (if peerDown s then (s, SendError h r (OtherError ''peer proxy is shutting down''))
      else case FetchContext cd c r of
        (Inl _, r1) \<Rightarrow> (s, SendError h r1 ErrNoModelInContext)
      | (Inr d, r1) \<Rightarrow>
          (case routes (ctxModelID d) of
             None \<Rightarrow> (s, SendError h r1 ErrNoPeerModelFound)
           | Some (peerID, model) \<Rightarrow>
               (case (if ctxModel d \<noteq> model then ReplaceRequestModel cd (ctxModel d) model r1 else (None, r1)) of
                  (Some e, r2) \<Rightarrow> (s, SendResponse h r2 400 (requestErrorText e))
                | (None, r2) \<Rightarrow> (s, forward px peerID h (withPeerKey (peerKey px peerID) r2)))))"

section \<open>Dispatch\<close>

definition stripVersionPrefix :: "Request \<Rightarrow> Request" where
  "stripVersionPrefix r = (if hasPrefix (Path r) ''/v/'' then r\<lparr>Path := drop (length ''/v'') (Path r)\<rparr> else r)"

definition localPeerHandler ::
  "Codecs \<Rightarrow> Config \<Rightarrow> 's LocalRouter \<Rightarrow> (string \<Rightarrow> (string \<times> string) option) \<Rightarrow> Proxies \<Rightarrow> 's handler" where
  "localPeerHandler cd c rt routes px s h r0 =
     (case FetchContext cd c (stripVersionPrefix r0) of
        (Inl _, r) \<Rightarrow> (s, SendError h r ErrNoModelInContext)
      | (Inr d, r) \<Rightarrow>
          if localHandles rt (ctxModelID d) then localServe rt s h r
          else if routes (ctxModelID d) \<noteq> None then peerServe cd c routes px s h r
          else (s, SendError h r ErrNoRouterFound))"

text \<open>\<open>matches\<close> is \<^verbatim>\<open>MatchString\<close> of the compiled \<^verbatim>\<open>ignorePaths\<close>.\<close>

definition ignoredPath :: "(string \<Rightarrow> string \<Rightarrow> bool) \<Rightarrow> Config \<Rightarrow> string \<Rightarrow> bool" where
  "ignoredPath matches c path \<longleftrightarrow> list_ex (\<lambda>re. matches re path) (IgnorePaths c)"

definition redirectTo :: "Header \<Rightarrow> Request \<Rightarrow> string \<Rightarrow> Response" where
  "redirectTo h r newPath =
     \<lparr>status = (if Method r = ''GET'' \<or> Method r = ''HEAD'' then 301 else 308),
      respHeader = headerSet ''Location'' newPath h, payload = Moved newPath\<rparr>"

definition handleUpstream ::
  "(string \<Rightarrow> string \<Rightarrow> bool) \<Rightarrow> Codecs \<Rightarrow> Config \<Rightarrow> 's LocalRouter \<Rightarrow>
     (string \<Rightarrow> (string \<times> string) option) \<Rightarrow> Proxies \<Rightarrow> 's handler" where
  "handleUpstream matches cd c rt routes px s h r0 =
     (case FindModelInPath c (''/'' @ upstreamPath r0) of
        None \<Rightarrow> (s, SendResponse h r0 404 ''model not found'')
      | Some (searchName, realName, remainingPath) \<Rightarrow>
          if remainingPath = ''/'' \<and> \<not> hasSuffix (Path r0) ''/''
          then (s, redirectTo h r0 (''/upstream/'' @ searchName @ ''/'' @
                  (if Request.RawQuery r0 \<noteq> [] then ''?'' @ Request.RawQuery r0 else [])))
          else (let r = r0\<lparr>Path := remainingPath,
                     ReqContext := Stored \<lparr>ctxApiKey = [], ctxModel = searchName, ctxModelID = realName,
                       ctxStreaming = False, ctxSendLoadingState = False, ctxMetadata = Some (\<lambda>_. None)\<rparr>\<rparr> in
            if ignoredPath matches c remainingPath \<and> localHandles rt realName \<and>
               RunningModels rt (localState s) realName \<noteq> Some StateReady
            then (s, SendResponse h r 409
                    (''model '' @ realName @ '' is not loaded; path matches upstream.ignorePaths''))
            else if localHandles rt realName then localServe rt s h r
            else if routes realName \<noteq> None then peerServe cd c routes px s h r
            else (s, SendResponse h r 404 (''no router for model '' @ realName))))"

section \<open>Routes\<close>

text \<open>The chain a pattern is registered with.\<close>

datatype route_chain = ModelRoute | ApiRoute | UpstreamRoute | OpenRoute

definition modelPostJSONRoutes :: "string list" where
  "modelPostJSONRoutes = [
     ''/v1/chat/completions'', ''/v1/responses'', ''/v1/completions'', ''/v1/messages'',
     ''/v1/messages/count_tokens'', ''/v1/embeddings'', ''/reranking'', ''/rerank'', ''/v1/rerank'',
     ''/v1/reranking'', ''/infill'', ''/completion'', ''/v1/audio/speech'', ''/v1/audio/voices'',
     ''/v1/images/generations'', ''/sdapi/v1/txt2img'', ''/sdapi/v1/img2img'', ''/v/chat/completions'',
     ''/v/responses'', ''/v/completions'', ''/v/messages'', ''/v/messages/count_tokens'', ''/v/embeddings'',
     ''/v/rerank'', ''/v/reranking'']"

definition modelPostFormRoutes :: "string list" where
  "modelPostFormRoutes = [''/v1/audio/transcriptions'', ''/v1/images/edits'']"

definition modelGetRoutes :: "string list" where
  "modelGetRoutes = [''/v1/audio/voices'', ''/sdapi/v1/loras'', ''/props'']"

definition isMetricsRecordPath :: "string \<Rightarrow> bool" where
  "isMetricsRecordPath path \<longleftrightarrow>
     path \<in> set modelPostJSONRoutes \<or> path \<in> set modelPostFormRoutes \<or> path \<in> set modelGetRoutes"

definition routes :: "(string \<times> route_chain) list" where
  "routes =
     map (\<lambda>p. (''POST '' @ p, ModelRoute)) (modelPostJSONRoutes @ modelPostFormRoutes) @
     map (\<lambda>p. (''GET '' @ p, ModelRoute)) modelGetRoutes @
     [(''GET /v1/models'', ApiRoute), (''GET /logs'', ApiRoute), (''GET /logs/stream'', ApiRoute),
      (''GET /logs/stream/{logMonitorID...}'', ApiRoute),
      (''GET /health'', OpenRoute), (''GET /ready'', OpenRoute), (''GET /wol-health'', OpenRoute),
      (''GET /{$}'', OpenRoute),
      (''GET /ui/'', ApiRoute), (''GET /favicon.ico'', OpenRoute), (''GET /metrics'', ApiRoute),
      (''GET /unload'', ApiRoute), (''GET /running'', ApiRoute),
      (''GET /upstream'', OpenRoute), (''/upstream/{upstreamPath...}'', UpstreamRoute),
      (''POST /api/models/unload'', ApiRoute), (''POST /api/models/unload/{model...}'', ApiRoute),
      (''GET /api/profiles'', ApiRoute), (''PUT /api/profiles/active'', ApiRoute),
      (''POST /api/inflight/{id}/cancel'', ApiRoute), (''GET /api/events'', ApiRoute),
      (''GET /api/metrics/activity'', ApiRoute), (''GET /api/metrics/stats'', ApiRoute),
      (''GET /api/performance'', ApiRoute), (''GET /api/version'', ApiRoute),
      (''GET /api/providers'', ApiRoute), (''GET /api/captures/{id}'', ApiRoute)]"

text \<open>
  The chains, given the tracking of requests in flight, the JSON filter and the metrics middleware:
  \<open>tracking\<close> stands for the in-flight middleware of the chain, \<open>jsonFilter\<close> and \<open>metrics\<close> for theirs.
\<close>

definition chainOf ::
  "Codecs \<Rightarrow> Config \<Rightarrow> 's LocalRouter \<Rightarrow> 's middleware \<Rightarrow> 's middleware \<Rightarrow> 's middleware \<Rightarrow> route_chain \<Rightarrow> 's Chain" where
  "chainOf cd c rt tracking jsonFilter metrics kind =
     (case kind of
        OpenRoute \<Rightarrow> NewChain []
      | ApiRoute \<Rightarrow> NewChain [CreateAuthMiddleware c]
      | UpstreamRoute \<Rightarrow>
          AppendChain [CreateProfileMiddleware cd c, tracking, metrics] (NewChain [CreateAuthMiddleware c])
      | ModelRoute \<Rightarrow>
          NewChain [CreateAuthMiddleware c, CreateProfileMiddleware cd c, CreateSelectorMiddleware cd c rt,
            CreateRequestContextMiddleware cd c, tracking, jsonFilter, CreateFormFilterMiddleware cd c, metrics])"

text \<open>A registered handler behind its chain and the middleware every request goes through;
  \<open>requestLog\<close> is the request log.\<close>

definition registered ::
  "'s middleware \<Rightarrow> Codecs \<Rightarrow> Config \<Rightarrow> 's LocalRouter \<Rightarrow> 's middleware \<Rightarrow> 's middleware \<Rightarrow> 's middleware \<Rightarrow>
     route_chain \<Rightarrow> 's handler \<Rightarrow> 's handler" where
  "registered requestLog cd c rt tracking jsonFilter metrics kind final =
     Then (NewChain [requestLog, CreateCORSMiddleware]) (Then (chainOf cd c rt tracking jsonFilter metrics kind) final)"

end
