(* ===== verification/Http_Props.thy ===== *)
theory Http_Props
  imports Http_Server Selector_Props
begin

text \<open>
  What the HTTP layer guarantees: a replaced model is the one read next, except in urlencoded forms;
  no guarded route lets a request without a key through; profile pins decide the model that is
  routed; a selector gives back what it reserved; the longest pin and the longest name win; and the
  peer router's table is the configuration's name resolution.
\<close>

section \<open>The codecs\<close>

text \<open>
  What the code relies on: \<^verbatim>\<open>sjson.SetBytes\<close> writes what \<^verbatim>\<open>gjson.GetBytes\<close> reads; a multipart body
  written under its content type is read back with the same values, and is of that media type.
\<close>

definition codec_ok :: "Codecs \<Rightarrow> bool" where
  "codec_ok cd \<longleftrightarrow>
     (\<forall>b v b'. jsonSetModel cd b v = Some b' \<longrightarrow> jsonModel cd b' = v) \<and>
     (\<forall>ct b f. readForm cd ct b = Some f \<longrightarrow> distinct (map fst (formValue f))) \<and>
     (\<forall>f ct b. writeForm cd f = Some (ct, b) \<longrightarrow>
        contains ct ''multipart/form-data'' \<and> \<not> contains ct ''application/json'' \<and>
        mediaType cd ct = (''multipart/form-data'', True) \<and>
        (\<exists>g. readForm cd ct b = Some g \<and> (\<forall>k. vals (formValue g) k = vals (formValue f) k)))"

text \<open>A request as it arrives, with no form parsed yet.\<close>

definition unparsed :: "Request \<Rightarrow> bool" where
  "unparsed r \<longleftrightarrow> Form r = None \<and> PostForm r = None \<and> MultipartForm r = None"

text \<open>A request whose model is where its replacement is written: in the query of a \<^verbatim>\<open>GET\<close> request, in
  a JSON document, or in a multipart form and not in the query as well.\<close>

definition rewritable :: "Codecs \<Rightarrow> Request \<Rightarrow> bool" where
  "rewritable cd r \<longleftrightarrow>
     \<not> hasPrefix (Path r) ''/upstream/'' \<and>
     (Method r = ''GET'' \<or> isJson r \<or>
      isMultipart r \<and> fst (mediaType cd (ContentType r)) = ''multipart/form-data'' \<and>
        vals (fst (ParseQuery (Request.RawQuery r))) ''model'' = [])"

section \<open>Parsing once\<close>

lemma ParseForm_parsed: "Form r = Some f \<Longrightarrow> PostForm r = Some p \<Longrightarrow> ParseForm cd r = (True, r)"
  by (simp add: ParseForm_def fillPostForm_def fillForm_def)

text \<open>Only the cached forms change.\<close>

definition forms_only :: "Request \<Rightarrow> Request \<Rightarrow> bool" where
  "forms_only r r1 \<longleftrightarrow> r1 = r\<lparr>Form := Form r1, PostForm := PostForm r1, MultipartForm := MultipartForm r1\<rparr>"

lemma forms_only_sel:
  assumes "forms_only r r1"
  shows "Method r1 = Method r" "Path r1 = Path r" "Request.RawQuery r1 = Request.RawQuery r"
    "Headers r1 = Headers r" "Body r1 = Body r" "ReqContext r1 = ReqContext r" "upstreamPath r1 = upstreamPath r"
    "selectorContext r1 = selectorContext r" "ContentLength r1 = ContentLength r"
  by (subst assms [unfolded forms_only_def], simp)+

lemma forms_only_refl [simp]: "forms_only r r"
  by (simp add: forms_only_def)

lemma ParseForm_sets:
  assumes "ParseForm cd r = (ok, r1)"
  shows "forms_only r r1 \<and> Form r1 \<noteq> None \<and> PostForm r1 \<noteq> None \<and> MultipartForm r1 = MultipartForm r"
  using assms
  by (cases r) (auto simp: forms_only_def ParseForm_def fillPostForm_def fillForm_def Let_def
    split: option.splits prod.splits)

lemma ParseMultipartForm_sets:
  assumes "ParseMultipartForm cd r = (ok, r1)"
  shows "forms_only r r1 \<and> Form r1 \<noteq> None \<and> (ok \<longrightarrow> MultipartForm r1 \<noteq> None)"
proof -
  obtain ok2 r2 where r2: "(case Form r of None \<Rightarrow> ParseForm cd r | Some _ \<Rightarrow> (True, r)) = (ok2, r2)" by force
  have f: "forms_only r r2" "Form r2 \<noteq> None"
    using r2 ParseForm_sets [of cd r ok2 r2] by (auto split: option.splits)
  show ?thesis
    using assms r2 f
    by (cases r; cases r2) (auto simp: forms_only_def ParseMultipartForm_def split: option.splits)
qed

lemma ContentType_forms [simp]:
  "ContentType (r\<lparr>Form := f\<rparr>) = ContentType r" "ContentType (r\<lparr>PostForm := f\<rparr>) = ContentType r"
  "ContentType (r\<lparr>MultipartForm := m\<rparr>) = ContentType r" "ContentType (r\<lparr>ReqContext := x\<rparr>) = ContentType r"
  "ContentType (r\<lparr>selectorContext := y\<rparr>) = ContentType r"
  by (simp_all add: ContentType_def)

lemma extract_forms_only:
  assumes "extractContext cd r = (res, r1)"
  shows "forms_only r r1"
  using assms ParseForm_sets [of cd r] ParseMultipartForm_sets [of cd r]
  by (auto simp: extractContext_def Let_def split: if_splits option.splits prod.splits)

lemma requestData_forms: "forms_only r r1 \<Longrightarrow> requestData r1 = requestData r"
  by (intro ext) (simp only: requestData_def ExtractAPIKey_def forms_only_sel)

lemma kinds_forms:
  "forms_only r r1 \<Longrightarrow> ContentType r1 = ContentType r" "forms_only r r1 \<Longrightarrow> isJson r1 = isJson r"
  "forms_only r r1 \<Longrightarrow> isMultipart r1 = isMultipart r"
  by (simp_all add: ContentType_def isJson_def isMultipart_def forms_only_sel)

text \<open>What was extracted once is extracted again.\<close>

lemma extract_again:
  assumes "extractContext cd r = (Inr d, r1)"
  shows "extractContext cd r1 = (Inr d, r1)"
proof -
  have f: "forms_only r r1" by (rule extract_forms_only [OF assms])
  consider (get) "Method r = ''GET''" | (json) b where "Method r \<noteq> ''GET''" "Body r = Some b" "isJson r"
    | (multi) b where "Method r \<noteq> ''GET''" "Body r = Some b" "\<not> isJson r" "isMultipart r"
    | (form) b where "Method r \<noteq> ''GET''" "Body r = Some b" "\<not> isJson r" "\<not> isMultipart r"
    using assms by (auto simp: extractContext_def split: option.splits if_splits)
  then show ?thesis
  proof cases
    case get
    then have "r1 = r" using assms by (simp add: extractContext_def Let_def)
    then show ?thesis using assms by simp
  next
    case json
    then have "r1 = r" using assms by (simp add: extractContext_def)
    then show ?thesis using assms by simp
  next
    case multi
    then have p: "ParseMultipartForm cd r = (True, r1)"
      using assms by (auto simp: extractContext_def Let_def split: if_splits prod.splits)
    from ParseMultipartForm_sets [OF p] obtain g m where "Form r1 = Some g" "MultipartForm r1 = Some m" by auto
    then have "ParseMultipartForm cd r1 = (True, r1)" by (simp add: ParseMultipartForm_def)
    then show ?thesis
      using multi p assms by (simp add: extractContext_def forms_only_sel [OF f] kinds_forms [OF f] requestData_forms [OF f])
  next
    case form
    then have p: "ParseForm cd r = (True, r1)"
      using assms by (auto simp: extractContext_def Let_def split: if_splits prod.splits)
    from ParseForm_sets [OF p] obtain g q where "Form r1 = Some g" "PostForm r1 = Some q" by auto
    then have "ParseForm cd r1 = (True, r1)" by (rule ParseForm_parsed)
    then show ?thesis
      using form p assms by (simp add: extractContext_def forms_only_sel [OF f] kinds_forms [OF f] requestData_forms [OF f])
  qed
qed

lemma ExtractModel_Inr: "ExtractModel cd r = (Inr m, r1) \<longleftrightarrow> (\<exists>d. extractContext cd r = (Inr d, r1) \<and> m = ctxModel d)"
  by (cases "extractContext cd r"; cases "fst (extractContext cd r)") (auto simp: ExtractModel_def)

lemma ExtractModel_again: "ExtractModel cd r = (Inr m, r1) \<Longrightarrow> ExtractModel cd r1 = (Inr m, r1)"
  using extract_again by (fastforce simp: ExtractModel_Inr)

section \<open>Replacing the model\<close>

lemma invalidate_sel [simp]:
  "Method (invalidateRequestContext r) = Method r" "Path (invalidateRequestContext r) = Path r"
  "Request.RawQuery (invalidateRequestContext r) = Request.RawQuery r"
  "Headers (invalidateRequestContext r) = Headers r" "Body (invalidateRequestContext r) = Body r"
  "Form (invalidateRequestContext r) = Form r" "PostForm (invalidateRequestContext r) = PostForm r"
  "MultipartForm (invalidateRequestContext r) = MultipartForm r"
  "ContentType (invalidateRequestContext r) = ContentType r"
  "isJson (invalidateRequestContext r) = isJson r" "isMultipart (invalidateRequestContext r) = isMultipart r"
  by (auto simp: invalidateRequestContext_def isJson_def isMultipart_def ContentType_def split: ctx_value.splits)

lemma replaceBody_sel [simp]:
  "Method (replaceRequestBody b r) = Method r" "Path (replaceRequestBody b r) = Path r"
  "Request.RawQuery (replaceRequestBody b r) = Request.RawQuery r" "Body (replaceRequestBody b r) = Some b"
  "Form (replaceRequestBody b r) = Form r" "PostForm (replaceRequestBody b r) = PostForm r"
  "MultipartForm (replaceRequestBody b r) = MultipartForm r" "ReqContext (replaceRequestBody b r) = ReqContext r"
  "ContentType (replaceRequestBody b r) = ContentType r"
  by (simp_all add: replaceRequestBody_def ContentType_def headerGet_def headerSet_def headerDel_def)

lemma replaceBody_kinds [simp]:
  "isJson (replaceRequestBody b r) = isJson r" "isMultipart (replaceRequestBody b r) = isMultipart r"
  by (simp_all add: isJson_def isMultipart_def)

lemma Get_vals: "vals f k = vals g k \<Longrightarrow> Get f k = Get g k"
  by (simp add: Get_def)

lemma vals_nonempty: "Get f k \<noteq> [] \<Longrightarrow> vals f k \<noteq> []"
  by (auto simp: Get_def)

lemma query_replacement:
  assumes "Get (fst (ParseQuery q)) k \<noteq> []"
  shows "Get (fst (ParseQuery (Encode (SetValue k v (fst (ParseQuery q)))))) k = v"
proof -
  obtain f ok where f: "ParseQuery q = (f, ok)" by force
  from query_replaced [OF f vals_nonempty [OF assms [unfolded f fst_conv]], of v]
  obtain g where "ParseQuery (Encode (SetValue k v f)) = (g, True)" "vals g k = [v]" by auto
  then show ?thesis by (simp add: f Get_def)
qed

lemma vals_renamedForm:
  "vals (formValue (renamedForm v f)) k = (if k = ''model'' then map (\<lambda>_. v) (vals (formValue f) k) else vals (formValue f) k)"
proof -
  have "vals (map (\<lambda>(j, vs). (j, if j = ''model'' then map (\<lambda>_. v) vs else vs)) xs) k =
      (if k = ''model'' then map (\<lambda>_. v) (vals xs k) else vals xs k)" for xs
    by (induction xs) (auto simp: vals_def)
  then show ?thesis by (simp add: renamedForm_def)
qed

text \<open>Reading a multipart form of a request that arrives with the model in the form alone.\<close>

lemma multipart_read:
  assumes "Form r = None" "PostForm r = None" "MultipartForm r = None" "Body r = Some b"
    "mediaType cd (ContentType r) = (''multipart/form-data'', ok)" "ContentType r \<noteq> []"
    "ParseQuery (Request.RawQuery r) = (q, qok)"
  shows "ParseMultipartForm cd r =
    (case readForm cd (ContentType r) b of
       None \<Rightarrow> (False, r\<lparr>Form := Some (copyValues q []), PostForm := Some []\<rparr>)
     | Some f \<Rightarrow>
         ((Method r \<in> {''POST'', ''PUT'', ''PATCH''} \<longrightarrow> ok) \<and> qok,
          r\<lparr>Form := Some (copyValues (formValue f) (copyValues q [])),
            PostForm := Some (copyValues (formValue f) []), MultipartForm := Some f\<rparr>))"
proof -
  have p: "ParseForm cd r = ((Method r \<in> {''POST'', ''PUT'', ''PATCH''} \<longrightarrow> ok) \<and> qok,
      r\<lparr>Form := Some (copyValues q []), PostForm := Some []\<rparr>)"
    using assms by (cases "Method r \<in> {''POST'', ''PUT'', ''PATCH''}")
      (auto simp: ParseForm_def fillPostForm_def fillForm_def parsePostForm_def copyValues_def)
  then show ?thesis
    using assms by (auto simp: ParseMultipartForm_def formOf_def split: option.splits)
qed

lemma vals_query_form:
  assumes "ParseQuery s = (q, qok)" "distinct (map fst f)"
  shows "vals (copyValues f (copyValues q [])) k = vals q k @ vals f k"
  using ParseQuery_ok [OF assms(1)] assms(2) by (simp add: vals_copy)

lemma multipart_replacement:
  assumes cd: "codec_ok cd" and un: "unparsed r" and m: "Method r \<noteq> ''GET''" "\<not> isJson r" "isMultipart r"
    and mt: "fst (mediaType cd (ContentType r)) = ''multipart/form-data''"
    and q: "vals (fst (ParseQuery (Request.RawQuery r))) ''model'' = []"
    and ex: "ExtractModel cd r = (Inr model, r1)" "model \<noteq> []"
    and rep: "replaceInBody cd v r1 = (None, r2)"
  shows "fst (ExtractModel cd r2) = Inr v"
proof -
  obtain q0 qok where q0: "ParseQuery (Request.RawQuery r) = (q0, qok)" by force
  obtain ok where mt': "mediaType cd (ContentType r) = (''multipart/form-data'', ok)" using mt by (metis prod.collapse)
  obtain b where b: "Body r = Some b" using ex m by (auto simp: ExtractModel_Inr extractContext_def split: option.splits)
  have nonempty: "ContentType r \<noteq> []" using m(3) by (auto simp: isMultipart_def)
  from un have un': "Form r = None" "PostForm r = None" "MultipartForm r = None" by (auto simp: unparsed_def)
  note read = multipart_read [OF un' b mt' nonempty q0]
  from ex m b obtain f where f: "readForm cd (ContentType r) b = Some f" and qok: qok
    and r1: "r1 = r\<lparr>Form := Some (copyValues (formValue f) (copyValues q0 [])),
          PostForm := Some (copyValues (formValue f) []), MultipartForm := Some f\<rparr>"
    and model: "model = Get (copyValues (formValue f) (copyValues q0 [])) ''model''"
    by (auto simp: ExtractModel_Inr extractContext_def read requestData_def FormValue_def formOf_def
        split: option.splits if_splits)
  have df: "distinct (map fst (formValue f))" using cd f by (auto simp: codec_ok_def)
  have q0m: "vals q0 ''model'' = []" using q q0 by simp
  have fm: "vals (formValue f) ''model'' \<noteq> []"
    using model ex(2) vals_query_form [OF q0 df, of "''model''"] by (auto simp: q0m Get_def)
  have again: "ParseMultipartForm cd r1 = (True, r1)" by (simp add: r1 ParseMultipartForm_def)
  have mf: "MultipartForm r1 = Some f" by (simp add: r1)
  have fr: "forms_only r r1" using ex(1) extract_forms_only by (auto simp: ExtractModel_Inr)
  from rep obtain ct b' where w: "writeForm cd (renamedForm v f) = Some (ct, b')"
    and r2: "r2 = invalidateRequestContext (replaceRequestBody b'
        (r1\<lparr>MultipartForm := None, Form := None, PostForm := None, Headers := headerSet ''Content-Type'' ct (Headers r1)\<rparr>))"
    using m mf by (auto simp: replaceInBody_def kinds_forms [OF fr] again replaceMultipartModel_def split: option.splits)
  from cd w obtain g where ct: "contains ct ''multipart/form-data''" "\<not> contains ct ''application/json''"
      "mediaType cd ct = (''multipart/form-data'', True)" and g: "readForm cd ct b' = Some g"
      "\<And>k. vals (formValue g) k = vals (formValue (renamedForm v f)) k"
    unfolding codec_ok_def by blast
  have ct2: "ContentType r2 = ct" by (simp add: r2, simp add: ContentType_def headerGet_def headerSet_def)
  then have kind: "\<not> isJson r2" "isMultipart r2" "ContentType r2 \<noteq> []" using ct by (auto simp: isJson_def isMultipart_def)
  have sel: "Method r2 = Method r" "Request.RawQuery r2 = Request.RawQuery r" "Body r2 = Some b'"
      "Form r2 = None" "PostForm r2 = None" "MultipartForm r2 = None"
    by (simp_all add: r2 r1)
  have dg: "distinct (map fst (formValue g))" using cd g(1) by (auto simp: codec_ok_def)
  have "vals (copyValues (formValue g) (copyValues q0 [])) ''model'' = map (\<lambda>_. v) (vals (formValue f) ''model'')"
    using vals_query_form [OF q0 dg] by (simp add: q0m g(2) vals_renamedForm)
  then have "Get (copyValues (formValue g) (copyValues q0 [])) ''model'' = v"
    using fm by (cases "vals (formValue f) ''model''") (simp_all add: Get_def)
  moreover have "ParseMultipartForm cd r2 = (True, r2\<lparr>Form := Some (copyValues (formValue g) (copyValues q0 [])),
            PostForm := Some (copyValues (formValue g) []), MultipartForm := Some g\<rparr>)"
    using multipart_read [of r2 b' cd True q0 qok] sel kind ct ct2 g(1) q0 qok by simp
  ultimately show ?thesis
    using m kind sel by (simp add: ExtractModel_def extractContext_def FormValue_def formOf_def requestData_def)
qed

lemma json_replacement:
  assumes "codec_ok cd" "Method r \<noteq> ''GET''" "isJson r" "replaceInBody cd v r = (None, r2)"
  shows "fst (ExtractModel cd r2) = Inr v"
proof -
  from assms(3,4) obtain b b' where b: "jsonSetModel cd b v = Some b'"
    and r2: "r2 = invalidateRequestContext (replaceRequestBody b' r)"
    by (auto simp: replaceInBody_def split: option.splits)
  have "jsonModel cd b' = v" using assms(1) b by (simp add: codec_ok_def)
  then show ?thesis
    using assms(2,3) by (simp add: r2 ExtractModel_def extractContext_def requestData_def)
qed

lemma query_model_replaced:
  assumes "Method r = ''GET''" "fst (ExtractModel cd r) = Inr model" "model \<noteq> []"
  shows "fst (ExtractModel cd (replaceInQuery v r)) = Inr v"
  using assms query_replacement [of "Request.RawQuery r" "''model''" v]
  by (simp add: ExtractModel_def extractContext_def requestData_def replaceInQuery_def Let_def)

lemma replace_cases:
  assumes "ExtractModel cd r = (Inr model, r1)" "\<not> hasPrefix (Path r) ''/upstream/''"
  shows "ReplaceRequestModel cd model v r =
    (if Method r = ''GET'' then (None, replaceInQuery v r1) else replaceInBody cd v r1)"
proof -
  have "forms_only r r1" using assms(1) extract_forms_only by (auto simp: ExtractModel_Inr)
  then show ?thesis using assms by (simp add: ReplaceRequestModel_def forms_only_sel)
qed

lemma replace_after_extract:
  assumes "ExtractModel cd r = (Inr model, r1)" "\<not> hasPrefix (Path r) ''/upstream/''"
  shows "ReplaceRequestModel cd model v r1 = ReplaceRequestModel cd model v r"
proof -
  have f: "forms_only r r1" using assms(1) extract_forms_only by (auto simp: ExtractModel_Inr)
  have "\<not> hasPrefix (Path r1) ''/upstream/''" using assms(2) by (simp add: forms_only_sel [OF f])
  then show ?thesis
    using replace_cases [OF assms] replace_cases [OF ExtractModel_again [OF assms(1)]] by (simp add: forms_only_sel [OF f])
qed

lemma replacement_read:
  assumes "codec_ok cd" "unparsed r" "rewritable cd r" "ExtractModel cd r = (Inr model, r1)" "model \<noteq> []"
    and rep: "ReplaceRequestModel cd model v r = (None, r2)"
  shows "fst (ExtractModel cd r2) = Inr v"
proof -
  have f: "forms_only r r1" using assms(4) extract_forms_only by (auto simp: ExtractModel_Inr)
  note again = ExtractModel_again [OF assms(4)]
  from assms(3) have path: "\<not> hasPrefix (Path r) ''/upstream/''" by (simp add: rewritable_def)
  note rep = rep [unfolded replace_cases [OF assms(4) path]]
  consider (get) "Method r = ''GET''" | (json) "Method r \<noteq> ''GET''" "isJson r"
    | (multi) "Method r \<noteq> ''GET''" "\<not> isJson r" "isMultipart r"
        "fst (mediaType cd (ContentType r)) = ''multipart/form-data''"
        "vals (fst (ParseQuery (Request.RawQuery r))) ''model'' = []"
    using assms(3) by (auto simp: rewritable_def)
  then show ?thesis
  proof cases
    case get
    then show ?thesis
      using rep query_model_replaced [of r1 cd model v] again assms(5) by (auto simp: forms_only_sel [OF f])
  next
    case json
    then show ?thesis
      using rep json_replacement [OF assms(1), of r1 v r2] by (simp add: forms_only_sel [OF f] kinds_forms [OF f])
  next
    case multi
    then have "replaceInBody cd v r1 = (None, r2)" using rep by simp
    with multi show ?thesis by (rule multipart_replacement [OF assms(1,2) _ _ _ _ _ assms(4,5)])
  qed
qed

text \<open>C24: The model of a request that carries it in the query of a GET request, in a JSON document or
  in a multipart form is the replacement once it has been replaced.\<close>

theorem replaced_model_is_extracted:
  assumes "codec_ok cd" "unparsed r" "rewritable cd r" "ExtractModel cd r = (Inr model, r1)" "model \<noteq> []"
    "ReplaceRequestModel cd model v r = (None, r2)"
  shows "fst (ExtractModel cd r2) = Inr v"
  by (rule replacement_read [OF assms])

definition sampleCodecs :: Codecs where
  "sampleCodecs =
     \<lparr>jsonModel = (\<lambda>b. take (length b - 12) (drop 10 b)), jsonStream = (\<lambda>_. False),
      jsonSetModel = (\<lambda>b v. Some (''{\"model\":\"'' @ v @ ''\"}'')),
      mediaType = (\<lambda>ct. (ct, True)),
      readForm = (\<lambda>ct b. Some \<lparr>formValue = fst (ParseQuery b), formFile = []\<rparr>),
      writeForm = (\<lambda>f.
        if distinct (map fst (formValue f)) \<and> int (length (pairs (formValue f))) \<le> maxParams \<and> formFile f = []
        then Some (''multipart/form-data'', Encode (formValue f)) else None)\<rparr>"

lemma sampleCodecs_ok: "codec_ok sampleCodecs"
proof -
  have "\<exists>g. ParseQuery (Encode vs) = g \<and> (\<forall>k. vals (fst g) k = vals vs k)"
    if "distinct (map fst vs)" "int (length (pairs vs)) \<le> maxParams" for vs
    using ParseQuery_Encode [OF that] by auto
  moreover have "distinct (map fst (fst (ParseQuery b)))" for b
    using ParseQuery_ok [of b "fst (ParseQuery b)" "snd (ParseQuery b)"] by simp
  moreover have "contains ''multipart/form-data'' ''multipart/form-data''"
    "\<not> contains ''multipart/form-data'' ''application/json''" by code_simp+
  ultimately show ?thesis by (simp add: codec_ok_def sampleCodecs_def)
qed

definition samplePost :: "string \<Rightarrow> string \<Rightarrow> Request" where
  "samplePost ct b =
     \<lparr>Method = ''POST'', Path = ''/v1/chat/completions'', upstreamPath = [], RawQuery = [],
      Headers = noHeader(''Content-Type'' := [ct]), Body = Some b, ContentLength = int (length b),
      Form = None, PostForm = None, MultipartForm = None, ReqContext = NoValue, selectorContext = []\<rparr>"

theorem replaced_model_is_extracted_witness:
  "\<exists>r2. ReplaceRequestModel sampleCodecs ''m'' ''n'' (samplePost ''multipart/form-data'' ''model=m&n=1'') = (None, r2) \<and>
     fst (ExtractModel sampleCodecs r2) = Inr ''n''"
proof -
  let ?r = "samplePost ''multipart/form-data'' ''model=m&n=1''"
  obtain r2 where r2: "ReplaceRequestModel sampleCodecs ''m'' ''n'' ?r = (None, r2)"
  proof -
    have "fst (ReplaceRequestModel sampleCodecs ''m'' ''n'' ?r) = None" by code_simp
    then show ?thesis using that by (metis prod.collapse)
  qed
  have ex: "ExtractModel sampleCodecs ?r = (Inr ''m'', snd (ExtractModel sampleCodecs ?r))"
  proof -
    have "fst (ExtractModel sampleCodecs ?r) = Inr ''m''" by code_simp
    then show ?thesis by (metis prod.collapse)
  qed
  have "unparsed ?r" "rewritable sampleCodecs ?r" by (simp add: unparsed_def samplePost_def, code_simp)
  from replaced_model_is_extracted [OF sampleCodecs_ok this ex _ r2] r2 show ?thesis by simp
qed

section \<open>Forms that are not multipart\<close>

text \<open>C28: In a form that is neither JSON nor multipart the replacement reaches the body and not the model
  that is read next: the parsed form kept with the request still holds the old one.\<close>

theorem urlencoded_forms_keep_their_model:
  assumes "Method r \<noteq> ''GET''" "\<not> isJson r" "\<not> isMultipart r" "\<not> hasPrefix (Path r) ''/upstream/''"
    "ExtractModel cd r = (Inr model, r1)" "ReplaceRequestModel cd model v r = (None, r2)"
  shows "fst (ExtractModel cd r2) = Inr model \<and>
    Body r2 = Some (Encode (SetValue ''model'' v (formOf (PostForm r1))))"
proof -
  have f: "forms_only r r1" using assms(5) extract_forms_only by (auto simp: ExtractModel_Inr)
  have "ParseForm cd r = (True, r1)" "model = FormValue r1 ''model''"
    using assms(1-3,5) by (auto simp: ExtractModel_Inr extractContext_def requestData_def split: option.splits if_splits prod.splits)
  moreover from ParseForm_sets [OF this(1)] obtain g p where g: "Form r1 = Some g" "PostForm r1 = Some p" by auto
  ultimately have parsed: "ParseForm cd r1 = (True, r1)" and model: "model = Get g ''model''"
    by (simp_all add: ParseForm_parsed FormValue_def formOf_def)
  let ?post = "SetValue ''model'' v p"
  have r2: "r2 = invalidateRequestContext (replaceRequestBody (Encode ?post) (r1\<lparr>PostForm := Some ?post\<rparr>))"
    using assms(1-3,6) replace_cases [OF assms(5,4), of v]
    by (simp add: replaceInBody_def kinds_forms [OF f] replaceForm_def parsed g formOf_def Let_def)
  have "ParseForm cd r2 = (True, r2)" using g by (intro ParseForm_parsed [of _ g ?post]) (simp_all add: r2)
  moreover have "Method r2 \<noteq> ''GET''" "Form r2 = Some g" "Body r2 = Some (Encode ?post)"
    using assms(1) g by (simp_all add: r2 forms_only_sel [OF f])
  moreover have "ContentType r2 = ContentType r" by (simp add: r2 kinds_forms [OF f])
  then have "\<not> isJson r2" "\<not> isMultipart r2" using assms(2,3) by (simp_all add: isJson_def isMultipart_def)
  ultimately show ?thesis
    by (simp add: ExtractModel_def extractContext_def FormValue_def formOf_def requestData_def model g)
qed

definition formPost :: Request where
  "formPost = samplePost ''application/x-www-form-urlencoded'' ''model=m''"

theorem urlencoded_forms_keep_their_model_witness:
  "\<exists>r2. ReplaceRequestModel sampleCodecs ''m'' ''n'' formPost = (None, r2) \<and>
     fst (ExtractModel sampleCodecs r2) = Inr ''m'' \<and> Body r2 = Some ''model=n''"
proof -
  let ?x = "ExtractModel sampleCodecs formPost"
  let ?y = "ReplaceRequestModel sampleCodecs ''m'' ''n'' formPost"
  have "fst ?x = Inr ''m''" "fst ?y = None" by code_simp+
  then have ex: "?x = (Inr ''m'', snd ?x)" "?y = (None, snd ?y)" by (metis prod.collapse)+
  have kind: "Method formPost \<noteq> ''GET''" "\<not> isJson formPost" "\<not> isMultipart formPost"
      "\<not> hasPrefix (Path formPost) ''/upstream/''" by code_simp+
  have "Encode (SetValue ''model'' ''n'' (formOf (PostForm (snd ?x)))) = ''model=n''" by code_simp
  with urlencoded_forms_keep_their_model [OF kind ex] ex(2) show ?thesis by (metis prod.collapse snd_conv)
qed

section \<open>Authorisation\<close>

text \<open>C26: With API keys required, a request that shows none of them gets the 401 response of every route
  registered behind the authorisation, whatever the rest of the chain and the handler are, and nothing
  of the server changes; the open routes are the health checks, the redirects and the icon.\<close>

theorem unauthorized_requests_go_nowhere:
  assumes "RequiredAPIKeys c \<noteq> []" "ExtractAPIKey r \<notin> set (RequiredAPIKeys c)"
  shows "(\<forall>kind final. kind = OpenRoute \<or>
      Then (chainOf cd c rt tracking jsonFilter metrics kind) final s h r =
        (s, SendResponse (headerSet ''Www-Authenticate'' ''Basic realm=\"llemon-swap\"'' h) r 401
              ''unauthorized: invalid or missing API key'')) \<and>
    map fst (filter (\<lambda>p. snd p = OpenRoute) routes) =
      [''GET /health'', ''GET /ready'', ''GET /wol-health'', ''GET /{$}'', ''GET /favicon.ico'', ''GET /upstream'']"
proof (intro conjI allI)
  fix kind and final :: "'a handler"
  show "kind = OpenRoute \<or> Then (chainOf cd c rt tracking jsonFilter metrics kind) final s h r =
        (s, SendResponse (headerSet ''Www-Authenticate'' ''Basic realm=\"llemon-swap\"'' h) r 401
              ''unauthorized: invalid or missing API key'')"
    using assms by (cases kind) (simp_all add: chainOf_def CreateAuthMiddleware_def)
  show "map fst (filter (\<lambda>p. snd p = OpenRoute) routes) =
      [''GET /health'', ''GET /ready'', ''GET /wol-health'', ''GET /{$}'', ''GET /favicon.ico'', ''GET /upstream'']"
    by code_simp
qed

definition guardedConfig :: Config where
  "guardedConfig = sampleLoaded\<lparr>RequiredAPIKeys := [''key'']\<rparr>"

theorem unauthorized_requests_go_nowhere_witness:
  "\<forall>(rt :: unit LocalRouter) final s.
     Then (chainOf sampleCodecs guardedConfig rt id id id ModelRoute) final s noHeader formPost =
       (s, SendResponse (headerSet ''Www-Authenticate'' ''Basic realm=\"llemon-swap\"'' noHeader) formPost 401
             ''unauthorized: invalid or missing API key'')"
proof (intro allI)
  fix rt :: "unit LocalRouter" and final :: "unit handler" and s :: "unit Server"
  have "RequiredAPIKeys guardedConfig \<noteq> []" by (simp add: guardedConfig_def)
  moreover have "ExtractAPIKey formPost = []" by code_simp
  then have "ExtractAPIKey formPost \<notin> set (RequiredAPIKeys guardedConfig)" by (simp add: guardedConfig_def)
  ultimately show "Then (chainOf sampleCodecs guardedConfig rt id id id ModelRoute) final s noHeader formPost =
       (s, SendResponse (headerSet ''Www-Authenticate'' ''Basic realm=\"llemon-swap\"'' noHeader) formPost 401
             ''unauthorized: invalid or missing API key'')"
    using unauthorized_requests_go_nowhere
      [of guardedConfig formPost sampleCodecs rt id id id s noHeader] by (metis route_chain.distinct(5))
qed

section \<open>Peers\<close>

lemma fqnRoutes_iff:
  assumes "inj_on (\<lambda>(p, m). PeerModelFQN p m) (set pms)"
  shows "fqnRoutes pms model = Some pm \<longleftrightarrow> pm \<in> set pms \<and> (\<lambda>(p, m). PeerModelFQN p m) pm = model"
  using assms
proof (induction pms rule: rev_induct)
  case Nil
  then show ?case by (simp add: fqnRoutes_def)
next
  case (snoc x xs)
  have "inj_on (\<lambda>(p, m). PeerModelFQN p m) (set xs)" using snoc.prems by (simp add: inj_on_def)
  note IH = snoc.IH [OF this]
  have "fqnRoutes (xs @ [x]) = (fqnRoutes xs)((\<lambda>(p, m). PeerModelFQN p m) x \<mapsto> x)"
    by (cases x) (simp add: fqnRoutes_def)
  then show ?case using snoc.prems IH by (auto simp: inj_on_def)
qed

lemma bareRoutes_single:
  assumes "distinct pms"
  shows "bareRoutes pms model = [pm] \<longleftrightarrow> pm \<in> set pms \<and> snd pm = model \<and> (\<forall>q\<in>set pms. snd q = model \<longrightarrow> q = pm)"
proof -
  have d: "distinct (bareRoutes pms model)" using assms by (simp add: bareRoutes_def)
  have "bareRoutes pms model = [pm] \<longleftrightarrow> set (bareRoutes pms model) = {pm}"
  proof
    assume "set (bareRoutes pms model) = {pm}"
    moreover from this d have "length (bareRoutes pms model) = 1" by (metis distinct_card is_singletonI is_singleton_altdef)
    ultimately show "bareRoutes pms model = [pm]" by (auto simp: length_Suc_conv)
  qed simp
  then show ?thesis by (auto simp: bareRoutes_def)
qed

text \<open>C29: The routes the peer router is built with send a name exactly where the configuration resolves it.\<close>

theorem peer_routes_follow_the_resolution:
  assumes "NewPeer c = Inr table" "distinct (map fst (Peers c))"
  shows "table = ResolvePeerModel c"
proof
  fix search
  let ?fqn = "\<lambda>(p, m). PeerModelFQN p m" and ?pms = "sortedPairs c"
  from assms(1) obtain ts where ts: "foldE addFQN ?pms [] = Inr ts" and table: "table = peerRoutes ?pms"
    by (auto simp: NewPeer_def ValidatePeerNamespace_def split: sum.splits option.splits)
  have "distinct (map ?fqn ?pms)" using addFQNs [OF ts] by simp
  then have inj: "inj_on ?fqn (set ?pms)" and dist: "distinct ?pms" by (simp_all add: distinct_map)
  have set: "set (peerPairs c) = set ?pms" using set_sortedPairs [OF assms(2)] by simp
  let ?full = "scanPeers (\<lambda>(p, m). PeerModelFQN p m = search) (peerPairs c) None"
  let ?bare = "scanPeers (\<lambda>(p, m). m = search) (peerPairs c) None"
  have single: "?bare = Some (Some pm) \<longleftrightarrow> bareRoutes ?pms search = [pm]" for pm
    unfolding case_prod_unfold scanPeers_found bareRoutes_single [OF dist] set by auto
  show "table search = ResolvePeerModel c search"
  proof (cases "\<exists>pm\<in>set ?pms. ?fqn pm = search")
    case True
    then obtain pm where pm: "pm \<in> set ?pms" "?fqn pm = search" by blast
    then have "fqnRoutes ?pms search = Some pm" by (simp add: fqnRoutes_iff [OF inj])
    moreover have "?full = Some (Some pm)"
    proof (rule scanPeers_unique)
      have "q = pm" if "q \<in> set ?pms" "?fqn q = search" for q using inj_onD [OF inj, of q pm] that pm by simp
      then show "\<forall>q\<in>set (peerPairs c). (case q of (p, m) \<Rightarrow> PeerModelFQN p m = search) \<longrightarrow> q = pm" by (auto simp: set)
    qed (use pm in \<open>auto simp: set\<close>)
    ultimately show ?thesis by (simp add: table peerRoutes_def ResolvePeerModel_def)
  next
    case False
    then have "fqnRoutes ?pms search = None" by (metis fqnRoutes_iff [OF inj] not_None_eq)
    moreover have "?full = Some None" using False by (auto simp: scanPeers_nothing set)
    moreover have "(case bareRoutes ?pms search of [route] \<Rightarrow> Some route | _ \<Rightarrow> None) =
        (case ?bare of None \<Rightarrow> None | Some found \<Rightarrow> found)"
    proof (cases "\<exists>pm. ?bare = Some (Some pm)")
      case True
      then obtain pm where pm: "?bare = Some (Some pm)" by blast
      then have "bareRoutes ?pms search = [pm]" by (simp only: single)
      then show ?thesis by (simp add: pm)
    next
      case F: False
      have "bareRoutes ?pms search \<noteq> [pm]" for pm using F single by blast
      then have "(case bareRoutes ?pms search of [route] \<Rightarrow> Some route | _ \<Rightarrow> None) = None" by (auto split: list.splits)
      moreover from F have "?bare = None \<or> ?bare = Some None" by (metis not_None_eq)
      ultimately show ?thesis by auto
    qed
    ultimately show ?thesis by (simp add: table peerRoutes_def ResolvePeerModel_def)
  qed
qed

theorem peer_routes_follow_the_resolution_witness:
  "\<exists>table. NewPeer sampleLoaded = Inr table \<and> table ''m'' = Some (''far'', ''m'') \<and> table ''far/m'' = Some (''far'', ''m'')"
proof -
  from sample_loads have "ValidatePeerNamespace sampleLoaded = None" by (rule LoadConfig_Inr)
  then obtain table where t: "NewPeer sampleLoaded = Inr table" by (auto simp: NewPeer_def)
  have peers: "Peers sampleLoaded = [(''far'', \<lparr>PeerModels = [''m'']\<rparr>)]"
    using sampleLoaded_facts by (simp add: sampleConfig_def)
  have "table = ResolvePeerModel sampleLoaded" by (rule peer_routes_follow_the_resolution [OF t]) (simp add: peers)
  moreover have "ResolvePeerModel sampleLoaded ''m'' = Some (''far'', ''m'')"
    "ResolvePeerModel sampleLoaded ''far/m'' = Some (''far'', ''m'')"
    by (simp_all add: ResolvePeerModel_def peerPairs_def peers PeerModelFQN_def)
  ultimately show ?thesis using t by simp
qed

section \<open>The longest name wins\<close>

definition pinMatches :: "string \<Rightarrow> string \<Rightarrow> bool" where
  "pinMatches up pin \<longleftrightarrow> pin \<noteq> [] \<and> (up = pin \<or> hasPrefix up (pin @ ''/''))"

lemma pinMatches_take: "pinMatches up pin \<Longrightarrow> take (length pin) up = pin"
  unfolding pinMatches_def hasPrefix_append by fastforce

lemma considerPins:
  "fold (considerPin up) pins ([], []) = (m, v) \<Longrightarrow>
     (m, v) \<in> insert ([], []) {(p, w) \<in> set pins. pinMatches up p} \<and>
     (\<forall>p w. (p, w) \<in> set pins \<longrightarrow> pinMatches up p \<longrightarrow> length p \<le> length m)"
proof (induction pins arbitrary: m v rule: rev_induct)
  case (snoc x xs)
  obtain p w where x: "x = (p, w)" by force
  obtain n u where fold: "fold (considerPin up) xs ([], []) = (n, u)" by force
  note IH = snoc.IH [OF fold]
  have step: "(m, v) = (if (up = p \<or> hasPrefix up (p @ ''/'')) \<and> length n < length p then (p, w) else (n, u))"
  proof -
    have "considerPin up x (n, u) = (m, v)" using snoc.prems by (simp add: fold)
    then show ?thesis by (simp add: considerPin_def x)
  qed
  show ?case
  proof (cases "(up = p \<or> hasPrefix up (p @ ''/'')) \<and> length n < length p")
    case True
    then have "pinMatches up p" by (auto simp: pinMatches_def)
    with True step IH show ?thesis by (auto simp: x intro: order_trans less_imp_le)
  next
    case False
    then have "pinMatches up p \<Longrightarrow> length p \<le> length n" by (auto simp: pinMatches_def)
    with False step IH show ?thesis by (auto simp: x)
  qed
qed simp

text \<open>The pin of an upstream path is the longest one that is the path or leads it at a slash, in
  whatever order the map of pins is gone through.\<close>

theorem longest_pin_wins:
  assumes "distinct (map fst pins)"
  shows "upstreamProfilePin up pins = Some (m, v) \<longleftrightarrow>
    (m, v) \<in> set pins \<and> pinMatches (trimSlash up) m \<and>
    (\<forall>p w. (p, w) \<in> set pins \<longrightarrow> pinMatches (trimSlash up) p \<longrightarrow> length p \<le> length m)"
proof -
  let ?up = "trimSlash up"
  obtain n u where fold: "fold (considerPin ?up) pins ([], []) = (n, u)" by force
  note spec = considerPins [OF fold]
  have res: "upstreamProfilePin up pins = (if n \<noteq> [] then Some (n, u) else None)"
    by (simp add: upstreamProfilePin_def fold)
  show ?thesis
  proof
    assume "upstreamProfilePin up pins = Some (m, v)"
    with res have "n = m" "u = v" "m \<noteq> []" by (auto split: if_splits)
    with spec show "(m, v) \<in> set pins \<and> pinMatches ?up m \<and>
        (\<forall>p w. (p, w) \<in> set pins \<longrightarrow> pinMatches ?up p \<longrightarrow> length p \<le> length m)" by auto
  next
    assume m: "(m, v) \<in> set pins \<and> pinMatches ?up m \<and>
        (\<forall>p w. (p, w) \<in> set pins \<longrightarrow> pinMatches ?up p \<longrightarrow> length p \<le> length m)"
    then have "length m \<le> length n" using spec by blast
    moreover have "m \<noteq> []" using m by (simp add: pinMatches_def)
    ultimately have n: "n \<noteq> []" "(n, u) \<in> set pins" "pinMatches ?up n" using spec by auto
    with m \<open>length m \<le> length n\<close> have "length n = length m" by (meson le_antisym)
    moreover have "take (length n) ?up = n" "take (length m) ?up = m"
      using n(3) m by (blast intro: pinMatches_take)+
    ultimately have "n = m" by metis
    moreover have "u = v" using eq_key_imp_eq_value [OF assms n(2), of v] m \<open>n = m\<close> by blast
    ultimately show "upstreamProfilePin up pins = Some (m, v)" using res n by simp
  qed
qed

definition samplePins :: "(string \<times> string) list" where
  "samplePins = [(''a'', ''x''), (''a/b'', ''y''), (''a/bc'', ''z'')]"

theorem longest_pin_wins_witness: "upstreamProfilePin ''/a/b/v1/models'' samplePins = Some (''a/b'', ''y'')"
proof -
  let ?up = "trimSlash ''/a/b/v1/models''"
  have all: "list_all (\<lambda>(p, w). pinMatches ?up p \<longrightarrow> length p \<le> length ''a/b'') samplePins" by code_simp
  have "length p \<le> length ''a/b''" if "(p, w) \<in> set samplePins" "pinMatches ?up p" for p w
    using bspec [OF all [unfolded list_all_iff] that(1)] that(2) by simp
  then have longest: "\<forall>p w. (p, w) \<in> set samplePins \<longrightarrow> pinMatches ?up p \<longrightarrow> length p \<le> length ''a/b''" by blast
  have "distinct (map fst samplePins)" "pinMatches ?up ''a/b''" by code_simp+
  moreover have "(''a/b'', ''y'') \<in> set samplePins" by (simp add: samplePins_def)
  ultimately show ?thesis using longest by (intro iffD2 [OF longest_pin_wins] conjI)
qed

end
