(* ===== verification/Http_Flow.thy ===== *)
theory Http_Flow
  imports Http_Props
begin

text \<open>
  Requests through the chain of a model route: what reaches the handlers behind a profile pin, what a
  selector's middleware leaves in its tracker, and which name of a path is taken for its model.
\<close>

section \<open>Profile pins\<close>

lemma invalidate_unstored: "(\<forall>d. ReqContext r \<noteq> Stored d) \<Longrightarrow> ReqContext (invalidateRequestContext r) = ReqContext r"
  by (auto simp: invalidateRequestContext_def split: ctx_value.splits)

lemma unstored_body:
  "(\<forall>d. ReqContext r \<noteq> Stored d) \<Longrightarrow>
     ReqContext (invalidateRequestContext (replaceRequestBody b r)) = ReqContext r"
  by (simp add: invalidate_unstored)

lemma replaceInBody_keeps:
  assumes "replaceInBody cd v r = (None, r2)" "\<forall>d. ReqContext r \<noteq> Stored d"
  shows "Path r2 = Path r \<and> ReqContext r2 = ReqContext r"
proof -
  obtain ok1 u1 where u1: "ParseMultipartForm cd r = (ok1, u1)" by force
  obtain ok2 u2 where u2: "ParseForm cd r = (ok2, u2)" by force
  have f: "forms_only r u1" "forms_only r u2" using ParseMultipartForm_sets [OF u1] ParseForm_sets [OF u2] by simp_all
  note sel = forms_only_sel [OF f(1)] forms_only_sel [OF f(2)]
  show ?thesis
  proof (cases "isJson r")
    case True
    then show ?thesis using assms by (auto simp: replaceInBody_def unstored_body split: option.splits)
  next
    case False
    show ?thesis
    proof (cases "isMultipart r")
      case True
      then show ?thesis using assms False
        by (auto simp: replaceInBody_def u1 invalidate_unstored sel split: if_splits option.splits)
    next
      case F: False
      then show ?thesis using assms False
        by (auto simp: replaceInBody_def replaceForm_def u2 Let_def invalidate_unstored sel split: if_splits)
    qed
  qed
qed

lemma replace_keeps:
  assumes "ExtractModel cd r = (Inr model, r1)" "\<not> hasPrefix (Path r) ''/upstream/''"
    and rep: "ReplaceRequestModel cd model v r = (None, r2)" and un: "\<forall>d. ReqContext r \<noteq> Stored d"
  shows "Path r2 = Path r \<and> ReqContext r2 = ReqContext r"
proof -
  have f: "forms_only r r1" using assms(1) extract_forms_only by (auto simp: ExtractModel_Inr)
  note sel = forms_only_sel [OF f]
  have un1: "\<forall>d. ReqContext r1 \<noteq> Stored d" using un by (simp add: sel)
  show ?thesis
  proof (cases "Method r = ''GET''")
    case True
    then have "r2 = replaceInQuery v r1" using rep by (simp add: replace_cases [OF assms(1,2)])
    then show ?thesis using un1 by (simp add: replaceInQuery_def invalidate_unstored sel)
  next
    case False
    then have "replaceInBody cd v r1 = (None, r2)" using rep by (simp add: replace_cases [OF assms(1,2)])
    from replaceInBody_keeps [OF this un1] show ?thesis by (simp add: sel)
  qed
qed

lemma fst_eqD: "fst p = a \<Longrightarrow> \<exists>b. p = (a, b)"
  by (cases p) simp


definition pinnedConfig :: Config where
  "pinnedConfig = sampleLoaded\<lparr>Profiles := [(''night'', \<lparr>Pins = [(''m'', ''x'')]\<rparr>)], RequiredAPIKeys := []\<rparr>"

definition sampleServer :: "tracker \<Rightarrow> unit Server" where
  "sampleServer tr = \<lparr>activeProfile = ''night'', spillovers = tr, peerDown = False, localState = ()\<rparr>"

definition idleHandler :: "unit handler" where
  "idleHandler s h r = (s, \<lparr>status = 200, respHeader = h, payload = Bytes []\<rparr>)"

definition sampleRouter :: "unit LocalRouter" where
  "sampleRouter = \<lparr>RunningModels = (\<lambda>_ _. None), localHandles = (\<lambda>_. True), localServe = idleHandler\<rparr>"

definition jsonPost :: "string \<Rightarrow> Request" where
  "jsonPost m = samplePost ''application/json'' (''{\"model\":\"'' @ m @ ''\"}'')"

lemma jsonPost_facts:
  "unparsed (jsonPost m)" "rewritable sampleCodecs (jsonPost m)" "ReqContext (jsonPost m) = NoValue"
  "ExtractModel sampleCodecs (jsonPost m) = (Inr m, jsonPost m)"
  "fst (ReplaceRequestModel sampleCodecs m v (jsonPost m)) = None"
proof -
  have kind: "isJson (jsonPost m)" "\<not> hasPrefix (Path (jsonPost m)) ''/upstream/''"
    by (simp_all add: isJson_def ContentType_def jsonPost_def samplePost_def headerGet_def noHeader_def)
  then show "unparsed (jsonPost m)" "rewritable sampleCodecs (jsonPost m)" "ReqContext (jsonPost m) = NoValue"
    by (simp_all add: unparsed_def rewritable_def jsonPost_def samplePost_def)
  have post: "Method (jsonPost m) = ''POST''" "Body (jsonPost m) = Some (''{\"model\":\"'' @ m @ ''\"}'')"
    by (simp_all add: jsonPost_def samplePost_def)
  show ex: "ExtractModel sampleCodecs (jsonPost m) = (Inr m, jsonPost m)"
    using kind post by (simp add: ExtractModel_def extractContext_def requestData_def sampleCodecs_def)
  show "fst (ReplaceRequestModel sampleCodecs m v (jsonPost m)) = None"
    unfolding replace_cases [OF ex kind(2)] using kind post by (simp add: replaceInBody_def sampleCodecs_def)
qed


section \<open>Selectors\<close>

lemma choose_release:
  assumes "tracked c sel st out" "distinct (map (resolvedTarget c) (Targets sel))" "1 \<le> Spillover sel"
    and "chooseTarget i run st = Inr (t, st')"
  shows "inflight (releaseTarget t st') = inflight st"
proof -
  from tracked_ok [OF assms(1-3)] have ok: "targets st = map (trackedTarget c) (Targets sel)" "spillover st = Spillover sel"
    "\<forall>t\<in>set (targets st). inflight st (modelID t) = int (count_list out (target t))"
    by (auto simp: tracker_ok_def)
  then have nonneg: "\<forall>t\<in>set (targets st). 0 \<le> inflight st (modelID t)" by simp
  from chooseTarget_spec [OF assms(4) nonneg] assms(3) ok(2) obtain u where
    u: "u \<in> set (targets st)" "target u = t" "targets st' = targets st" "inflight st' = bump (modelID u) 1 (inflight st)"
    by auto
  have "releaseFirst t (targets st') (inflight st') = bump (modelID u) (- 1) (inflight st')"
  proof (rule releaseFirst_unique)
    show "u \<in> set (targets st')" "target u = t" using u by simp_all
    show "0 < inflight st' (modelID u)" using nonneg u(1,4) by (force simp: bump_apply)
    show "\<forall>w\<in>set (targets st'). target w = t \<longrightarrow> w = u" using u by (auto simp: ok(1))
  qed
  then show ?thesis by (auto simp: releaseTarget_def u(4) bump_apply)
qed

text \<open>C27: When the rest of the chain leaves the trackers as it finds them, so does a selector's
  middleware: the target it reserved is released on every path, errors included.\<close>

theorem selectors_return_their_reservations:
  assumes "LoadConfig env c0 = Inr c" "distinct (map fst (Selectors c))"
    and tr: "\<forall>i st. spillovers s i = Some st \<longrightarrow>
      (\<exists>sel out. (i, sel) \<in> set (Selectors c) \<and> Strategy sel = ''spillover'' \<and> tracked c sel st out)"
    and nxt: "\<forall>s h r. spillovers (fst (next s h r)) = spillovers s"
  shows "map_option inflight (spillovers (fst (CreateSelectorMiddleware cd c rt next s h r)) i) =
    map_option inflight (spillovers s i)"
proof -
  have same: "spillovers (fst (next s h r)) = spillovers s" for r using nxt by blast
  have spill: "map_option inflight (release_spillover model t tracker i) = map_option inflight (spillovers s i)"
    if sel: "map_of (Selectors c) model = Some sel" "Strategy sel = ''spillover''"
      and choice: "selectTarget c run model sel (spillovers s) = Inr (t, tracker)" for model sel run t tracker
  proof -
    from choice sel(2) obtain st st' where st: "spillovers s model = Some st"
      "chooseTarget model run st = Inr (t, st')" "tracker = (spillovers s)(model \<mapsto> st')"
      by (auto simp: selectTarget_def strategySpillover_def split: option.splits sum.splits)
    from tr st(1) obtain sel' out where t: "(model, sel') \<in> set (Selectors c)" "tracked c sel' st out" by blast
    have "sel' = sel" using t(1) sel(1) assms(2) by simp
    moreover have "(model, sel) \<in> set (Selectors c)" using sel(1) by (rule map_of_SomeD)
    ultimately have "inflight (releaseTarget t st') = inflight st"
      using accepted_selector [OF assms(1) _ sel(2)] choose_release [OF t(2) _ _ st(2)] by blast
    then show ?thesis by (simp add: st release_spillover_def)
  qed
  have other: "tracker = spillovers s"
    if "selectTarget c run model sel (spillovers s) = Inr (t, tracker)" "Strategy sel \<noteq> ''spillover''" for run model sel t tracker
    using that by (auto simp: selectTarget_def split: if_splits sum.splits)
  show ?thesis
    using same nxt
    by (auto simp: CreateSelectorMiddleware_def releaseIfSpillover_def Let_def case_prod_unfold dest: other
        intro: spill split: sum.splits option.splits if_splits)
qed

theorem selectors_return_their_reservations_witness:
  "map_option inflight (spillovers (fst (CreateSelectorMiddleware sampleCodecs sampleLoaded sampleRouter idleHandler
     (sampleServer [''any'' \<mapsto> newTrackerState sampleLoaded sampleSel]) noHeader (jsonPost ''any''))) ''any'') =
   Some (\<lambda>_. 0)"
proof -
  let ?s = "sampleServer [''any'' \<mapsto> newTrackerState sampleLoaded sampleSel]"
  have "\<forall>i st. spillovers ?s i = Some st \<longrightarrow>
      (\<exists>sel out. (i, sel) \<in> set (Selectors sampleLoaded) \<and> Strategy sel = ''spillover'' \<and> tracked sampleLoaded sel st out)"
  proof (intro allI impI)
    fix i st assume "spillovers ?s i = Some st"
    then have "i = ''any''" "st = newTrackerState sampleLoaded sampleSel"
      by (simp_all add: sampleServer_def split: if_splits)
    moreover have "Strategy sampleSel = ''spillover''" by (simp add: sampleSel_def)
    ultimately show "\<exists>sel out. (i, sel) \<in> set (Selectors sampleLoaded) \<and> Strategy sel = ''spillover'' \<and>
        tracked sampleLoaded sel st out"
      using sampleSel_listed tracked.fresh by blast
  qed
  moreover have "\<forall>s h r. spillovers (fst (idleHandler s h r)) = spillovers s" by (simp add: idleHandler_def)
  moreover have "distinct (map fst (Selectors sampleLoaded))"
    using sampleLoaded_facts by (simp add: sampleConfig_def)
  ultimately show ?thesis
    by (subst selectors_return_their_reservations [OF sample_loads]) (simp_all add: sampleServer_def newTrackerState_def)
qed

section \<open>Models in paths\<close>

definition pathNames :: "string \<Rightarrow> string list" where
  "pathNames path = filter (\<lambda>p. p \<noteq> []) (splitChar (CHR ''/'') (trimSpace path))"

definition leadingName :: "string list \<Rightarrow> nat \<Rightarrow> string" where
  "leadingName ps k = joinWith ''/'' (take k ps)"

lemma joinWith_snoc: "ps \<noteq> [] \<Longrightarrow> joinWith sep (ps @ [p]) = joinWith sep ps @ sep @ p"
proof (induction ps)
  case (Cons q ps)
  then show ?case by (cases ps) simp_all
qed simp

lemma joinWith_empty: "\<forall>p\<in>set ps. p \<noteq> [] \<Longrightarrow> joinWith sep ps = [] \<longleftrightarrow> ps = []"
  by (cases ps rule: list.exhaust; cases "tl ps") (auto simp: joinWith_Cons)

lemma find_snoc: "List.find P (xs @ [x]) = (case List.find P xs of Some y \<Rightarrow> Some y | None \<Rightarrow> if P x then Some x else None)"
  by (induction xs) auto

definition longestName :: "(string \<Rightarrow> string option) \<Rightarrow> string list \<Rightarrow> nat \<Rightarrow> (string \<times> string) option" where
  "longestName resolve ps k =
     (case List.find (\<lambda>n. resolve n \<noteq> None) (map (leadingName ps) (rev [Suc k..<Suc (length ps)])) of
        None \<Rightarrow> None | Some n \<Rightarrow> Some (n, the (resolve n)))"

lemma longestName_step:
  assumes "k < length ps"
  shows "longestName resolve ps k =
    (case longestName resolve ps (Suc k) of
       Some ni \<Rightarrow> Some ni
     | None \<Rightarrow> map_option (Pair (leadingName ps (Suc k))) (resolve (leadingName ps (Suc k))))"
proof -
  have "rev [Suc k..<Suc (length ps)] = rev [Suc (Suc k)..<Suc (length ps)] @ [Suc k]"
    using assms by (simp add: upt_rec [of "Suc k"])
  then show ?thesis by (auto simp: longestName_def find_snoc split: option.splits)
qed

lemma walkPath_longest:
  assumes "\<forall>p\<in>set walked. p \<noteq> []" "ps = walked @ filter (\<lambda>p. p \<noteq> []) parts"
  shows "map_option (\<lambda>(n, i, _). (n, i)) (walkPath resolve (joinWith ''/'' walked) parts found) =
    (case longestName resolve ps (length walked) of
       Some ni \<Rightarrow> Some ni | None \<Rightarrow> map_option (\<lambda>(n, i, _). (n, i)) found)"
  using assms
proof (induction parts arbitrary: walked found)
  case Nil
  then show ?case by (simp add: longestName_def)
next
  case (Cons part parts)
  show ?case
  proof (cases "part = []")
    case True
    then show ?thesis using Cons by simp
  next
    case False
    let ?now = "joinWith ''/'' (walked @ [part])"
    have now: "(if joinWith ''/'' walked = [] then part else joinWith ''/'' walked @ ''/'' @ part) = ?now"
      using joinWith_empty [OF Cons.prems(1)] by (cases "walked = []") (simp_all add: joinWith_snoc)
    have prems: "\<forall>p\<in>set (walked @ [part]). p \<noteq> []" "ps = (walked @ [part]) @ filter (\<lambda>p. p \<noteq> []) parts"
      using Cons.prems False by simp_all
    let ?found = "case resolve ?now of Some m \<Rightarrow> Some (?now, m, ''/'' @ joinWith ''/'' parts) | None \<Rightarrow> found"
    have step: "walkPath resolve (joinWith ''/'' walked) (part # parts) found = walkPath resolve ?now parts ?found"
      using False now by (simp add: Let_def)
    have "leadingName ps (Suc (length walked)) = ?now" by (simp add: prems(2) leadingName_def)
    moreover have "length walked < length ps" by (simp add: prems(2))
    ultimately show ?thesis
      unfolding step Cons.IH [OF prems] by (auto simp: longestName_step split: option.splits)
  qed
qed

text \<open>The model of an upstream path is the longest name it starts with that resolves: the search goes on
  after a match, although the comment of \<^verbatim>\<open>FindModelInPath\<close> says it builds up segments until one
  matches.\<close>

theorem longest_name_in_path_wins:
  "map_option (\<lambda>(n, i, _). (n, i)) (FindModelInPath c path) = longestName (ResolveBaseModel c) (pathNames path) 0"
  using walkPath_longest [of "[]" "pathNames path" "splitChar (CHR ''/'') (trimSpace path)" "ResolveBaseModel c" None]
  by (simp add: FindModelInPath_def pathNames_def split: option.splits)

section \<open>Where the model is read from again\<close>

text \<open>A multipart request with the model in its query as well keeps it: the query comes first in the parsed
  form and is not rewritten.\<close>

theorem query_model_outlives_replacement:
  "fst (ExtractModel sampleCodecs (snd (ReplaceRequestModel sampleCodecs ''m'' ''n''
     (samplePost ''multipart/form-data'' ''model=m''\<lparr>Request.RawQuery := ''model=m''\<rparr>)))) = Inr ''m''"
  by code_simp

text \<open>A form that cannot be parsed is an error the first time only: the second time the part that could be
  parsed is in the request and is taken. The profile middleware ignores the error, so a pin does not apply
  to such a request, which the middleware after it routes nevertheless.\<close>

theorem malformed_form_is_read_the_second_time:
  "(let r = samplePost ''application/x-www-form-urlencoded'' ''model=m&x=%zz'';
        (first, r1) = ExtractModel sampleCodecs r; (second, r2) = ExtractModel sampleCodecs r1 in
     (first, second) = (Inl FormUnparsable, Inr ''m''))"
  by code_simp

end
