(* ===== verification/Watcher.thy ===== *)
theory Watcher
  imports Go_Text
begin

text \<open>
  \<^verbatim>\<open>internal/watcher\<close>: the file watcher (\<^verbatim>\<open>watcher.go\<close>) and the directory watcher (\<^verbatim>\<open>dirwatcher.go\<close>).
  What a poll finds is an observation: of a file its modification time and size, if it can be read;
  of a directory its entries, if it can be listed. A run is the sequence of its polls after the
  baseline, and its result says for each tick of the timer whether \<^verbatim>\<open>OnChange\<close> is called.
\<close>

section \<open>Files\<close>

record snapshot =
  present :: bool
  modTime :: int
  size_of :: int

type_synonym file_obs = "(int \<times> int) option"

definition stat :: "file_obs \<Rightarrow> snapshot" where
  "stat obs =
     (case obs of
        None \<Rightarrow> \<lparr>present = False, modTime = 0, size_of = 0\<rparr>
      | Some (t, z) \<Rightarrow> \<lparr>present = True, modTime = t, size_of = z\<rparr>)"

definition changed :: "snapshot \<Rightarrow> snapshot \<Rightarrow> bool" where
  "changed prev cur \<longleftrightarrow>
     (if \<not> present cur then False
      else if \<not> present prev then True
      else modTime prev \<noteq> modTime cur \<or> size_of prev \<noteq> size_of cur)"

fun watchLoop :: "snapshot \<Rightarrow> file_obs list \<Rightarrow> bool list" where
  "watchLoop prev [] = []"
| "watchLoop prev (obs # rest) = changed prev (stat obs) # watchLoop (stat obs) rest"

definition watchRun :: "file_obs \<Rightarrow> file_obs list \<Rightarrow> bool list" where
  "watchRun baseline polls = watchLoop (stat baseline) polls"

section \<open>Directories\<close>

record dirSnapshot =
  readable :: bool
  names :: "string list"
  states :: "string \<rightharpoonup> snapshot"

text \<open>An entry: its name, whether it is a directory, and what \<^verbatim>\<open>os.Stat\<close> finds.\<close>

type_synonym entry = "string \<times> bool \<times> file_obs"
type_synonym dir_obs = "entry list option"

definition isYaml :: "string \<Rightarrow> bool" where
  "isYaml n \<longleftrightarrow> hasSuffix n ''.yml'' \<or> hasSuffix n ''.yaml''"

definition scanEntry :: "entry \<Rightarrow> dirSnapshot \<Rightarrow> dirSnapshot" where
  "scanEntry = (\<lambda>(n, isDir, obs) snap.
     if isDir then snap
     else if \<not> isYaml n then snap
     else case obs of
       None \<Rightarrow> snap
     | Some _ \<Rightarrow> snap\<lparr>names := names snap @ [n], states := (states snap)(n \<mapsto> stat obs)\<rparr>)"

definition newDirSnapshot :: dirSnapshot where
  "newDirSnapshot = \<lparr>readable = False, names = [], states = Map.empty\<rparr>"

definition scanDir :: "dir_obs \<Rightarrow> dirSnapshot" where
  "scanDir obs =
     (case obs of
        None \<Rightarrow> newDirSnapshot
      | Some entries \<Rightarrow>
          (let snap = fold scanEntry entries (newDirSnapshot\<lparr>readable := True\<rparr>) in
           snap\<lparr>names := sort (names snap)\<rparr>))"

text \<open>The state of a name the map does not have is the zero snapshot.\<close>

definition stateIn :: "dirSnapshot \<Rightarrow> string \<Rightarrow> snapshot" where
  "stateIn s n = (case states s n of Some st \<Rightarrow> st | None \<Rightarrow> \<lparr>present = False, modTime = 0, size_of = 0\<rparr>)"

definition sameState :: "snapshot \<Rightarrow> snapshot \<Rightarrow> bool" where
  "sameState a b \<longleftrightarrow> \<not> (present a \<noteq> present b \<or> size_of a \<noteq> size_of b \<or> modTime a \<noteq> modTime b)"

definition snapshotsEqual :: "dirSnapshot \<Rightarrow> dirSnapshot \<Rightarrow> bool" where
  "snapshotsEqual s t \<longleftrightarrow>
     (if \<not> readable s \<and> \<not> readable t then True
      else if readable s \<noteq> readable t then False
      else if length (names s) \<noteq> length (names t) then False
      else if \<not> list_all2 (=) (names s) (names t) then False
      else list_all (\<lambda>n. sameState (stateIn s n) (stateIn t n)) (names s))"

definition hasContent :: "dirSnapshot \<Rightarrow> bool" where
  "hasContent s \<longleftrightarrow> readable s \<and> names s \<noteq> []"

fun dirLoop :: "dirSnapshot \<Rightarrow> dir_obs list \<Rightarrow> bool list" where
  "dirLoop prev [] = []"
| "dirLoop prev (obs # rest) =
     (let cur = scanDir obs in
      (hasContent cur \<and> (\<not> hasContent prev \<or> \<not> snapshotsEqual prev cur)) # dirLoop cur rest)"

definition dirRun :: "dir_obs \<Rightarrow> dir_obs list \<Rightarrow> bool list" where
  "dirRun baseline polls = dirLoop (scanDir baseline) polls"

section \<open>What a run reports\<close>

text \<open>The watched files of a directory with what is known of them; the names of a directory are distinct.\<close>

definition watched :: "dir_obs \<Rightarrow> (string \<times> int \<times> int) list" where
  "watched obs =
     (case obs of
        None \<Rightarrow> []
      | Some entries \<Rightarrow>
          concat (map (\<lambda>(n, isDir, st). if isDir \<or> \<not> isYaml n then [] else map (Pair n) (case st of Some tz \<Rightarrow> [tz] | None \<Rightarrow> []))
            entries))"

definition one_name :: "dir_obs \<Rightarrow> bool" where
  "one_name obs \<longleftrightarrow> (case obs of None \<Rightarrow> True | Some entries \<Rightarrow> distinct (map fst entries))"

lemma changed_stat: "changed (stat p) (stat c) \<longleftrightarrow> c \<noteq> None \<and> c \<noteq> p"
  by (auto simp: changed_def stat_def split: option.splits)

lemma sameState_stat: "sameState (stat a) (stat b) \<longleftrightarrow> a = b"
  by (auto simp: sameState_def stat_def split: option.splits)

lemma fold_scanEntry:
  "fold scanEntry entries snap =
     snap\<lparr>names := names snap @ map fst (watched (Some entries)),
          states := fold (\<lambda>(n, tz) m. m(n \<mapsto> stat (Some tz))) (watched (Some entries)) (states snap)\<rparr>"
  by (induction entries arbitrary: snap) (auto simp: watched_def scanEntry_def split: option.splits)

lemma distinct_watched: "one_name obs \<Longrightarrow> distinct (map fst (watched obs))"
proof (cases obs)
  case (Some entries)
  have sub: "fst ` set (watched (Some es)) \<subseteq> fst ` set es" for es
    by (force simp: watched_def split: if_splits option.splits)
  have "distinct (map fst es) \<Longrightarrow> distinct (map fst (watched (Some es)))" for es
  proof (induction es)
    case (Cons e es)
    obtain n d st where e: "e = (n, d, st)" by (cases e) auto
    have "watched (Some (e # es)) =
        (if d \<or> \<not> isYaml n then [] else map (Pair n) (case st of Some tz \<Rightarrow> [tz] | None \<Rightarrow> [])) @ watched (Some es)"
      by (simp add: watched_def e)
    moreover have "n \<notin> fst ` set (watched (Some es))" using sub [of es] Cons.prems by (auto simp: e)
    ultimately show ?case using Cons by (auto split: option.splits)
  qed (simp add: watched_def)
  moreover assume "one_name obs"
  ultimately show ?thesis by (simp add: Some one_name_def)
qed (simp add: watched_def)

lemma fold_states:
  "distinct (map fst ws) \<Longrightarrow>
     fold (\<lambda>(n, tz) m. m(n \<mapsto> stat (Some tz))) ws m k =
       (case map_of ws k of Some tz \<Rightarrow> Some (stat (Some tz)) | None \<Rightarrow> m k)"
proof (induction ws arbitrary: m)
  case (Cons w ws)
  obtain n tz where w: "w = (n, tz)" by (cases w) auto
  have "map_of ws n = None" using Cons.prems by (simp add: w map_of_eq_None_iff)
  then show ?case using Cons.IH [of "m(n \<mapsto> stat (Some tz))"] Cons.prems by (simp add: w split: option.splits)
qed simp

lemma scan_fields:
  assumes "one_name obs"
  shows "readable (scanDir obs) \<longleftrightarrow> obs \<noteq> None" "names (scanDir obs) = sort (map fst (watched obs))"
    "stateIn (scanDir obs) n = stat (map_of (watched obs) n)"
proof -
  note d = distinct_watched [OF assms]
  have none: "watched None = []" by (simp add: watched_def)
  show "readable (scanDir obs) \<longleftrightarrow> obs \<noteq> None" "names (scanDir obs) = sort (map fst (watched obs))"
    by (cases obs; simp add: none scanDir_def newDirSnapshot_def Let_def fold_scanEntry)+
  have "states (scanDir obs) n = map_option (\<lambda>tz. stat (Some tz)) (map_of (watched obs) n)"
  proof (cases obs)
    case (Some entries)
    then have "states (scanDir obs) n = fold (\<lambda>(n, tz) m. m(n \<mapsto> stat (Some tz))) (watched obs) Map.empty n"
      by (simp add: scanDir_def newDirSnapshot_def Let_def fold_scanEntry)
    then show ?thesis by (simp add: fold_states [OF d] split: option.splits)
  qed (simp add: none scanDir_def newDirSnapshot_def)
  then show "stateIn (scanDir obs) n = stat (map_of (watched obs) n)"
    by (simp add: stateIn_def stat_def split: option.splits)
qed

lemma hasContent_scan:
  assumes "one_name obs"
  shows "hasContent (scanDir obs) \<longleftrightarrow> watched obs \<noteq> []"
proof -
  have "sort xs = [] \<longleftrightarrow> xs = []" for xs :: "string list" by (metis length_0_conv length_sort)
  then have "hasContent (scanDir obs) \<longleftrightarrow> obs \<noteq> None \<and> watched obs \<noteq> []"
    by (simp add: hasContent_def scan_fields [OF assms])
  moreover have "watched obs = []" if "obs = None" using that by (simp add: watched_def)
  ultimately show ?thesis by blast
qed

lemma snapshotsEqual_scan:
  assumes "one_name p" "one_name c" "p \<noteq> None" "c \<noteq> None"
  shows "snapshotsEqual (scanDir p) (scanDir c) \<longleftrightarrow> set (watched p) = set (watched c)"
proof -
  note d = distinct_watched [OF assms(1)] distinct_watched [OF assms(2)]
  have states: "sameState (stateIn (scanDir p) n) (stateIn (scanDir c) n) \<longleftrightarrow> map_of (watched p) n = map_of (watched c) n" for n
    by (simp add: scan_fields [OF assms(1)] scan_fields [OF assms(2)] sameState_stat)
  have "readable (scanDir p)" "readable (scanDir c)"
    using assms by (simp_all add: scan_fields)
  then have "snapshotsEqual (scanDir p) (scanDir c) \<longleftrightarrow>
      names (scanDir p) = names (scanDir c) \<and>
      (\<forall>n\<in>set (names (scanDir p)). map_of (watched p) n = map_of (watched c) n)"
    by (auto simp: snapshotsEqual_def states list_all_iff list.rel_eq)
  then have "snapshotsEqual (scanDir p) (scanDir c) \<longleftrightarrow>
      sort (map fst (watched p)) = sort (map fst (watched c)) \<and>
      (\<forall>n\<in>fst ` set (watched p). map_of (watched p) n = map_of (watched c) n)"
    by (simp add: scan_fields [OF assms(1)] scan_fields [OF assms(2)])
  also have "\<dots> \<longleftrightarrow> map_of (watched p) = map_of (watched c)"
  proof (intro iffI conjI)
    assume l: "sort (map fst (watched p)) = sort (map fst (watched c)) \<and>
      (\<forall>n\<in>fst ` set (watched p). map_of (watched p) n = map_of (watched c) n)"
    then have "fst ` set (watched p) = fst ` set (watched c)" by (metis set_map set_sort)
    with l show "map_of (watched p) = map_of (watched c)" by (metis ext map_of_eq_None_iff)
  next
    assume m: "map_of (watched p) = map_of (watched c)"
    then have "set (map fst (watched p)) = set (map fst (watched c))" by (metis dom_map_of_conv_image_fst set_map)
    then show "sort (map fst (watched p)) = sort (map fst (watched c))"
      using d by (metis distinct_sort set_sort sorted_distinct_set_unique sorted_sort)
  qed simp
  also have "\<dots> \<longleftrightarrow> set (watched p) = set (watched c)" by (rule map_of_inject_set [OF d])
  finally show ?thesis .
qed

text \<open>C30: Each tick of a watcher reports a change exactly when there is something to read and it is not
  what the poll before found: for a file its modification time and size, for a directory the set of its
  YAML files with theirs. A file or directory that vanishes is not reported.\<close>

theorem watchers_report_new_content:
  assumes "\<forall>obs\<in>set (base # polls). one_name obs"
  shows "dirRun base polls =
      map2 (\<lambda>p c. watched c \<noteq> [] \<and> set (watched c) \<noteq> set (watched p)) (butlast (base # polls)) polls \<and>
    watchRun found files = map2 (\<lambda>p c. c \<noteq> None \<and> c \<noteq> p) (butlast (found # files)) files"
proof
  have "dirLoop (scanDir base) polls =
      map2 (\<lambda>p c. watched c \<noteq> [] \<and> set (watched c) \<noteq> set (watched p)) (butlast (base # polls)) polls"
    using assms
  proof (induction polls arbitrary: base)
    case (Cons c polls)
    then have ok: "one_name base" "one_name c" by simp_all
    have none: "watched None = []" by (simp add: watched_def)
    have "(hasContent (scanDir c) \<and> (\<not> hasContent (scanDir base) \<or> \<not> snapshotsEqual (scanDir base) (scanDir c))) =
        (watched c \<noteq> [] \<and> set (watched c) \<noteq> set (watched base))"
    proof (cases "watched base = [] \<or> watched c = []")
      case False
      then have "base \<noteq> None" "c \<noteq> None" using none by metis+
      from snapshotsEqual_scan [OF ok this] False show ?thesis
        by (auto simp: hasContent_scan [OF ok(1)] hasContent_scan [OF ok(2)])
    qed (auto simp: hasContent_scan [OF ok(1)] hasContent_scan [OF ok(2)])
    then show ?case using Cons by (simp add: Let_def)
  qed simp
  then show "dirRun base polls =
      map2 (\<lambda>p c. watched c \<noteq> [] \<and> set (watched c) \<noteq> set (watched p)) (butlast (base # polls)) polls"
    by (simp add: dirRun_def)
  have "watchLoop (stat found) files = map2 (\<lambda>p c. c \<noteq> None \<and> c \<noteq> p) (butlast (found # files)) files" for found
    by (induction files arbitrary: found) (simp_all add: changed_stat)
  then show "watchRun found files = map2 (\<lambda>p c. c \<noteq> None \<and> c \<noteq> p) (butlast (found # files)) files"
    by (simp add: watchRun_def)
qed

theorem watchers_report_new_content_witness:
  "dirRun (Some [(''a.yml'', False, Some (1, 10))])
     [Some [(''a.yml'', False, Some (1, 10)), (''notes.txt'', False, Some (2, 5))], None,
      Some [(''b.yaml'', False, Some (3, 7)), (''a.yml'', False, Some (1, 10))]] = [False, False, True]"
proof -
  let ?base = "Some [(''a.yml'', False, Some (1, 10))] :: dir_obs"
  let ?polls = "[Some [(''a.yml'', False, Some (1, 10)), (''notes.txt'', False, Some (2, 5))], None,
      Some [(''b.yaml'', False, Some (3, 7)), (''a.yml'', False, Some (1, 10))]] :: dir_obs list"
  have "\<forall>obs\<in>set (?base # ?polls). one_name obs" by (simp add: one_name_def)
  note watchers_report_new_content [OF this, of None "[]"]
  moreover have "map2 (\<lambda>p c. watched c \<noteq> [] \<and> set (watched c) \<noteq> set (watched p)) (butlast (?base # ?polls)) ?polls =
      [False, False, True]" by code_simp
  ultimately show ?thesis by simp
qed

end
