(* ===== verification/Spec2Isabelle.thy ===== *)
theory Spec2Isabelle
  imports Ring Cache Scheduler_Exit Swapper_Props Provider_Props Config_Groups Selector_Props Router_Runs
    Config_Merge Config_Macros_Props Inflight_Props Event_Props Http_Flow Watcher
begin

text \<open>
  A model of llemon-swap, a proxy that starts, stops and swaps language model servers on demand, with the
  theorems that make its core correct. Paths are under \<^verbatim>\<open>src/\<close>.

  \<^bold>\<open>The program.\<close> A request names a model. The middleware chain of \<^verbatim>\<open>internal/server\<close> checks its key, applies
  the active profile, resolves selectors and aliases and hands it to a router (\<^verbatim>\<open>internal/router/base.go\<close>). The run loop of the router passes every event to a FIFO scheduler
  (\<^verbatim>\<open>internal/router/scheduler/fifo.go\<close>), which serves, queues or rejects it and decides when models are
  swapped. Which models have to leave is asked of an eviction policy: groups, the matrix solver
  (\<^verbatim>\<open>internal/matrix\<close>), or provider pools around either (\<^verbatim>\<open>internal/router/group.go\<close>, \<^verbatim>\<open>matrix.go\<close>,
  \<^verbatim>\<open>matrix_solver.go\<close>, \<^verbatim>\<open>provider.go\<close>). A model is run by a command with a run loop of its own
  (\<^verbatim>\<open>internal/process\<close>) or lives in an external provider behind a manager (\<^verbatim>\<open>internal/provider\<close>). All of
  it is set up from a configuration merged, expanded and validated by \<^verbatim>\<open>internal/config\<close>.

  \<^bold>\<open>The theories.\<close>
  \<^item> \<open>Prelude\<close>, \<open>Config_Types\<close>, \<open>Go_Std\<close>, \<open>Go_Text\<close>: counters, folds that may panic, sorting, the structs the
    components share, errors as values, byte strings, searching and regular expressions.
  \<^item> \<open>Scheduler\<close> (\<^verbatim>\<open>FIFO\<close> and its handlers, over a record of effects on an arbitrary world), \<open>Scheduler_Inv\<close>
    and \<open>Scheduler_Handlers\<close> (the invariant and that each handler keeps it), \<open>Scheduler_Fair\<close>,
    \<open>Scheduler_Props\<close>, \<open>Scheduler_Exit\<close> (no panic, swap safety, exact reservations, wake-ups,
    cancelling, unloading, late reports) and \<open>Scheduler_World\<close> (a locale: what all effects keep, all
    handlers keep).
  \<^item> \<open>Matrix_DSL\<close>, \<open>Matrix_Print\<close> (tokens, parser, printer and their round trip), \<open>Matrix_Masks\<close>,
    \<open>Matrix_Program\<close>, \<open>Matrix_Topo\<close>, \<open>Matrix_Solve\<close>, \<open>Matrix_Props\<close> (compiler, topological order, frontier
    evaluation against the full expansion of the sets).
  \<^item> \<open>Swapper\<close>, \<open>Swapper_Props\<close>: the eviction policies, their locale of contracts and what they give the
    scheduler.
  \<^item> \<open>Provider_Manager\<close>, \<open>Provider_Steps\<close>, \<open>Provider_Props\<close>: the manager of an external provider. At every
    point where its lock is free an arbitrary interference may happen; \<open>Provider_Steps\<close> is the locale of
    what all its transitions keep.
  \<^item> \<open>Process_Command\<close>, \<open>Process_Props\<close>: the run loop of a command as a transition system.
  \<^item> \<open>Router_Base\<close>, \<open>Router_Inv\<close>, \<open>Router_Props\<close>, \<open>Router_Runs\<close>: the router, which instantiates the
    effects of the scheduler with processes and managers, and a run of it.
  \<^item> \<open>Selector\<close>, \<open>Selector_Props\<close>: strategies and spillover (\<^verbatim>\<open>internal/server/selector.go\<close>).
  \<^item> \<open>Go_Url\<close> (query strings and base64), \<open>Http_Request\<close> (\<^verbatim>\<open>internal/shared/http.go\<close>: the model, key and
    context of a request, with the parsed forms it caches), \<open>Http_Server\<close> (chains, middleware, routes and
    dispatch of \<^verbatim>\<open>internal/server\<close>, \<^verbatim>\<open>internal/chain\<close> and \<^verbatim>\<open>internal/router/peer.go\<close>), \<open>Http_Props\<close>,
    \<open>Http_Flow\<close>: replacing a model and reading it back, where that fails, keys, pins, selectors, peers.
  \<^item> \<open>Watcher\<close>: \<^verbatim>\<open>internal/watcher\<close>, as functions of what its polls find.
  \<^item> \<open>Config_Merge\<close>, \<open>Config_Macros\<close>, \<open>Config_Macros_Props\<close> (\<^verbatim>\<open>merge.go\<close>, \<^verbatim>\<open>macros.go\<close>, \<^verbatim>\<open>commands.go\<close>) and
    \<open>Config_Data\<close>, \<open>Matrix_Config\<close>, \<open>Config_Load\<close>, \<open>Config_Routing\<close>, \<open>Config_Models\<close>, \<open>Config_Groups\<close>
    (\<^verbatim>\<open>load.go\<close>, \<^verbatim>\<open>config.go\<close> and the validators): from sources to an accepted configuration, and what
    being accepted means for the components above.
  \<^item> \<open>Inflight\<close>, \<open>Inflight_Props\<close> (\<^verbatim>\<open>internal/server/inflight.go\<close>): the requests in flight, the outbox of
    their changes, and what its subscribers come to know, in all interleavings of writers and publishers.
  \<^item> \<open>Event_Dispatcher\<close>, \<open>Event_Props\<close> (\<^verbatim>\<open>internal/event/event.go\<close>): the table of event types, and the queues
    and wake-ups between senders and subscribers.
  \<^item> \<open>Ring\<close>, \<open>Cache\<close>: the buffers of \<^verbatim>\<open>internal/ring\<close> and \<^verbatim>\<open>internal/cache\<close>.

  \<^bold>\<open>Conventions.\<close> Definitions carry the names of the code. A mutex or a run loop makes an operation one
  transition; where the code gives up its lock or runs goroutines the model has steps in between. A Go map
  that is iterated is an association list whose order stands for the unspecified one; a map that is only
  looked up is a function. Errors are constructors rather than texts. A panic, and a health check that never
  ends, is \<open>None\<close>.

  \<^bold>\<open>Bounds.\<close> The parser runs on three times the number of tokens plus three, of which the theorem
  \<open>parse_result\<close> shows that they suffice; the search of the topological order on the number of sets plus
  one, never used up either. Starting a process has no value while its health check polls; the starts a
  router waits for are cut by their timeout, so that they end.

  \<^bold>\<open>Parameters.\<close> The YAML library, the file system, the environment, \<^verbatim>\<open>url.Parse\<close>, the HTTP client of a
  provider, JSON, media types and multipart bodies, and the outcomes of signals and timers are arguments of
  the definitions; \<open>codec_ok\<close> is what is relied on of the codecs. An HTTP handler is a function of the
  server's state, so what other requests do while it waits is part of it. In the router, swaps are
  one step each, between arbitrary steps of managers, processes and callers; stops that run in parallel take
  place in an arbitrary order.

  \<^bold>\<open>Not modelled.\<close> Decoding of YAML; overflow of durations and of costs; logging; the
  reverse proxies and the loading stream; the API handlers, which render what other components hold; the
  statistics and their database; the operating system counters of \<^verbatim>\<open>internal/perf\<close>; the JSON filter of
  request bodies, which a library edits by path; the command line programs. The matrix
  language reads characters up to U+00FF, all other strings are bytes, and \<^verbatim>\<open>ToLower\<close> is that of ASCII.
\<close>

end
